(* ===== verification/Prelude.thy ===== *)
theory Prelude
  imports Main "HOL-Library.Word" "HOL-Library.Multiset" "HOL-Library.Char_ord"
    "HOL-Library.List_Lexorder" "HOL-Library.Product_Lexorder"
begin

text \<open>
  Shared vocabulary of the development: Go's basic types, the result type of code that may
  abort the process, iteration over a Go map, and the generic list, map and word lemmas that the
  components use.
\<close>

section \<open>Types\<close>

text \<open>
  Go's \<open>string\<close> and \<open>[]byte\<close> are both byte sequences: a HOL \<open>char\<close> is one byte. Unsigned
  machine integers keep their width. Instants (\<open>time.Time\<close>) and durations are nanosecond counts.
\<close>

type_synonym bytes = string
type_synonym u32 = "32 word"
type_synonym u64 = "64 word"
type_synonym time = int

definition second :: time where
  "second = 1000000000"

text \<open>
  A goroutine that dereferences a nil pointer, divides by zero or indexes out of range panics and
  takes the process down; \<open>log.Fatalf\<close> exits it. Both are values of the result type.
\<close>

datatype abort = Panic | Fatal

type_synonym 'a result = "abort + 'a"

definition and_then :: "'a result \<Rightarrow> ('a \<Rightarrow> 'b result) \<Rightarrow> 'b result" where
  "and_then m f = (case m of Inl e \<Rightarrow> Inl e | Inr x \<Rightarrow> f x)"

text \<open>Reading a field through a pointer that may be nil.\<close>

definition deref :: "'a option \<Rightarrow> 'a result" where
  "deref p = (case p of None \<Rightarrow> Inl Panic | Some x \<Rightarrow> Inr x)"

section \<open>Lemma collections\<close>

named_theorems res_simps \<open>evaluation of the result type\<close>
named_theorems wire_simps \<open>byte layouts and their inverses\<close>
named_theorems ctrl_simps \<open>field-wise effect of the controller's operations\<close>

lemma and_then_Inr [simp, res_simps]: "and_then (Inr x) f = f x"
  by (simp add: and_then_def)

lemma and_then_Inl [simp, res_simps]: "and_then (Inl e) f = Inl e"
  by (simp add: and_then_def)

lemma and_then_eq_Inr [res_simps]:
  "and_then m f = Inr y \<longleftrightarrow> (\<exists>x. m = Inr x \<and> f x = Inr y)"
  by (auto simp: and_then_def split: sum.splits)

lemma deref_Some [simp, res_simps]: "deref (Some x) = Inr x"
  by (simp add: deref_def)

lemma deref_None [simp, res_simps]: "deref None = Inl Panic"
  by (simp add: deref_def)

lemma deref_eq_Inr [simp, res_simps]: "deref p = Inr x \<longleftrightarrow> p = Some x"
  by (auto simp: deref_def split: option.splits)

section \<open>Iteration over a Go map\<close>

text \<open>
  \<open>for k := range m\<close> visits every key of \<open>m\<close> exactly once, in an order the runtime chooses.
  The order is an input of the model: a list of keys \<open>ord\<close> that covers the map's domain. The
  visited keys are those of \<open>ord\<close> that the map holds.
\<close>

definition range_keys :: "'k list \<Rightarrow> ('k \<rightharpoonup> 'v) \<Rightarrow> 'k list" where
  "range_keys ord m = filter (\<lambda>k. m k \<noteq> None) (remdups ord)"

definition covers :: "'k list \<Rightarrow> ('k \<rightharpoonup> 'v) \<Rightarrow> bool" where
  "covers ord m \<longleftrightarrow> dom m \<subseteq> set ord"

lemma distinct_range_keys [simp]: "distinct (range_keys ord m)"
  by (simp add: range_keys_def)

lemma set_range_keys: "set (range_keys ord m) = set ord \<inter> dom m"
  by (auto simp: range_keys_def)

lemma set_range_keys_covers [simp]: "covers ord m \<Longrightarrow> set (range_keys ord m) = dom m"
  by (auto simp: set_range_keys covers_def)

lemma covers_finite: "covers ord m \<Longrightarrow> finite (dom m)"
  unfolding covers_def by (meson List.finite_set finite_subset)

lemma range_keys_cong: "dom m = dom m' \<Longrightarrow> range_keys ord m = range_keys ord m'"
  by (auto simp: range_keys_def dom_def set_eq_iff intro!: filter_cong)

lemma length_range_keys: "covers ord m \<Longrightarrow> length (range_keys ord m) = card (dom m)"
  by (metis distinct_card distinct_range_keys set_range_keys_covers)

section \<open>Lists\<close>

text \<open>
  The loop shape \<open>for i := range xs { if P(xs[i]) { xs[i] = f(xs[i]); break } }\<close>.
\<close>

fun update_first :: "('a \<Rightarrow> bool) \<Rightarrow> ('a \<Rightarrow> 'a) \<Rightarrow> 'a list \<Rightarrow> 'a list" where
  "update_first P f [] = []"
| "update_first P f (x # xs) = (if P x then f x # xs else x # update_first P f xs)"

lemma length_update_first [simp]: "length (update_first P f xs) = length xs"
  by (induction xs) auto

lemma update_first_absent: "find P xs = None \<Longrightarrow> update_first P f xs = xs"
  by (induction xs) (auto split: if_splits)

lemma map_update_first: "(\<And>x. g (f x) = g x) \<Longrightarrow> map g (update_first P f xs) = map g xs"
  by (induction xs) auto

lemma list_all_update_first:
  "list_all Q xs \<Longrightarrow> (\<And>x. x \<in> set xs \<Longrightarrow> P x \<Longrightarrow> Q x \<Longrightarrow> Q (f x)) \<Longrightarrow> list_all Q (update_first P f xs)"
  by (induction xs) auto

lemma update_first_id: "find P xs = Some x \<Longrightarrow> f x = x \<Longrightarrow> update_first P f xs = xs"
  by (induction xs) (auto split: if_splits)

lemma find_split:
  assumes "find P xs = Some x"
  obtains ys zs where "xs = ys @ x # zs" "P x" "\<forall>y \<in> set ys. \<not> P y"
    and "\<And>f. update_first P f xs = ys @ f x # zs"
proof -
  have "\<exists>ys zs. xs = ys @ x # zs \<and> P x \<and> (\<forall>y \<in> set ys. \<not> P y) \<and>
      (\<forall>f. update_first P f xs = ys @ f x # zs)"
    using assms
  proof (induction xs)
    case (Cons y xs)
    show ?case
    proof (cases "P y")
      case True
      with Cons.prems show ?thesis by (intro exI[of _ "[]"] exI[of _ xs]) simp
    next
      case False
      with Cons obtain ys zs where "xs = ys @ x # zs" "P x" "\<forall>y \<in> set ys. \<not> P y"
        "\<forall>f. update_first P f xs = ys @ f x # zs" by auto
      with False show ?thesis by (intro exI[of _ "y # ys"] exI[of _ zs]) simp
    qed
  qed simp
  with that show ?thesis by blast
qed

text \<open>Keeping the first occurrence of every element, as the code's \<open>uniqueNodes\<close> loops do.\<close>

fun unique_from :: "'a set \<Rightarrow> 'a list \<Rightarrow> 'a list" where
  "unique_from seen [] = []"
| "unique_from seen (x # xs) =
     (if x \<in> seen then unique_from seen xs else x # unique_from (insert x seen) xs)"

lemma set_unique_from: "set (unique_from seen xs) = set xs - seen"
  by (induction xs arbitrary: seen) auto

lemma distinct_unique_from: "distinct (unique_from seen xs)"
  by (induction xs arbitrary: seen) (auto simp: set_unique_from)

lemma word_of_nat_inj64: "i < 2 ^ 64 \<Longrightarrow> j < 2 ^ 64 \<Longrightarrow> (word_of_nat i :: u64) = word_of_nat j \<longleftrightarrow> i = j"
  by (auto dest: arg_cong [where f = unat] simp: unat_of_nat)

end
