(* ===== verification/GoLib.thy ===== *)
theory GoLib
  imports Prelude
begin

text \<open>
  The parts of Go's standard library the source relies on: decimal formatting and parsing
  (\<open>fmt\<close>, \<open>strconv\<close>), splitting and searching byte strings (\<open>strings\<close>, \<open>bytes\<close>), line scanning
  with a token limit (\<open>bufio.Scanner\<close>) and \<open>filepath.Base\<close>. The last section is the interface
  \<open>line_format\<close> of every newline-separated file of the program, with its round-trip law.
\<close>

abbreviation nl :: char where "nl \<equiv> CHR 0x0A"
abbreviation cr :: char where "cr \<equiv> CHR 0x0D"
abbreviation tab :: char where "tab \<equiv> CHR 0x09"

section \<open>Decimal numbers\<close>

definition digit_char :: "nat \<Rightarrow> char" where
  "digit_char d = char_of (48 + d)"

definition is_digit :: "char \<Rightarrow> bool" where
  "is_digit c \<longleftrightarrow> 48 \<le> (of_char c :: nat) \<and> (of_char c :: nat) \<le> 57"

definition digit_val :: "char \<Rightarrow> nat" where
  "digit_val c = of_char c - 48"

text \<open>The verb \<open>%d\<close> on an unsigned value: most significant digit first, no leading zeros.\<close>

fun dec_str :: "nat \<Rightarrow> string" where
  "dec_str n = (if n < 10 then [digit_char n] else dec_str (n div 10) @ [digit_char (n mod 10)])"

declare dec_str.simps [simp del]

text \<open>The longest prefix of digits, its value, and the rest; no digit is a failure.\<close>

fun digits_val :: "nat \<Rightarrow> string \<Rightarrow> nat" where
  "digits_val acc [] = acc"
| "digits_val acc (c # cs) = digits_val (acc * 10 + digit_val c) cs"

definition scan_nat :: "string \<Rightarrow> (nat \<times> string) option" where
  "scan_nat s = (let ds = takeWhile is_digit s in
     if ds = [] then None else Some (digits_val 0 ds, dropWhile is_digit s))"

lemma digit_char_is_digit: "d < 10 \<Longrightarrow> is_digit (digit_char d)"
  by (simp add: is_digit_def digit_char_def)

lemma digit_val_digit_char: "d < 10 \<Longrightarrow> digit_val (digit_char d) = d"
  by (simp add: digit_val_def digit_char_def)

lemma dec_str_digits: "\<forall>c \<in> set (dec_str n). is_digit c"
proof (induction n rule: dec_str.induct)
  case (1 n)
  then show ?case
    by (cases "n < 10") (auto simp: dec_str.simps [of n] digit_char_is_digit)
qed

lemma dec_str_not_Nil [simp]: "dec_str n \<noteq> []"
  by (subst dec_str.simps) simp

lemma digits_val_append: "digits_val a (xs @ ys) = digits_val (digits_val a xs) ys"
  by (induction xs arbitrary: a) auto

lemma digits_val_dec_str: "digits_val 0 (dec_str n) = n"
proof (induction n rule: dec_str.induct)
  case (1 n)
  then show ?case
    by (cases "n < 10")
      (simp_all add: dec_str.simps [of n] digit_val_digit_char digits_val_append)
qed

lemma takeWhile_append_stop:
  assumes "\<forall>x \<in> set xs. P x" "case ys of [] \<Rightarrow> True | y # _ \<Rightarrow> \<not> P y"
  shows "takeWhile P (xs @ ys) = xs" "dropWhile P (xs @ ys) = ys"
  using assms by (auto simp: takeWhile_append2 dropWhile_append2 takeWhile_eq_Nil_iff split: list.splits)

lemma scan_nat_dec_str [wire_simps]:
  assumes "case rest of [] \<Rightarrow> True | c # _ \<Rightarrow> \<not> is_digit c"
  shows "scan_nat (dec_str n @ rest) = Some (n, rest)"
  using takeWhile_append_stop [of "dec_str n" is_digit rest] assms
  by (simp add: scan_nat_def dec_str_digits digits_val_dec_str)

lemma dec_str_inj: "dec_str m = dec_str n \<longleftrightarrow> m = n"
  by (metis digits_val_dec_str)

lemma digit_not_special:
  "is_digit c \<Longrightarrow> c \<noteq> nl \<and> c \<noteq> cr \<and> c \<noteq> tab \<and> c \<noteq> CHR '' '' \<and> c \<noteq> CHR ''/'' \<and> c \<noteq> CHR '',''"
  by (auto simp: is_digit_def)

lemma dec_str_one: "dec_str (Suc 0) = ''1''"
  by code_simp

text \<open>\<open>strconv.ParseUint(s, 10, bits)\<close>: digits only, at least one, in range.\<close>

definition parse_uint :: "nat \<Rightarrow> string \<Rightarrow> nat option" where
  "parse_uint bits s =
     (if s \<noteq> [] \<and> list_all is_digit s \<and> digits_val 0 s < 2 ^ bits then Some (digits_val 0 s) else None)"

lemma parse_uint_dec_str: "n < 2 ^ bits \<Longrightarrow> parse_uint bits (dec_str n) = Some n"
  by (simp add: parse_uint_def digits_val_dec_str list_all_iff dec_str_digits)

section \<open>Splitting and searching\<close>

text \<open>\<open>strings.Split\<close> and \<open>bytes.Split\<close> with a one-byte separator: always at least one part.\<close>

fun split_on :: "char \<Rightarrow> string \<Rightarrow> string list" where
  "split_on c [] = [[]]"
| "split_on c (x # xs) =
     (if x = c then [] # split_on c xs
      else (case split_on c xs of [] \<Rightarrow> [[x]] | p # ps \<Rightarrow> (x # p) # ps))"

text \<open>\<open>bytes.SplitN(s, sep, 2)\<close>: the parts before and after the first separator, if there is one.\<close>

definition split2 :: "char \<Rightarrow> string \<Rightarrow> string list" where
  "split2 c s = (case dropWhile (\<lambda>x. x \<noteq> c) s of
     [] \<Rightarrow> [s] | _ # rest \<Rightarrow> [takeWhile (\<lambda>x. x \<noteq> c) s, rest])"

definition has_prefix :: "string \<Rightarrow> string \<Rightarrow> bool" where
  "has_prefix s p \<longleftrightarrow> take (length p) s = p"

definition has_suffix :: "string \<Rightarrow> string \<Rightarrow> bool" where
  "has_suffix s p \<longleftrightarrow> length p \<le> length s \<and> drop (length s - length p) s = p"

fun contains_str :: "string \<Rightarrow> string \<Rightarrow> bool" where
  "contains_str [] p = (p = [])"
| "contains_str (x # xs) p = (has_prefix (x # xs) p \<or> contains_str xs p)"

lemma split_on_not_Nil [simp]: "split_on c s \<noteq> []"
  by (induction s) (auto split: list.splits)

lemma split_on_no_sep: "c \<notin> set s \<Longrightarrow> split_on c s = [s]"
  by (induction s) auto

lemma split_on_append: "c \<notin> set s \<Longrightarrow> split_on c (s @ c # t) = s # split_on c t"
  by (induction s) (auto split: list.splits)

lemma split2_sep: "c \<notin> set k \<Longrightarrow> split2 c (k @ c # v) = [k, v]"
  by (induction k) (auto simp: split2_def split: list.splits)

text \<open>\<open>strings.Join\<close> with a one-byte separator is undone by \<open>Split\<close> on separator-free parts.\<close>

fun join_with :: "char \<Rightarrow> string list \<Rightarrow> string" where
  "join_with c [] = []"
| "join_with c [x] = x"
| "join_with c (x # xs) = x @ c # join_with c xs"

lemma split_on_join: "xs \<noteq> [] \<Longrightarrow> \<forall>x \<in> set xs. c \<notin> set x \<Longrightarrow> split_on c (join_with c xs) = xs"
  by (induction c xs rule: join_with.induct) (auto simp: split_on_append split_on_no_sep)

lemma set_join_with:
  "set (join_with c xs) \<subseteq> (\<Union>x \<in> set xs. set x) \<union> {c}"
  by (induction c xs rule: join_with.induct) auto

text \<open>
  \<open>filepath.Base\<close> on a slash-separated path: trailing slashes removed, the last element kept,
  \<open>"."\<close> for an empty path and \<open>"/"\<close> for a path of slashes only.
\<close>

definition path_base :: "string \<Rightarrow> string" where
  "path_base p =
     (if p = [] then ''.''
      else let q = rev (dropWhile (\<lambda>c. c = CHR ''/'') (rev p)) in
        if q = [] then ''/'' else rev (takeWhile (\<lambda>c. c \<noteq> CHR ''/'') (rev q)))"

lemma path_base_plain: "p \<noteq> [] \<Longrightarrow> CHR ''/'' \<notin> set p \<Longrightarrow> path_base p = p"
proof -
  assume "p \<noteq> []" and p: "CHR ''/'' \<notin> set p"
  then have "dropWhile (\<lambda>c. c = CHR ''/'') (rev p) = rev p"
    by (cases "rev p") (auto simp flip: set_rev [of p])
  moreover have "takeWhile (\<lambda>c. c \<noteq> CHR ''/'') (rev p) = rev p"
    unfolding takeWhile_eq_all_conv using p by auto
  ultimately show ?thesis using \<open>p \<noteq> []\<close> by (simp add: path_base_def del: takeWhile_eq_all_conv)
qed

section \<open>White space, words and case\<close>

text \<open>
  Go's text functions work on UTF-8. White space beyond ASCII has two- and three-byte encodings: they are
  blanked out first, byte for byte; a byte sequence that is no such encoding stays as it is.
\<close>

definition byte_of :: "char \<Rightarrow> nat" where
  "byte_of c = of_char c"

definition unicode_space2 :: "char \<Rightarrow> char \<Rightarrow> bool" where
  "unicode_space2 a b \<longleftrightarrow> byte_of a = 0xC2 \<and> (byte_of b = 0x85 \<or> byte_of b = 0xA0)"

definition unicode_space3 :: "char \<Rightarrow> char \<Rightarrow> char \<Rightarrow> bool" where
  "unicode_space3 a b c \<longleftrightarrow>
     (byte_of a = 0xE1 \<and> byte_of b = 0x9A \<and> byte_of c = 0x80) \<or>
     (byte_of a = 0xE2 \<and> byte_of b = 0x80 \<and> (byte_of c \<in> {0x80..0x8A} \<or> byte_of c \<in> {0xA8, 0xA9, 0xAF})) \<or>
     (byte_of a = 0xE2 \<and> byte_of b = 0x81 \<and> byte_of c = 0x9F) \<or>
     (byte_of a = 0xE3 \<and> byte_of b = 0x80 \<and> byte_of c = 0x80)"

fun blank_spaces :: "string \<Rightarrow> string" where
  "blank_spaces (a # b # c # s) =
     (if unicode_space3 a b c then CHR '' '' # CHR '' '' # CHR '' '' # blank_spaces s
      else if unicode_space2 a b then CHR '' '' # CHR '' '' # blank_spaces (c # s)
      else a # blank_spaces (b # c # s))"
| "blank_spaces [a, b] = (if unicode_space2 a b then [CHR '' '', CHR '' ''] else [a, b])"
| "blank_spaces s = s"

definition is_space :: "char \<Rightarrow> bool" where
  "is_space c \<longleftrightarrow> c = CHR '' '' \<or> (9 \<le> byte_of c \<and> byte_of c \<le> 13)"

text \<open>Maximal runs of characters of a class.\<close>

fun runs_of :: "(char \<Rightarrow> bool) \<Rightarrow> string \<Rightarrow> string \<Rightarrow> string list" where
  "runs_of P cur [] = (if cur = [] then [] else [cur])"
| "runs_of P cur (c # cs) =
     (if P c then runs_of P (cur @ [c]) cs
      else if cur = [] then runs_of P [] cs else cur # runs_of P [] cs)"

text \<open>\<open>strings.Fields\<close>, \<open>strings.TrimSpace\<close>.\<close>

definition fields_of :: "string \<Rightarrow> string list" where
  "fields_of s = runs_of (\<lambda>c. \<not> is_space c) [] (blank_spaces s)"

definition trim_space :: "string \<Rightarrow> string" where
  "trim_space s = (let m = blank_spaces s; i = length (takeWhile is_space m); j = length (takeWhile is_space (rev m))
     in take (length s - j - i) (drop i s))"

text \<open>
  \<open>strings.ToLower\<close>, as far as ASCII letters come out of it: two runes beyond ASCII, the Kelvin sign and the capital I
  with a dot, become letters of ASCII. Other runes beyond ASCII stay as they are here.
\<close>

definition lower :: "char \<Rightarrow> char" where
  "lower c = (if 65 \<le> byte_of c \<and> byte_of c \<le> 90 then char_of (byte_of c + 32) else c)"

fun to_lower :: "string \<Rightarrow> string" where
  "to_lower (a # b # c # s) =
     (if byte_of a = 0xE2 \<and> byte_of b = 0x84 \<and> byte_of c = 0xAA then CHR ''k'' # to_lower s
      else if byte_of a = 0xC4 \<and> byte_of b = 0xB0 then CHR ''i'' # to_lower (c # s)
      else lower a # to_lower (b # c # s))"
| "to_lower [a, b] = (if byte_of a = 0xC4 \<and> byte_of b = 0xB0 then ''i'' else [lower a, lower b])"
| "to_lower s = map lower s"

lemma runs_of_facts:
  "w \<in> set (runs_of P cur s) \<Longrightarrow> list_all P cur \<Longrightarrow> list_all P w \<and> length w \<le> length cur + length s"
  by (induction P cur s rule: runs_of.induct) (fastforce split: if_splits)+

section \<open>Line scanning\<close>

text \<open>
  \<open>bufio.Scanner\<close> with \<open>ScanLines\<close>: the input is cut after each newline; a last line without one is
  a token too, an empty rest is not. One trailing carriage return is dropped from a token.
  A line that does not fit the buffer with its newline stops the scan with \<open>ErrTooLong\<close>.
\<close>

fun lines_from :: "string \<Rightarrow> string \<Rightarrow> string list" where
  "lines_from cur [] = (if cur = [] then [] else [cur])"
| "lines_from cur (c # s) = (if c = nl then cur # lines_from [] s else lines_from (cur @ [c]) s)"

definition raw_lines :: "string \<Rightarrow> string list" where
  "raw_lines s = lines_from [] s"

definition drop_cr :: "string \<Rightarrow> string" where
  "drop_cr l = (if l \<noteq> [] \<and> last l = cr then butlast l else l)"

definition scan_lines :: "nat \<Rightarrow> string \<Rightarrow> string list" where
  "scan_lines limit s = map drop_cr (takeWhile (\<lambda>l. length l < limit) (raw_lines s))"

definition scan_err :: "nat \<Rightarrow> string \<Rightarrow> bool" where
  "scan_err limit s \<longleftrightarrow> (\<exists>l \<in> set (raw_lines s). limit \<le> length l)"

lemma lines_from_append: "nl \<notin> set l \<Longrightarrow> lines_from cur (l @ s) = lines_from (cur @ l) s"
  by (induction l arbitrary: cur) auto

lemma raw_lines_line: "nl \<notin> set l \<Longrightarrow> raw_lines (l @ nl # s) = l # raw_lines s"
  by (simp add: raw_lines_def lines_from_append)

lemma raw_lines_last: "nl \<notin> set l \<Longrightarrow> l \<noteq> [] \<Longrightarrow> raw_lines l = [l]"
  using lines_from_append [of l "[]" "[]"] by (simp add: raw_lines_def)

lemma raw_lines_Nil [simp]: "raw_lines [] = []"
  by (simp add: raw_lines_def)

lemma raw_lines_append:
  "raw_lines (concat (map (\<lambda>l. l @ [nl]) ls) @ s) = ls @ raw_lines s"
  if "\<forall>l \<in> set ls. nl \<notin> set l"
  using that by (induction ls) (auto simp: raw_lines_line)

lemma drop_cr_id: "cr \<notin> set l \<Longrightarrow> drop_cr l = l"
  by (auto simp: drop_cr_def dest: last_in_set)

lemma drop_cr_last: "last l \<noteq> cr \<Longrightarrow> drop_cr l = l"
  by (auto simp: drop_cr_def)

section \<open>Interface: newline-separated record files\<close>

text \<open>
  A file of the program is a sequence of records, one line each: the write-ahead log, the spill
  and intermediate files, the index files. The interface names what a format must promise, and the
  round trip through \<open>scan_lines\<close> is proved once for all of them. \<open>ok\<close> singles out the records the
  format can carry.
\<close>

definition write_lines :: "('a \<Rightarrow> string) \<Rightarrow> 'a list \<Rightarrow> string" where
  "write_lines enc xs = concat (map (\<lambda>x. enc x @ [nl]) xs)"

definition read_lines :: "(string \<Rightarrow> 'a option) \<Rightarrow> nat \<Rightarrow> string \<Rightarrow> 'a list" where
  "read_lines dec limit s = List.map_filter dec (scan_lines limit s)"

lemma write_lines_Nil [simp]: "write_lines enc [] = []"
  by (simp add: write_lines_def)

lemma write_lines_Cons [simp]: "write_lines enc (x # xs) = enc x @ nl # write_lines enc xs"
  by (simp add: write_lines_def)

lemma write_lines_append [simp]: "write_lines enc (xs @ ys) = write_lines enc xs @ write_lines enc ys"
  by (simp add: write_lines_def)

locale line_format =
  fixes enc :: "'a \<Rightarrow> string"
    and dec :: "string \<Rightarrow> 'a option"
    and ok :: "'a \<Rightarrow> bool"
    and limit :: nat
  assumes dec_enc: "ok x \<Longrightarrow> dec (enc x) = Some x"
    and enc_no_nl: "ok x \<Longrightarrow> nl \<notin> set (enc x)"
    and enc_last: "ok x \<Longrightarrow> last (enc x) \<noteq> cr"
    and enc_short: "ok x \<Longrightarrow> length (enc x) < limit"
begin

lemma raw_lines_write: "list_all ok xs \<Longrightarrow> raw_lines (write_lines enc xs @ s) = map enc xs @ raw_lines s"
  by (induction xs) (auto simp: raw_lines_line enc_no_nl)

lemma scan_write_append:
  "list_all ok xs \<Longrightarrow> scan_lines limit (write_lines enc xs @ s) = map enc xs @ scan_lines limit s"
proof (induction xs)
  case (Cons x xs)
  then show ?case
    by (simp add: scan_lines_def raw_lines_line enc_no_nl enc_short drop_cr_last enc_last)
qed simp

lemma scan_write: "list_all ok xs \<Longrightarrow> scan_lines limit (write_lines enc xs) = map enc xs"
  using scan_write_append [of xs "[]"] by (simp add: scan_lines_def)

lemma map_filter_enc: "list_all ok xs \<Longrightarrow> List.map_filter dec (map enc xs) = xs"
  by (induction xs) (auto simp: List.map_filter_def dec_enc)

lemma read_write: "list_all ok xs \<Longrightarrow> read_lines dec limit (write_lines enc xs) = xs"
  by (simp add: read_lines_def scan_write map_filter_enc)

lemma read_write_append:
  "list_all ok xs \<Longrightarrow>
    read_lines dec limit (write_lines enc xs @ s) = xs @ read_lines dec limit s"
  using map_filter_enc [of xs]
  by (simp add: read_lines_def scan_write_append List.map_filter_def)

end

end
