(* ===== verification/WalCodec.thy ===== *)
theory WalCodec
  imports GoLib
begin

text \<open>
  The records of the controller's write-ahead log (\<open>dfs/controller/wal.go\<close>) and their JSON text:
  \<open>json.Marshal\<close> on \<open>WalRecord\<close> with the field names of the struct tags, and \<open>json.Unmarshal\<close> on
  the texts \<open>Marshal\<close> produces (compact, fields in order). Any other line is rejected, as the code
  rejects a line that does not parse. Three textual details of Go's encoder are simplified: a nil slice
  is written as the empty one, an instant is written as its nanosecond count where Go writes
  RFC 3339, and the line separators U+2028 and U+2029, which Go escapes, pass unescaped.
\<close>

section \<open>Records\<close>

record WalChunkInfo =
  wc_ChunkId :: u64
  wc_Nodes :: "string list"
  wc_Size :: u32
  wc_Checksum :: bytes

record WalFileMetadata =
  wf_FileName :: string
  wf_Size :: u64
  wf_Chunks :: "WalChunkInfo list"
  wf_CreatedAt :: time
  wf_LeaseExpiry :: time

record WalRecord =
  wr_Op :: string
  wr_FileName :: string
  wr_FileMeta :: "WalFileMetadata option"

section \<open>Parsers and their law\<close>

type_synonym 'a parser = "string \<Rightarrow> ('a \<times> string) option"

text \<open>
  A printer and a parser match when the parser undoes the printer in front of any rest the
  grammar allows there.
\<close>

definition inverts :: "(string \<Rightarrow> bool) \<Rightarrow> ('a \<Rightarrow> string) \<Rightarrow> 'a parser \<Rightarrow> bool" where
  "inverts ok_rest enc p \<longleftrightarrow> (\<forall>x rest. ok_rest rest \<longrightarrow> p (enc x @ rest) = Some (x, rest))"

abbreviation any_rest :: "string \<Rightarrow> bool" where
  "any_rest \<equiv> (\<lambda>_. True)"

definition no_digit :: "string \<Rightarrow> bool" where
  "no_digit rest \<longleftrightarrow> (case rest of [] \<Rightarrow> True | c # _ \<Rightarrow> \<not> is_digit c)"

definition lit :: "string \<Rightarrow> unit parser" where
  "lit w s = (if take (length w) s = w then Some ((), drop (length w) s) else None)"

definition bindp :: "'a parser \<Rightarrow> ('a \<Rightarrow> 'b parser) \<Rightarrow> 'b parser" where
  "bindp p f s = (case p s of None \<Rightarrow> None | Some (x, r) \<Rightarrow> f x r)"

definition thenp :: "'a parser \<Rightarrow> 'b parser \<Rightarrow> 'b parser" where
  "thenp p q = bindp p (\<lambda>_. q)"

definition retp :: "'a \<Rightarrow> 'a parser" where
  "retp x s = Some (x, s)"

lemma lit_append [simp]: "lit w (w @ r) = Some ((), r)"
  by (simp add: lit_def)

lemma thenp_lit [simp]: "thenp (lit w) q (w @ r) = q r"
  by (simp add: thenp_def bindp_def)

lemma bindp_inverts: "inverts ok enc p \<Longrightarrow> ok r \<Longrightarrow> bindp p f (enc x @ r) = f x r"
  by (simp add: inverts_def bindp_def)

section \<open>Numbers\<close>

definition p_nat :: "nat parser" where
  "p_nat = scan_nat"

definition p_bounded :: "nat \<Rightarrow> nat parser" where
  "p_bounded bits s = (case p_nat s of Some (n, r) \<Rightarrow> if n < 2 ^ bits then Some (n, r) else None | None \<Rightarrow> None)"

definition enc_u64 :: "u64 \<Rightarrow> string" where
  "enc_u64 w = dec_str (unat w)"

definition p_u64 :: "u64 parser" where
  "p_u64 = bindp (p_bounded 64) (\<lambda>n. retp (word_of_nat n))"

definition enc_u32 :: "u32 \<Rightarrow> string" where
  "enc_u32 w = dec_str (unat w)"

definition p_u32 :: "u32 parser" where
  "p_u32 = bindp (p_bounded 32) (\<lambda>n. retp (word_of_nat n))"

text \<open>An instant as a signed nanosecond count.\<close>

definition enc_time :: "time \<Rightarrow> string" where
  "enc_time t = (if t < 0 then CHR ''-'' # dec_str (nat (- t)) else dec_str (nat t))"

definition p_time :: "time parser" where
  "p_time s = (case s of
      CHR ''-'' # r \<Rightarrow> bindp p_nat (\<lambda>n. retp (- int n)) r
    | _ \<Rightarrow> bindp p_nat (\<lambda>n. retp (int n)) s)"

lemma p_nat_dec_str: "no_digit r \<Longrightarrow> p_nat (dec_str n @ r) = Some (n, r)"
  unfolding p_nat_def no_digit_def by (rule scan_nat_dec_str)

lemma unat_bound: "unat (w :: u64) < 18446744073709551616" "unat (v :: u32) < 4294967296"
  using unsigned_less [of w, where ?'a = nat] unsigned_less [of v, where ?'a = nat] by simp_all

lemma p_u64_inverts: "inverts no_digit enc_u64 p_u64"
  by (auto simp: inverts_def enc_u64_def p_u64_def bindp_def retp_def p_bounded_def p_nat_dec_str unat_bound)

lemma p_u32_inverts: "inverts no_digit enc_u32 p_u32"
  by (auto simp: inverts_def enc_u32_def p_u32_def bindp_def retp_def p_bounded_def p_nat_dec_str unat_bound)

lemma dec_str_hd: "dec_str n = c # cs \<Longrightarrow> is_digit c"
  using dec_str_digits [of n] by simp

lemma p_time_inverts: "inverts no_digit enc_time p_time"
proof -
  have "p_time (enc_time t @ r) = Some (t, r)" if r: "no_digit r" for t r
  proof (cases "t < 0")
    case True
    then show ?thesis
      using r by (simp add: p_time_def enc_time_def bindp_def retp_def p_nat_dec_str)
  next
    case False
    obtain c cs where c: "dec_str (nat t) = c # cs" by (cases "dec_str (nat t)") auto
    then have "is_digit c" by (rule dec_str_hd)
    then have "c \<noteq> CHR ''-''" by (auto simp: is_digit_def)
    with c have "p_time (dec_str (nat t) @ r) = bindp p_nat (\<lambda>n. retp (int n)) (dec_str (nat t) @ r)"
      by (auto simp: p_time_def split: list.splits char.splits bool.splits)
    with r False show ?thesis
      by (simp add: enc_time_def bindp_def retp_def p_nat_dec_str)
  qed
  then show ?thesis by (simp add: inverts_def)
qed

section \<open>Strings\<close>

definition hex_digit :: "nat \<Rightarrow> char" where
  "hex_digit n = (if n < 10 then char_of (48 + n) else char_of (87 + n))"

definition hex_val :: "char \<Rightarrow> nat option" where
  "hex_val c = (let n = (of_char c :: nat) in
     if 48 \<le> n \<and> n \<le> 57 then Some (n - 48) else if 97 \<le> n \<and> n \<le> 102 then Some (n - 87) else None)"

text \<open>
  Escaping with \<open>escapeHTML\<close> on, the default: quote and backslash, the control characters, and
  \<open><\<close>, \<open>>\<close>, \<open>&\<close>. Bytes from 128 up are parts of UTF-8 sequences and pass.
\<close>

definition enc_char :: "char \<Rightarrow> string" where
  "enc_char c = (let n = (of_char c :: nat) in
     if n = 34 \<or> n = 92 then [CHR 0x5C, c]
     else if n = 8 then [CHR 0x5C, CHR ''b'']
     else if n = 12 then [CHR 0x5C, CHR ''f'']
     else if n = 10 then [CHR 0x5C, CHR ''n'']
     else if n = 13 then [CHR 0x5C, CHR ''r'']
     else if n = 9 then [CHR 0x5C, CHR ''t'']
     else if n < 32 \<or> n = 60 \<or> n = 62 \<or> n = 38
       then [CHR 0x5C, CHR ''u'', CHR ''0'', CHR ''0'', hex_digit (n div 16), hex_digit (n mod 16)]
     else [c])"

definition enc_string :: "string \<Rightarrow> string" where
  "enc_string s = CHR 0x22 # concat (map enc_char s) @ [CHR 0x22]"

text \<open>One character of a string literal after a backslash.\<close>

definition p_escape :: "char parser" where
  "p_escape s = (case s of
      [] \<Rightarrow> None
    | c # r \<Rightarrow>
        (if c = CHR 0x22 \<or> c = CHR 0x5C \<or> c = CHR ''/'' then Some (c, r)
         else if c = CHR ''b'' then Some (CHR 0x08, r)
         else if c = CHR ''f'' then Some (CHR 0x0C, r)
         else if c = CHR ''n'' then Some (CHR 0x0A, r)
         else if c = CHR ''r'' then Some (CHR 0x0D, r)
         else if c = CHR ''t'' then Some (CHR 0x09, r)
         else if c = CHR ''u'' then
           (case r of
              z1 # z2 # h # l # r' \<Rightarrow>
                if z1 = CHR ''0'' \<and> z2 = CHR ''0'' then
                  (case (hex_val h, hex_val l) of
                     (Some a, Some b) \<Rightarrow> if a < 8 then Some (char_of (a * 16 + b), r') else None
                   | _ \<Rightarrow> None)
                else None
            | _ \<Rightarrow> None)
         else None))"

text \<open>The literal's body up to the closing quote; raw control characters are not allowed.\<close>

fun p_body :: "nat \<Rightarrow> string parser" where
  "p_body 0 s = None"
| "p_body (Suc fuel) s = (case s of
      [] \<Rightarrow> None
    | c # r \<Rightarrow>
        (if c = CHR 0x22 then Some ([], r)
         else if c = CHR 0x5C then
           (case p_escape r of
              Some (d, r') \<Rightarrow> map_option (\<lambda>(ds, q). (d # ds, q)) (p_body fuel r')
            | None \<Rightarrow> None)
         else if (of_char c :: nat) < 32 then None
         else map_option (\<lambda>(ds, q). (c # ds, q)) (p_body fuel r)))"

text \<open>Every step consumes a character, so the length of the input is fuel enough.\<close>

definition p_string :: "string parser" where
  "p_string s = (case s of
      c # r \<Rightarrow> if c = CHR 0x22 then p_body (Suc (length r)) r else None
    | [] \<Rightarrow> None)"

lemma hex_val_hex_digit: "n < 16 \<Longrightarrow> hex_val (hex_digit n) = Some n"
  by (auto simp: hex_val_def hex_digit_def)

text \<open>Every escape sequence the encoder writes reads back as its character.\<close>

lemma p_escape_u:
  assumes "n < 128"
  shows "p_escape (CHR ''u'' # CHR ''0'' # CHR ''0'' # hex_digit (n div 16) # hex_digit (n mod 16) # r)
    = Some (char_of n, r)"
proof -
  have "n div 16 < 8" using assms by simp
  then show ?thesis by (simp add: p_escape_def hex_val_hex_digit)
qed

lemma char_codes:
  "char_of (34 :: nat) = CHR 0x22" "char_of (92 :: nat) = CHR 0x5C" "char_of (8 :: nat) = CHR 0x08"
  "char_of (12 :: nat) = CHR 0x0C" "char_of (10 :: nat) = nl" "char_of (13 :: nat) = cr"
  "char_of (9 :: nat) = tab"
  by code_simp+

lemma enc_char_cases:
  obtains (plain) "enc_char c = [c]" "c \<noteq> CHR 0x22" "c \<noteq> CHR 0x5C" "32 \<le> (of_char c :: nat)"
  | (escape) e where "enc_char c = CHR 0x5C # e" "e \<noteq> []" "\<And>r. p_escape (e @ r) = Some (c, r)"
proof -
  define n where "n = (of_char c :: nat)"
  have c: "c = char_of n" by (simp add: n_def)
  consider (esc) "n = 34 \<or> n = 92" | (b) "n = 8" | (f) "n = 12" | (n) "n = 10" | (r) "n = 13" | (t) "n = 9"
    | (u) "n < 32 \<or> n = 60 \<or> n = 62 \<or> n = 38" "n \<notin> {34, 92, 8, 12, 10, 13, 9}"
    | (plain) "32 \<le> n" "n \<notin> {34, 92, 60, 62, 38}"
    by fastforce
  then show ?thesis
  proof cases
    case esc
    then have "c = CHR 0x22 \<or> c = CHR 0x5C" by (metis c char_codes(1,2))
    with esc show ?thesis
      by (intro escape [of "[c]"]) (auto simp: enc_char_def n_def [symmetric] p_escape_def)
  next
    case u
    then have "n < 128" by auto
    with u show ?thesis
      by (intro escape [of "[CHR ''u'', CHR ''0'', CHR ''0'', hex_digit (n div 16), hex_digit (n mod 16)]"])
        (auto simp: enc_char_def n_def [symmetric] p_escape_u c [symmetric])
  next
    case plain
    then have "c \<noteq> CHR 0x22" "c \<noteq> CHR 0x5C" by (auto simp: n_def)
    with plain show ?thesis
      by (intro that(1)) (auto simp: enc_char_def n_def [symmetric])
  qed (rule escape [of "tl (enc_char c)"];
      simp add: enc_char_def n_def [symmetric] p_escape_def; simp add: c char_codes)+
qed

lemma p_body_enc:
  "length s < fuel \<Longrightarrow> p_body fuel (concat (map enc_char s) @ CHR 0x22 # r) = Some (s, r)"
proof (induction s arbitrary: fuel)
  case Nil
  then show ?case by (cases fuel) auto
next
  case (Cons c s)
  then obtain k where k: "fuel = Suc k" "length s < k" by (cases fuel) auto
  from k Cons.IH have IH: "p_body k (concat (map enc_char s) @ CHR 0x22 # r) = Some (s, r)" by simp
  show ?case
  proof (cases rule: enc_char_cases [of c])
    case plain
    with IH show ?thesis by (simp add: k)
  next
    case (escape e)
    with IH show ?thesis by (simp add: k)
  qed
qed

lemma enc_char_not_Nil: "enc_char c \<noteq> []"
  by (cases rule: enc_char_cases [of c]) auto

lemma length_concat_enc: "length s \<le> length (concat (map enc_char s))"
proof (induction s)
  case (Cons c s)
  with enc_char_not_Nil [of c] show ?case by (cases "enc_char c") auto
qed simp

lemma p_string_inverts: "inverts any_rest enc_string p_string"
proof -
  have "p_string (enc_string s @ r) = Some (s, r)" for s r
  proof -
    have "length s < Suc (length (concat (map enc_char s) @ CHR 0x22 # r))"
      using length_concat_enc [of s] by simp
    then show ?thesis by (simp only: p_string_def enc_string_def append.simps append_assoc
        list.case if_True simp_thms p_body_enc)
  qed
  then show ?thesis by (simp add: inverts_def)
qed

section \<open>Arrays\<close>

definition enc_list :: "('a \<Rightarrow> string) \<Rightarrow> 'a list \<Rightarrow> string" where
  "enc_list enc xs = CHR ''['' # join_with CHR '','' (map enc xs) @ [CHR '']'']"

fun p_items :: "nat \<Rightarrow> 'a parser \<Rightarrow> 'a list parser" where
  "p_items 0 p s = None"
| "p_items (Suc fuel) p s = (case p s of
      None \<Rightarrow> None
    | Some (x, r) \<Rightarrow> (case r of
          [] \<Rightarrow> None
        | c # r' \<Rightarrow>
            if c = CHR '']'' then Some ([x], r')
            else if c = CHR '','' then map_option (\<lambda>(xs, q). (x # xs, q)) (p_items fuel p r')
            else None))"

definition p_list :: "'a parser \<Rightarrow> 'a list parser" where
  "p_list p s = (case s of
      c # d # r \<Rightarrow>
        if c = CHR ''['' then (if d = CHR '']'' then Some ([], r) else p_items (length s) p (d # r)) else None
    | _ \<Rightarrow> None)"

text \<open>What may follow an array element.\<close>

definition item_end :: "string \<Rightarrow> bool" where
  "item_end r \<longleftrightarrow> (\<exists>q. r = CHR '','' # q \<or> r = CHR '']'' # q)"

lemma p_items_enc:
  assumes inv: "inverts ok enc p" and ok: "\<And>r. item_end r \<Longrightarrow> ok r"
  shows "xs \<noteq> [] \<Longrightarrow> length xs \<le> fuel \<Longrightarrow>
    p_items fuel p (join_with CHR '','' (map enc xs) @ CHR '']'' # r) = Some (xs, r)"
proof (induction xs arbitrary: fuel)
  case (Cons x xs)
  then obtain k where k: "fuel = Suc k" by (cases fuel) auto
  have p: "p (enc x @ c # q) = Some (x, c # q)" if "c = CHR '','' \<or> c = CHR '']''" for c q
    using inv ok [of "c # q"] that by (auto simp: inverts_def item_end_def)
  show ?case
  proof (cases xs)
    case Nil
    then show ?thesis by (simp add: k p)
  next
    case (Cons y ys)
    with Cons.IH [of k] Cons.prems k show ?thesis by (simp add: p)
  qed
qed simp

lemma length_join: "length xs \<le> Suc (length (join_with c xs))"
  by (induction c xs rule: join_with.induct) auto

lemma p_list_inverts:
  assumes inv: "inverts ok enc p" and ok: "\<And>r. item_end r \<Longrightarrow> ok r"
    and start: "\<And>x. \<exists>c q. enc x = c # q \<and> c \<noteq> CHR '']''"
  shows "inverts any_rest (enc_list enc) (p_list p)"
proof -
  have "p_list p (enc_list enc xs @ r) = Some (xs, r)" for xs r
  proof (cases xs)
    case Nil
    then show ?thesis by (simp add: p_list_def enc_list_def)
  next
    case (Cons x ys)
    let ?body = "join_with CHR '','' (map enc xs) @ CHR '']'' # r"
    from start obtain c q where cq: "enc x = c # q" "c \<noteq> CHR '']''" by blast
    obtain q' where body: "?body = c # q'"
      using Cons cq by (cases ys) auto
    have "length xs \<le> length (CHR ''['' # ?body)"
      using length_join [of "map enc xs" "CHR '',''"] by simp
    then have "p_items (length (CHR ''['' # ?body)) p ?body = Some (xs, r)"
      by (intro p_items_enc [OF inv ok]) (use Cons in auto)
    then have "p_list p (CHR ''['' # ?body) = Some (xs, r)"
      using cq(2) by (simp add: p_list_def body)
    then show ?thesis by (simp add: enc_list_def)
  qed
  then show ?thesis by (simp add: inverts_def)
qed

section \<open>Base64\<close>

text \<open>A byte slice is a base64 string with padding, a nil slice is \<open>null\<close>.\<close>

definition b64_chars :: string where
  "b64_chars = ''ABCDEFGHIJKLMNOPQRSTUVWXYZabcdefghijklmnopqrstuvwxyz0123456789+/''"

definition b64_char :: "nat \<Rightarrow> char" where
  "b64_char n = b64_chars ! n"

definition b64_val :: "char \<Rightarrow> nat option" where
  "b64_val c = find (\<lambda>i. b64_chars ! i = c) [0..<64]"

abbreviation pad :: char where "pad \<equiv> CHR ''=''"

fun enc64 :: "bytes \<Rightarrow> string" where
  "enc64 [] = []"
| "enc64 [a] = [b64_char (of_char a div 4), b64_char (of_char a mod 4 * 16), pad, pad]"
| "enc64 [a, b] = [b64_char (of_char a div 4), b64_char (of_char a mod 4 * 16 + of_char b div 16),
     b64_char (of_char b mod 16 * 4), pad]"
| "enc64 (a # b # c # r) = b64_char (of_char a div 4) # b64_char (of_char a mod 4 * 16 + of_char b div 16) #
     b64_char (of_char b mod 16 * 4 + of_char c div 64) # b64_char (of_char c mod 64) # enc64 r"

fun dec64 :: "string \<Rightarrow> bytes option" where
  "dec64 [] = Some []"
| "dec64 (p # q # r # s # t) =
     (case (b64_val p, b64_val q) of
        (Some x, Some y) \<Rightarrow>
          (if r = pad then (if s = pad \<and> t = [] then Some [char_of (x * 4 + y div 16)] else None)
           else (case b64_val r of
               None \<Rightarrow> None
             | Some z \<Rightarrow>
                 if s = pad then
                   (if t = [] then Some [char_of (x * 4 + y div 16), char_of (y mod 16 * 16 + z div 4)] else None)
                 else (case (b64_val s, dec64 t) of
                     (Some w, Some ds) \<Rightarrow> Some (char_of (x * 4 + y div 16) # char_of (y mod 16 * 16 + z div 4)
                        # char_of (z mod 4 * 64 + w) # ds)
                   | _ \<Rightarrow> None)))
      | _ \<Rightarrow> None)"
| "dec64 _ = None"

lemma b64_chars_facts: "length b64_chars = 64" "distinct b64_chars" "pad \<notin> set b64_chars"
  by code_simp+

lemma b64_val_char [simp]: "n < 64 \<Longrightarrow> b64_val (b64_char n) = Some n"
proof -
  assume n: "n < 64"
  have "b64_chars ! i = b64_chars ! n \<longleftrightarrow> i = n" if "i < 64" for i
    using nth_eq_iff_index_eq [OF b64_chars_facts(2)] n that by (simp add: b64_chars_facts(1))
  then show ?thesis
    using n by (auto simp: b64_val_def b64_char_def find_Some_iff)
qed

lemma b64_char_not_pad [simp]: "n < 64 \<Longrightarrow> b64_char n \<noteq> pad"
  unfolding b64_char_def by (metis b64_chars_facts(1,3) nth_mem)

lemma div_bounds:
  "a < 256 \<Longrightarrow> a div 4 < (64 :: nat)" "a < 256 \<Longrightarrow> a div 16 < (16 :: nat)" "a < 256 \<Longrightarrow> a div 64 < (4 :: nat)"
  by (simp_all add: less_mult_imp_div_less)

lemma mod_bounds: "a mod 4 < (4 :: nat)" "a mod 16 < (16 :: nat)" "a mod 64 < (64 :: nat)"
  by simp_all

lemma sextet_nat:
  "a mod 4 * 16 < (64 :: nat)" "a mod 16 * 4 < (64 :: nat)"
  "b < 256 \<Longrightarrow> a mod 4 * 16 + b div 16 < (64 :: nat)"
  "c < 256 \<Longrightarrow> a mod 16 * 4 + c div 64 < (64 :: nat)"
  using mod_bounds [of a] div_bounds [of b] div_bounds [of c] by linarith+

lemma octet_nat:
  "b < 256 \<Longrightarrow> b div 16 div 16 = (0 :: nat)" "b < 256 \<Longrightarrow> b div 16 mod 16 = b div (16 :: nat)"
  "b < 256 \<Longrightarrow> b div 64 div 4 = (0 :: nat)" "b < 256 \<Longrightarrow> b div 64 mod 4 = b div (64 :: nat)"
  using div_bounds [of b] by simp_all

lemma of_char_less: "(of_char c :: nat) < 256"
  by simp

lemmas b64_arith = div_bounds sextet_nat octet_nat of_char_less

lemma dec64_enc64: "dec64 (enc64 cs) = Some cs"
  by (induction cs rule: enc64.induct) (simp_all add: b64_arith)

definition enc_checksum :: "bytes \<Rightarrow> string" where
  "enc_checksum cs = (if cs = [] then ''null'' else enc_string (enc64 cs))"

definition p_checksum :: "bytes parser" where
  "p_checksum s =
     (if take 4 s = ''null'' then Some ([], drop 4 s)
      else bindp p_string (\<lambda>t r. map_option (\<lambda>cs. (cs, r)) (dec64 t)) s)"

lemma p_checksum_inverts: "inverts any_rest enc_checksum p_checksum"
proof -
  have "take 4 (enc_string t @ r) \<noteq> ''null''" for t r
    by (simp add: enc_string_def numeral_eq_Suc)
  then show ?thesis
    by (auto simp: inverts_def enc_checksum_def p_checksum_def dec64_enc64
        bindp_inverts [OF p_string_inverts] simp del: take_append)
qed

section \<open>The structures of the log\<close>

definition enc_chunk :: "WalChunkInfo \<Rightarrow> string" where
  \<open>enc_chunk c = ''{"chunk_id":'' @ enc_u64 (wc_ChunkId c) @ '',"nodes":'' @ enc_list enc_string (wc_Nodes c) @
     '',"size":'' @ enc_u32 (wc_Size c) @ '',"checksum":'' @ enc_checksum (wc_Checksum c) @ ''}''\<close>

definition p_chunk :: "WalChunkInfo parser" where
  \<open>p_chunk = thenp (lit ''{"chunk_id":'') (bindp p_u64 (\<lambda>i. thenp (lit '',"nodes":'')
     (bindp (p_list p_string) (\<lambda>ns. thenp (lit '',"size":'') (bindp p_u32 (\<lambda>sz. thenp (lit '',"checksum":'')
     (bindp p_checksum (\<lambda>cs. thenp (lit ''}'')
     (retp \<lparr>wc_ChunkId = i, wc_Nodes = ns, wc_Size = sz, wc_Checksum = cs\<rparr>)))))))))\<close>

definition enc_meta :: "WalFileMetadata \<Rightarrow> string" where
  \<open>enc_meta m = ''{"file_name":'' @ enc_string (wf_FileName m) @ '',"size":'' @ enc_u64 (wf_Size m) @
     '',"chunks":'' @ enc_list enc_chunk (wf_Chunks m) @ '',"created_at":"'' @ enc_time (wf_CreatedAt m) @
     ''","lease_expiry":"'' @ enc_time (wf_LeaseExpiry m) @ ''"}''\<close>

definition p_meta :: "WalFileMetadata parser" where
  \<open>p_meta = thenp (lit ''{"file_name":'') (bindp p_string (\<lambda>n. thenp (lit '',"size":'')
     (bindp p_u64 (\<lambda>sz. thenp (lit '',"chunks":'') (bindp (p_list p_chunk) (\<lambda>cs.
     thenp (lit '',"created_at":"'') (bindp p_time (\<lambda>ct. thenp (lit ''","lease_expiry":"'')
     (bindp p_time (\<lambda>le. thenp (lit ''"}'')
     (retp \<lparr>wf_FileName = n, wf_Size = sz, wf_Chunks = cs, wf_CreatedAt = ct, wf_LeaseExpiry = le\<rparr>)))))))))))\<close>

definition enc_record :: "WalRecord \<Rightarrow> string" where
  \<open>enc_record r = ''{"op":'' @ enc_string (wr_Op r) @ '',"file_name":'' @ enc_string (wr_FileName r) @
     (case wr_FileMeta r of None \<Rightarrow> ''}'' | Some m \<Rightarrow> '',"file_meta":'' @ enc_meta m @ ''}'')\<close>

definition p_record :: "WalRecord parser" where
  \<open>p_record = thenp (lit ''{"op":'') (bindp p_string (\<lambda>op. thenp (lit '',"file_name":'')
     (bindp p_string (\<lambda>n s.
       if take 1 s = ''}'' then Some (\<lparr>wr_Op = op, wr_FileName = n, wr_FileMeta = None\<rparr>, drop 1 s)
       else thenp (lit '',"file_meta":'') (bindp p_meta (\<lambda>m. thenp (lit ''}'')
         (retp \<lparr>wr_Op = op, wr_FileName = n, wr_FileMeta = Some m\<rparr>))) s))))\<close>

text \<open>\<open>json.Unmarshal\<close> on a line: the whole line must be one record.\<close>

definition json_unmarshal :: "string \<Rightarrow> WalRecord option" where
  "json_unmarshal line = (case p_record line of Some (r, []) \<Rightarrow> Some r | _ \<Rightarrow> None)"

definition json_marshal :: "WalRecord \<Rightarrow> string" where
  "json_marshal = enc_record"

section \<open>Round trip\<close>

lemma no_digit_lit: "no_digit ((c # w) @ r) \<longleftrightarrow> \<not> is_digit c"
  by (simp add: no_digit_def)

lemma not_digits: "\<not> is_digit (CHR '','')" "\<not> is_digit (CHR 0x22)" "\<not> is_digit (CHR '']'')"
  by code_simp+

lemma p_strings_inverts: "inverts any_rest (enc_list enc_string) (p_list p_string)"
  by (rule p_list_inverts [OF p_string_inverts]) (simp_all add: enc_string_def)

lemmas chunk_parsers = bindp_inverts [OF p_u64_inverts] bindp_inverts [OF p_u32_inverts]
  bindp_inverts [OF p_time_inverts] bindp_inverts [OF p_string_inverts]
  bindp_inverts [OF p_strings_inverts] bindp_inverts [OF p_checksum_inverts]

lemmas parse_simps = append_assoc thenp_lit no_digit_lit not_digits retp_def not_False_eq_True

lemma p_chunk_inverts: "inverts any_rest enc_chunk p_chunk"
  by (rule inverts_def [THEN iffD2], intro allI impI)
    (simp only: enc_chunk_def p_chunk_def chunk_parsers parse_simps, simp)

lemma p_chunks_inverts: "inverts any_rest (enc_list enc_chunk) (p_list p_chunk)"
  by (rule p_list_inverts [OF p_chunk_inverts]) (simp_all add: enc_chunk_def)

lemma p_meta_inverts: "inverts any_rest enc_meta p_meta"
  by (rule inverts_def [THEN iffD2], intro allI impI)
    (simp only: enc_meta_def p_meta_def chunk_parsers bindp_inverts [OF p_chunks_inverts] parse_simps, simp)

lemma p_record_inverts: "inverts any_rest enc_record p_record"
proof -
  have "p_record (enc_record r @ rest) = Some (r, rest)" for r rest
  proof (cases "wr_FileMeta r")
    case None
    then show ?thesis
      by (simp only: enc_record_def p_record_def chunk_parsers parse_simps option.case) simp
  next
    case (Some m)
    have no_brace: \<open>take 1 ('',"file_meta":'' @ q) \<noteq> ''}''\<close> for q by simp
    from Some show ?thesis
      by (simp only: enc_record_def p_record_def chunk_parsers parse_simps option.case no_brace
          bindp_inverts [OF p_meta_inverts] if_False) simp
  qed
  then show ?thesis by (simp add: inverts_def)
qed

lemma json_unmarshal_marshal [wire_simps]: "json_unmarshal (json_marshal r) = Some r"
  using p_record_inverts by (simp add: inverts_def json_unmarshal_def json_marshal_def)
    (metis (no_types, lifting) append_Nil2 option.case prod.case list.case(1))

text \<open>A line with anything after a complete record is not a record.\<close>

lemma json_unmarshal_trailing: "rest \<noteq> [] \<Longrightarrow> json_unmarshal (json_marshal r @ rest) = None"
  using p_record_inverts by (cases rest) (simp_all add: inverts_def json_unmarshal_def json_marshal_def)

section \<open>Every record is one line\<close>

definition printable :: "string \<Rightarrow> bool" where
  "printable s \<longleftrightarrow> (\<forall>c \<in> set s. 32 \<le> (of_char c :: nat))"

lemma printable_append [simp]: "printable (s @ t) \<longleftrightarrow> printable s \<and> printable t"
  by (auto simp: printable_def)

lemma printable_Cons [simp]: "printable (c # s) \<longleftrightarrow> 32 \<le> (of_char c :: nat) \<and> printable s"
  by (auto simp: printable_def)

lemma printable_Nil [simp]: "printable []"
  by (simp add: printable_def)

lemma printable_no_ctrl: "printable s \<Longrightarrow> nl \<notin> set s \<and> cr \<notin> set s"
  by (auto simp: printable_def)

lemma printable_dec [simp]: "printable (dec_str n)"
  using dec_str_digits [of n] by (force simp: printable_def is_digit_def)

lemma printable_enc_char [simp]: "printable (enc_char c)"
proof -
  have hex: "32 \<le> (of_char (hex_digit n) :: nat)" if "n < 16" for n
    using that by (simp add: hex_digit_def)
  have "(of_char c :: nat) div 16 < 16" using of_char_less [of c] by (simp add: div_bounds)
  then show ?thesis by (auto simp: enc_char_def Let_def hex)
qed

lemma printable_enc_string [simp]: "printable (enc_string s)"
  by (induction s) (auto simp: enc_string_def)

lemma printable_join: "(\<And>x. x \<in> set xs \<Longrightarrow> printable x) \<Longrightarrow> printable (join_with (CHR '','') xs)"
  by (induction "CHR '',''" xs rule: join_with.induct) auto

lemma printable_enc_list: "(\<And>x. printable (enc x)) \<Longrightarrow> printable (enc_list enc xs)"
  by (auto simp: enc_list_def intro!: printable_join)

lemma printable_enc_chunk [simp]: "printable (enc_chunk c)"
  by (simp add: enc_chunk_def enc_u64_def enc_u32_def enc_checksum_def printable_enc_list)

lemma printable_enc_meta [simp]: "printable (enc_meta m)"
  by (simp add: enc_meta_def enc_u64_def enc_time_def printable_enc_list)

lemma printable_marshal [simp]: "printable (json_marshal r)"
  by (simp add: json_marshal_def enc_record_def split: option.splits)

lemma marshal_not_Nil [simp]: "json_marshal r \<noteq> []"
  by (simp add: json_marshal_def enc_record_def)

lemma marshal_last: "last (json_marshal r) \<noteq> cr"
  using printable_no_ctrl [of "json_marshal r"] last_in_set [of "json_marshal r"] by fastforce

end
