(* ===== verification/Wal.thy ===== *)
theory Wal
  imports WalCodec
begin

text \<open>
  The controller's state (\<open>dfs/controller/controller.go\<close>, lines 16 to 64) and its write-ahead log
  (\<open>wal.go\<close>): conversion to and from the log's structures, recovery at start-up, appending and
  compaction on the bytes of the file. The interface \<open>durable_log\<close> says what the controller relies
  on, and is interpreted on the log's byte format.
\<close>

section \<open>The controller's state\<close>

record nodeInfo =
  node_id :: string
  node_address :: string
  usedSpace :: u64
  freeSpace :: u64
  requestsHandled :: u64
  lastHeartbeat :: time

record chunkInfo =
  chunkId :: u64
  chunk_nodes :: "string list"
  chunk_size :: u32
  chunk_checksum :: bytes

record fileMetadata =
  fm_name :: string
  fm_size :: u64
  fm_chunks :: "chunkInfo list"
  fm_createdAt :: time
  fm_leaseExpiry :: time

text \<open>
  \<open>walFile != nil\<close> is \<open>walOpen\<close>; \<open>walDisk\<close> is the content of the file at \<open>walPath\<close>. The mutexes have no
  counterpart: every definition of a handler is one run of it under the locks it takes.
\<close>

record controller =
  nodes :: "string \<rightharpoonup> nodeInfo"
  files :: "string \<rightharpoonup> fileMetadata"
  pendingFiles :: "string \<rightharpoonup> fileMetadata"
  pendingChunks :: "string \<rightharpoonup> u64"
  walOpen :: bool
  walDisk :: "string option"
  walCount :: int

definition newController :: "string option \<Rightarrow> controller" where
  "newController disk = \<lparr>nodes = Map.empty, files = Map.empty, pendingFiles = Map.empty,
     pendingChunks = Map.empty, walOpen = False, walDisk = disk, walCount = 0\<rparr>"

section \<open>Conversion\<close>

definition to_wal_chunk :: "chunkInfo \<Rightarrow> WalChunkInfo" where
  "to_wal_chunk c = \<lparr>wc_ChunkId = chunkId c, wc_Nodes = chunk_nodes c, wc_Size = chunk_size c,
     wc_Checksum = chunk_checksum c\<rparr>"

definition from_wal_chunk :: "WalChunkInfo \<Rightarrow> chunkInfo" where
  "from_wal_chunk w = \<lparr>chunkId = wc_ChunkId w, chunk_nodes = wc_Nodes w, chunk_size = wc_Size w,
     chunk_checksum = wc_Checksum w\<rparr>"

definition toWalFileMeta :: "fileMetadata option \<Rightarrow> WalFileMetadata option" where
  "toWalFileMeta p = (case p of None \<Rightarrow> None | Some m \<Rightarrow>
     Some \<lparr>wf_FileName = fm_name m, wf_Size = fm_size m, wf_Chunks = map to_wal_chunk (fm_chunks m),
       wf_CreatedAt = fm_createdAt m, wf_LeaseExpiry = fm_leaseExpiry m\<rparr>)"

definition fromWalFileMeta :: "WalFileMetadata option \<Rightarrow> fileMetadata option" where
  "fromWalFileMeta p = (case p of None \<Rightarrow> None | Some w \<Rightarrow>
     Some \<lparr>fm_name = wf_FileName w, fm_size = wf_Size w, fm_chunks = map from_wal_chunk (wf_Chunks w),
       fm_createdAt = wf_CreatedAt w, fm_leaseExpiry = wf_LeaseExpiry w\<rparr>)"

lemma from_to_wal_chunk [simp]: "from_wal_chunk (to_wal_chunk c) = c"
  by (simp add: from_wal_chunk_def to_wal_chunk_def)

lemma from_to_wal_meta [simp]: "fromWalFileMeta (toWalFileMeta p) = p"
  by (simp add: fromWalFileMeta_def toWalFileMeta_def comp_def split: option.splits)

section \<open>Recovery\<close>

definition wal_limit :: nat where
  "wal_limit = 10 * 1024 * 1024"

text \<open>
  One record of the log: \<open>PUT\<close> stores the metadata under the name inside it, \<open>DELETE\<close> removes the
  record's name, any other operation does nothing.
\<close>

definition apply_record :: "WalRecord \<Rightarrow> (string \<rightharpoonup> fileMetadata) \<Rightarrow> (string \<rightharpoonup> fileMetadata)" where
  "apply_record r fs =
     (if wr_Op r = ''PUT'' then
        (case wr_FileMeta r of None \<Rightarrow> fs
         | Some w \<Rightarrow> fs(wf_FileName w := fromWalFileMeta (Some w)))
      else if wr_Op r = ''DELETE'' then fs(wr_FileName r := None)
      else fs)"

fun recover_lines :: "string list \<Rightarrow> controller \<Rightarrow> controller" where
  "recover_lines [] c = c"
| "recover_lines (line # ls) c = (case json_unmarshal line of
      None \<Rightarrow> recover_lines ls c
    | Some r \<Rightarrow> recover_lines ls (c\<lparr>walCount := walCount c + 1, files := apply_record r (files c)\<rparr>))"

text \<open>A log file that exists but cannot be opened ends the process.\<close>

definition recoverWAL :: "bool \<Rightarrow> controller \<Rightarrow> controller result" where
  "recoverWAL readable c = (case walDisk c of
      None \<Rightarrow> Inr c
    | Some content \<Rightarrow>
        if readable then Inr (recover_lines (scan_lines wal_limit content) c) else Inl Fatal)"

definition initWAL :: "bool \<Rightarrow> controller \<Rightarrow> controller result" where
  "initWAL writable c =
     (if writable
      then Inr (c\<lparr>walOpen := True, walDisk := Some (case walDisk c of None \<Rightarrow> [] | Some s \<Rightarrow> s)\<rparr>)
      else Inl Fatal)"

text \<open>Start-up, as \<open>main\<close> does it.\<close>

definition start_controller :: "string option \<Rightarrow> controller result" where
  "start_controller disk = and_then (recoverWAL True (newController disk)) (initWAL True)"

section \<open>Appending and compaction\<close>

text \<open>
  What the file system does during one append: \<open>io_write\<close> is \<open>None\<close> for a full write and \<open>Some n\<close> for one
  that fails after \<open>n\<close> bytes; \<open>io_compact\<close> is the outcome of a compaction if one is due; \<open>io_range\<close> is
  the order in which that compaction visits \<open>c.files\<close>.
\<close>

datatype compact_io = TmpOpenFails | TmpWriteFails | RenameFails | ReopenFails | CompactDone

record wal_io =
  io_write :: "nat option"
  io_compact :: compact_io
  io_range :: "string list"

definition wal_record :: "string \<Rightarrow> string \<Rightarrow> fileMetadata option \<Rightarrow> WalRecord" where
  "wal_record op name p = \<lparr>wr_Op = op, wr_FileName = name, wr_FileMeta = toWalFileMeta p\<rparr>"

definition append_line :: "WalRecord \<Rightarrow> string \<Rightarrow> string" where
  "append_line r log = log @ json_marshal r @ [nl]"

definition disk_bytes :: "controller \<Rightarrow> string" where
  "disk_bytes c = (case walDisk c of None \<Rightarrow> [] | Some s \<Rightarrow> s)"

definition compact_records :: "string list \<Rightarrow> (string \<rightharpoonup> fileMetadata) \<Rightarrow> WalRecord list" where
  "compact_records ord fs =
     map (\<lambda>k. wal_record ''PUT'' (fm_name (the (fs k))) (fs k)) (range_keys ord fs)"

definition compactWAL :: "wal_io \<Rightarrow> controller \<Rightarrow> controller result" where
  "compactWAL io c = (case io_compact io of
      TmpOpenFails \<Rightarrow> Inr c
    | TmpWriteFails \<Rightarrow> Inr c
    | RenameFails \<Rightarrow> Inr c
    | ReopenFails \<Rightarrow> Inl Fatal
    | CompactDone \<Rightarrow>
        Inr (c\<lparr>walDisk := Some (fold append_line (compact_records (io_range io) (files c)) []),
               walCount := int (length (range_keys (io_range io) (files c)))\<rparr>))"

definition appendWalRecord ::
    "wal_io \<Rightarrow> string \<Rightarrow> string \<Rightarrow> fileMetadata option \<Rightarrow> controller \<Rightarrow> controller result" where
  "appendWalRecord io op name p c =
     (if \<not> walOpen c then Inr c
      else let data = json_marshal (wal_record op name p) @ [nl] in
        (case io_write io of
           Some n \<Rightarrow> Inr (c\<lparr>walDisk := Some (disk_bytes c @ take n data)\<rparr>)
         | None \<Rightarrow>
             let c1 = c\<lparr>walDisk := Some (disk_bytes c @ data), walCount := walCount c + 1\<rparr> in
             if walCount c1 \<ge> 1000 then compactWAL io c1 else Inr c1))"

section \<open>Interface: a durable log\<close>

text \<open>
  A log of records from which a restart computes a state: appending a record must have the effect of
  applying it to the state a restart would compute. \<open>fit\<close> marks the records the log can read back,
  \<open>wf\<close> the logs with no damaged line.
\<close>

locale durable_log =
  fixes empty :: 'l
    and append :: "'r \<Rightarrow> 'l \<Rightarrow> 'l"
    and replay :: "'l \<Rightarrow> 's"
    and apply_rec :: "'r \<Rightarrow> 's \<Rightarrow> 's"
    and init :: 's
    and fit :: "'r \<Rightarrow> bool"
    and wf :: "'l \<Rightarrow> bool"
  assumes wf_empty: "wf empty"
    and replay_empty: "replay empty = init"
    and wf_append: "wf l \<Longrightarrow> fit r \<Longrightarrow> wf (append r l)"
    and replay_append: "wf l \<Longrightarrow> fit r \<Longrightarrow> replay (append r l) = apply_rec r (replay l)"
begin

lemma wf_fold: "wf l \<Longrightarrow> list_all fit rs \<Longrightarrow> wf (fold append rs l)"
  by (induction rs arbitrary: l) (auto intro: wf_append)

lemma replay_fold:
  "wf l \<Longrightarrow> list_all fit rs \<Longrightarrow> replay (fold append rs l) = fold apply_rec rs (replay l)"
  by (induction rs arbitrary: l) (auto simp: replay_append wf_append)

lemma replay_records: "list_all fit rs \<Longrightarrow> replay (fold append rs empty) = fold apply_rec rs init"
  by (simp add: replay_fold wf_empty replay_empty)

end

text \<open>The controller's log, read the way \<open>recoverWAL\<close> reads it.\<close>

definition record_fits :: "WalRecord \<Rightarrow> bool" where
  "record_fits r \<longleftrightarrow> length (json_marshal r) < wal_limit"

definition wal_wf :: "string \<Rightarrow> bool" where
  "wal_wf log \<longleftrightarrow> (\<exists>rs. list_all record_fits rs \<and> log = write_lines json_marshal rs)"

definition wal_replay :: "string \<Rightarrow> (string \<rightharpoonup> fileMetadata)" where
  "wal_replay log = fold apply_record (read_lines json_unmarshal wal_limit log) Map.empty"

interpretation wal_lines: line_format json_marshal json_unmarshal record_fits wal_limit
proof unfold_locales
  fix r
  show "json_unmarshal (json_marshal r) = Some r" by (rule json_unmarshal_marshal)
  show "nl \<notin> set (json_marshal r)" using printable_no_ctrl by simp
  show "last (json_marshal r) \<noteq> cr" by (rule marshal_last)
  show "record_fits r \<Longrightarrow> length (json_marshal r) < wal_limit" by (simp add: record_fits_def)
qed

interpretation wal: durable_log "[]" append_line wal_replay apply_record Map.empty record_fits wal_wf
proof unfold_locales
  show "wal_wf []" by (auto simp: wal_wf_def intro!: exI [of _ "[]"])
  show "wal_replay [] = Map.empty"
    by (simp add: wal_replay_def read_lines_def scan_lines_def List.map_filter_def)
  fix l r assume l: "wal_wf l" and r: "record_fits r"
  then obtain rs where rs: "list_all record_fits rs" "l = write_lines json_marshal rs"
    by (auto simp: wal_wf_def)
  have app: "append_line r l = write_lines json_marshal (rs @ [r])"
    by (simp add: append_line_def rs)
  from rs r show "wal_wf (append_line r l)"
    unfolding app wal_wf_def by (intro exI [of _ "rs @ [r]"]) simp
  show "wal_replay (append_line r l) = apply_record r (wal_replay l)"
    using rs r wal_lines.read_write [of "rs @ [r]"] wal_lines.read_write [of rs]
    by (simp add: append_line_def wal_replay_def)
qed

lemma recover_lines_files:
  "files (recover_lines ls c) = fold apply_record (List.map_filter json_unmarshal ls) (files c)"
  by (induction ls arbitrary: c) (simp_all add: List.map_filter_def split: option.splits)

lemma recover_lines_frame:
  "nodes (recover_lines ls c) = nodes c" "pendingFiles (recover_lines ls c) = pendingFiles c"
  "pendingChunks (recover_lines ls c) = pendingChunks c" "walOpen (recover_lines ls c) = walOpen c"
  "walDisk (recover_lines ls c) = walDisk c"
  by (induction ls arbitrary: c) (auto split: option.splits)

lemma recover_lines_count:
  "walCount (recover_lines ls c) = walCount c + int (length (List.map_filter json_unmarshal ls))"
  by (induction ls arbitrary: c) (simp_all add: List.map_filter_def split: option.splits)

text \<open>What a restart reads from a disk.\<close>

definition disk_replay :: "string option \<Rightarrow> (string \<rightharpoonup> fileMetadata)" where
  "disk_replay d = (case d of None \<Rightarrow> Map.empty | Some s \<Rightarrow> wal_replay s)"

lemma start_controller_eq:
  "\<exists>c. start_controller disk = Inr c \<and> files c = disk_replay disk \<and> walOpen c \<and>
     walDisk c = Some (case disk of None \<Rightarrow> [] | Some s \<Rightarrow> s) \<and>
     nodes c = Map.empty \<and> pendingFiles c = Map.empty \<and> pendingChunks c = Map.empty"
  by (auto simp: start_controller_def recoverWAL_def initWAL_def newController_def disk_replay_def
      recover_lines_files recover_lines_frame wal_replay_def read_lines_def split: option.splits)

section \<open>What appending and compacting keep\<close>

lemma apply_put [simp]: "apply_record (wal_record ''PUT'' n (Some m)) fs = fs(fm_name m \<mapsto> m)"
  using from_to_wal_meta [of "Some m"]
  by (auto simp: apply_record_def wal_record_def toWalFileMeta_def split: option.splits)

lemma apply_delete [simp]: "apply_record (wal_record ''DELETE'' n p) fs = fs(n := None)"
  by (simp add: apply_record_def wal_record_def)

text \<open>Every stored metadata carries the name it is stored under.\<close>

definition names_ok :: "(string \<rightharpoonup> fileMetadata) \<Rightarrow> bool" where
  "names_ok fs \<longleftrightarrow> (\<forall>k m. fs k = Some m \<longrightarrow> fm_name m = k)"

definition file_fits :: "fileMetadata \<Rightarrow> bool" where
  "file_fits m \<longleftrightarrow> record_fits (wal_record ''PUT'' (fm_name m) (Some m))"

definition all_fit :: "(string \<rightharpoonup> fileMetadata) \<Rightarrow> bool" where
  "all_fit fs \<longleftrightarrow> (\<forall>k m. fs k = Some m \<longrightarrow> file_fits m)"

lemma fold_put:
  assumes "names_ok fs" "set ks \<subseteq> dom fs"
  shows "fold apply_record (map (\<lambda>k. wal_record ''PUT'' (fm_name (the (fs k))) (fs k)) ks) m0 =
    (\<lambda>k. if k \<in> set ks then fs k else m0 k)"
  using assms(2)
proof (induction ks arbitrary: m0)
  case (Cons k ks)
  then obtain m where m: "fs k = Some m" by auto
  with assms(1) have "fm_name m = k" by (simp add: names_ok_def)
  with Cons m show ?case by (auto simp: fun_eq_iff)
qed simp

lemma compact_replay:
  "names_ok fs \<Longrightarrow> covers ord fs \<Longrightarrow> fold apply_record (compact_records ord fs) Map.empty = fs"
  by (simp add: compact_records_def fold_put fun_eq_iff domIff)

lemma compact_fits: "all_fit fs \<Longrightarrow> list_all record_fits (compact_records ord fs)"
  by (auto simp: compact_records_def list_all_iff all_fit_def file_fits_def set_range_keys)

lemma compactWAL_frame [ctrl_simps]:
  assumes "compactWAL io c = Inr c'"
  shows "nodes c' = nodes c" "files c' = files c" "pendingFiles c' = pendingFiles c"
    "pendingChunks c' = pendingChunks c" "walOpen c' = walOpen c"
  using assms by (auto simp: compactWAL_def split: compact_io.splits)

lemma appendWalRecord_frame [ctrl_simps]:
  assumes "appendWalRecord io op n p c = Inr c'"
  shows "nodes c' = nodes c" "files c' = files c" "pendingFiles c' = pendingFiles c"
    "pendingChunks c' = pendingChunks c" "walOpen c' = walOpen c"
  using assms
  by (auto simp: appendWalRecord_def Let_def ctrl_simps split: if_splits option.splits)

text \<open>
  The log is in step with the memory: when it is open, it is undamaged and a restart would read
  back exactly \<open>c.files\<close>.
\<close>

definition wal_synced :: "controller \<Rightarrow> bool" where
  "wal_synced c \<longleftrightarrow> (walOpen c \<longrightarrow>
     (\<exists>log. walDisk c = Some log \<and> wal_wf log \<and> wal_replay log = files c))"

definition io_good :: "wal_io \<Rightarrow> (string \<rightharpoonup> fileMetadata) \<Rightarrow> bool" where
  "io_good io fs \<longleftrightarrow> io_write io = None \<and> covers (io_range io) fs"

lemma compactWAL_synced:
  assumes "compactWAL io c = Inr c'" "wal_synced c" "covers (io_range io) (files c)"
    "names_ok (files c)" "all_fit (files c)"
  shows "wal_synced c'"
proof (cases "io_compact io = CompactDone")
  case True
  let ?rs = "compact_records (io_range io) (files c)"
  have fits: "list_all record_fits ?rs" by (rule compact_fits) fact
  have "wal_wf (fold append_line ?rs [])" using wal.wf_fold [OF wal.wf_empty fits] .
  moreover have "wal_replay (fold append_line ?rs []) = files c"
    using wal.replay_records [OF fits] compact_replay [OF assms(4,3)] by simp
  ultimately show ?thesis using assms(1) True by (auto simp: compactWAL_def wal_synced_def)
qed (use assms in \<open>auto simp: compactWAL_def split: compact_io.splits\<close>)

lemma appendWalRecord_synced:
  assumes app: "appendWalRecord io op n p c = Inr c'"
    and log: "walOpen c \<Longrightarrow> walDisk c = Some log \<and> wal_wf log \<and>
        files c = apply_record (wal_record op n p) (wal_replay log)"
    and fit: "record_fits (wal_record op n p)" and io: "io_good io (files c)"
    and ok: "names_ok (files c)" "all_fit (files c)"
  shows "wal_synced c'"
proof (cases "walOpen c")
  case True
  define c1 where "c1 = c\<lparr>walDisk := Some (append_line (wal_record op n p) (disk_bytes c)),
    walCount := walCount c + 1\<rparr>"
  have "wal_synced c1"
    using log [OF True] wal.wf_append fit wal.replay_append
    by (simp add: wal_synced_def c1_def disk_bytes_def)
  moreover have "files c1 = files c" by (simp add: c1_def)
  moreover have "c' = c1 \<or> compactWAL io c1 = Inr c'"
    using app io True by (auto simp: appendWalRecord_def io_good_def Let_def c1_def append_line_def
        split: if_splits)
  ultimately show ?thesis using compactWAL_synced [of io c1 c'] io ok by (auto simp: io_good_def)
qed (use app in \<open>auto simp: appendWalRecord_def wal_synced_def\<close>)

lemma enc_time_length: "0 < length (enc_time t)"
  by (simp add: enc_time_def)

text \<open>A deletion's record is shorter than the record that stored the file.\<close>

lemma delete_fits: "file_fits m \<Longrightarrow> record_fits (wal_record ''DELETE'' (fm_name m) None)"
  by (simp add: file_fits_def record_fits_def wal_record_def json_marshal_def enc_record_def
      toWalFileMeta_def enc_string_def enc_char_def split: option.splits)

end
