(* ===== verification/DfsMessages.thy ===== *)
theory DfsMessages
  imports GoLib
begin

text \<open>
  The DFS protocol: the messages of \<open>dfs/proto/messages.proto\<close> as the Go code sees them, and the
  constructors \<open>Send...\<close> of \<open>dfs/messages/message_handler.go\<close>, each as the wrapper message it sends.
  A sub-message is a pointer in Go, so it is an option here: \<open>None\<close> is nil.
\<close>

section \<open>Messages\<close>

record Response =
  resp_ok :: bool
  resp_message :: string

record NodeInfo =
  ni_id :: string
  ni_address :: string
  ni_used_space :: u64
  ni_free_space :: u64
  ni_requests_handled :: u64

record FileInfo =
  fi_name :: string
  fi_size :: u64

record ChunkInfo =
  ci_id :: u64
  ci_file_name :: string
  ci_size :: u32
  ci_checksum :: bytes

record PutFileRequest =
  pf_metadata :: "FileInfo option"
  pf_chunk :: "ChunkInfo option"
  pf_num_chunks :: u64

record ChunkNodes =
  cn_metadata :: "ChunkInfo option"
  cn_nodes :: "NodeInfo list"

text \<open>\<open>ChunkAllocation\<close> and \<open>ChunkLocation\<close> have the same fields.\<close>

type_synonym ChunkAllocation = ChunkNodes
type_synonym ChunkLocation = ChunkNodes

record PutFileResponse =
  pfr_resp :: "Response option"
  pfr_allocations :: "ChunkAllocation list"

record GetFileResponse =
  gfr_resp :: "Response option"
  gfr_metadata :: "FileInfo option"
  gfr_locations :: "ChunkLocation list"

record ListFilesResponse =
  lfr_resp :: "Response option"
  lfr_files :: "FileInfo list"

record NodeInfoResponse =
  nir_resp :: "Response option"
  nir_total_used :: u64
  nir_total_free :: u64
  nir_node_stats :: "NodeInfo list"

record ChunkStatusReport =
  csr_metadata :: "ChunkInfo option"
  csr_success :: bool
  csr_node :: "NodeInfo option"

record ReplicaNodesRequest =
  rnr_chunk :: "ChunkInfo option"
  rnr_count :: u32

record ReplicaNodesResponse =
  rnp_resp :: "Response option"
  rnp_nodes :: "NodeInfo list"

record DispatchReplicaTask =
  drt_metadata :: "ChunkInfo option"
  drt_count :: u32

record StoreChunkRequest =
  scr_metadata :: "ChunkInfo option"
  scr_is_original :: bool

record RetrieveChunkResponse =
  rcr_resp :: "Response option"
  rcr_metadata :: "ChunkInfo option"

text \<open>The wrapper's \<open>oneof\<close>; \<open>Wrapper_Nil\<close> is a wrapper whose \<open>Msg\<close> is not set.\<close>

datatype wrapper =
    Wrapper_Nil
  | Wrapper_Response Response
  | Wrapper_DeleteFileReq "FileInfo option"
  | Wrapper_PutFileReq PutFileRequest
  | Wrapper_PutFileResp PutFileResponse
  | Wrapper_GetFileReq "FileInfo option"
  | Wrapper_GetFileResp GetFileResponse
  | Wrapper_ListFilesReq
  | Wrapper_ListFilesResp ListFilesResponse
  | Wrapper_LeaseRenewReq "FileInfo option"
  | Wrapper_StatsReq
  | Wrapper_StatsResp NodeInfoResponse
  | Wrapper_RegistrationReq "NodeInfo option"
  | Wrapper_Heartbeat "NodeInfo option"
  | Wrapper_ChunkStatusReport ChunkStatusReport
  | Wrapper_ReplicaNodesReq ReplicaNodesRequest
  | Wrapper_ReplicaNodesResp ReplicaNodesResponse
  | Wrapper_DispatchReplicaTask DispatchReplicaTask
  | Wrapper_StoreChunkReq StoreChunkRequest
  | Wrapper_RetrieveChunkReq "ChunkInfo option"
  | Wrapper_RetrieveChunkResp RetrieveChunkResponse

text \<open>Composite literals leave the fields they do not name at Go's zero values.\<close>

definition zero_NodeInfo :: NodeInfo where
  "zero_NodeInfo = \<lparr>ni_id = [], ni_address = [], ni_used_space = 0, ni_free_space = 0,
     ni_requests_handled = 0\<rparr>"

definition zero_FileInfo :: FileInfo where
  "zero_FileInfo = \<lparr>fi_name = [], fi_size = 0\<rparr>"

definition zero_ChunkInfo :: ChunkInfo where
  "zero_ChunkInfo = \<lparr>ci_id = 0, ci_file_name = [], ci_size = 0, ci_checksum = []\<rparr>"

section \<open>The convenience constructors\<close>

definition SendResponse :: "bool \<Rightarrow> string \<Rightarrow> wrapper" where
  "SendResponse ok msg = Wrapper_Response \<lparr>resp_ok = ok, resp_message = msg\<rparr>"

definition SendDeleteFileRequest :: "string \<Rightarrow> wrapper" where
  "SendDeleteFileRequest fileName = Wrapper_DeleteFileReq (Some (zero_FileInfo\<lparr>fi_name := fileName\<rparr>))"

definition SendPutFileRequest :: "string \<Rightarrow> u64 \<Rightarrow> u32 \<Rightarrow> u64 \<Rightarrow> wrapper" where
  "SendPutFileRequest fileName sz chunkSize numChunks =
     Wrapper_PutFileReq \<lparr>pf_metadata = Some \<lparr>fi_name = fileName, fi_size = sz\<rparr>,
       pf_chunk = Some (zero_ChunkInfo\<lparr>ci_size := chunkSize\<rparr>), pf_num_chunks = numChunks\<rparr>"

definition SendPutFileResponse :: "bool \<Rightarrow> string \<Rightarrow> ChunkAllocation list \<Rightarrow> wrapper" where
  "SendPutFileResponse ok msg allocations =
     Wrapper_PutFileResp \<lparr>pfr_resp = Some \<lparr>resp_ok = ok, resp_message = msg\<rparr>,
       pfr_allocations = allocations\<rparr>"

definition SendGetFileRequest :: "string \<Rightarrow> wrapper" where
  "SendGetFileRequest fileName = Wrapper_GetFileReq (Some (zero_FileInfo\<lparr>fi_name := fileName\<rparr>))"

definition SendGetFileResponse :: "bool \<Rightarrow> string \<Rightarrow> ChunkLocation list \<Rightarrow> u64 \<Rightarrow> wrapper" where
  "SendGetFileResponse ok msg locations sz =
     Wrapper_GetFileResp \<lparr>gfr_resp = Some \<lparr>resp_ok = ok, resp_message = msg\<rparr>,
       gfr_metadata = Some (zero_FileInfo\<lparr>fi_size := sz\<rparr>), gfr_locations = locations\<rparr>"

definition SendLeaseRenewRequest :: "string \<Rightarrow> wrapper" where
  "SendLeaseRenewRequest fileName = Wrapper_LeaseRenewReq (Some (zero_FileInfo\<lparr>fi_name := fileName\<rparr>))"

definition SendListFilesRequest :: wrapper where
  "SendListFilesRequest = Wrapper_ListFilesReq"

definition SendListFilesResponse :: "bool \<Rightarrow> string \<Rightarrow> FileInfo list \<Rightarrow> wrapper" where
  "SendListFilesResponse ok msg fs =
     Wrapper_ListFilesResp \<lparr>lfr_resp = Some \<lparr>resp_ok = ok, resp_message = msg\<rparr>, lfr_files = fs\<rparr>"

definition SendNodeInfoRequest :: wrapper where
  "SendNodeInfoRequest = Wrapper_StatsReq"

definition SendNodeInfoResponse :: "bool \<Rightarrow> string \<Rightarrow> u64 \<Rightarrow> u64 \<Rightarrow> NodeInfo list \<Rightarrow> wrapper" where
  "SendNodeInfoResponse ok msg totalUsed totalFree info =
     Wrapper_StatsResp \<lparr>nir_resp = Some \<lparr>resp_ok = ok, resp_message = msg\<rparr>,
       nir_total_used = totalUsed, nir_total_free = totalFree, nir_node_stats = info\<rparr>"

definition SendRegistrationRequest :: "string \<Rightarrow> string \<Rightarrow> wrapper" where
  "SendRegistrationRequest nodeId addr =
     Wrapper_RegistrationReq (Some (zero_NodeInfo\<lparr>ni_id := nodeId, ni_address := addr\<rparr>))"

definition SendHeartbeat :: "string \<Rightarrow> u64 \<Rightarrow> u64 \<Rightarrow> u64 \<Rightarrow> wrapper" where
  "SendHeartbeat nodeId used free reqs =
     Wrapper_Heartbeat (Some (zero_NodeInfo\<lparr>ni_id := nodeId, ni_used_space := used,
       ni_free_space := free, ni_requests_handled := reqs\<rparr>))"

definition SendChunkStatusReport :: "string \<Rightarrow> u64 \<Rightarrow> bool \<Rightarrow> string \<Rightarrow> wrapper" where
  "SendChunkStatusReport fileName cid success addr =
     Wrapper_ChunkStatusReport
       \<lparr>csr_metadata = Some (zero_ChunkInfo\<lparr>ci_id := cid, ci_file_name := fileName\<rparr>),
        csr_success = success, csr_node = Some (zero_NodeInfo\<lparr>ni_address := addr\<rparr>)\<rparr>"

definition SendReplicaNodesRequest :: "string \<Rightarrow> u64 \<Rightarrow> u32 \<Rightarrow> u32 \<Rightarrow> wrapper" where
  "SendReplicaNodesRequest fileName cid sz cnt =
     Wrapper_ReplicaNodesReq
       \<lparr>rnr_chunk = Some (zero_ChunkInfo\<lparr>ci_id := cid, ci_file_name := fileName, ci_size := sz\<rparr>),
        rnr_count = cnt\<rparr>"

definition SendReplicaNodesResponse :: "bool \<Rightarrow> string \<Rightarrow> NodeInfo list \<Rightarrow> wrapper" where
  "SendReplicaNodesResponse ok msg ns =
     Wrapper_ReplicaNodesResp \<lparr>rnp_resp = Some \<lparr>resp_ok = ok, resp_message = msg\<rparr>, rnp_nodes = ns\<rparr>"

definition SendDispatchReplicaTask :: "string \<Rightarrow> u64 \<Rightarrow> u32 \<Rightarrow> wrapper" where
  "SendDispatchReplicaTask fileName cid cnt =
     Wrapper_DispatchReplicaTask
       \<lparr>drt_metadata = Some (zero_ChunkInfo\<lparr>ci_id := cid, ci_file_name := fileName\<rparr>), drt_count = cnt\<rparr>"

definition SendStoreChunkRequest :: "string \<Rightarrow> u64 \<Rightarrow> u32 \<Rightarrow> bytes \<Rightarrow> bool \<Rightarrow> wrapper" where
  "SendStoreChunkRequest fileName cid sz checksum isOriginal =
     Wrapper_StoreChunkReq
       \<lparr>scr_metadata = Some \<lparr>ci_id = cid, ci_file_name = fileName, ci_size = sz, ci_checksum = checksum\<rparr>,
        scr_is_original = isOriginal\<rparr>"

definition SendRetrieveChunkRequest :: "string \<Rightarrow> u64 \<Rightarrow> wrapper" where
  "SendRetrieveChunkRequest fileName cid =
     Wrapper_RetrieveChunkReq (Some (zero_ChunkInfo\<lparr>ci_id := cid, ci_file_name := fileName\<rparr>))"

definition SendRetrieveChunkResponse :: "bool \<Rightarrow> string \<Rightarrow> u32 \<Rightarrow> bytes \<Rightarrow> wrapper" where
  "SendRetrieveChunkResponse ok msg sz checksum =
     Wrapper_RetrieveChunkResp
       \<lparr>rcr_resp = Some \<lparr>resp_ok = ok, resp_message = msg\<rparr>,
        rcr_metadata = Some (zero_ChunkInfo\<lparr>ci_size := sz, ci_checksum := checksum\<rparr>)\<rparr>"

text \<open>\<open>util.MapArrayAddressesToNodeInfo\<close>.\<close>

definition MapArrayAddressesToNodeInfo :: "string list \<Rightarrow> NodeInfo list" where
  "MapArrayAddressesToNodeInfo addresses = map (\<lambda>addr. zero_NodeInfo\<lparr>ni_address := addr\<rparr>) addresses"

lemma addresses_of_MapArray [simp]:
  "map ni_address (MapArrayAddressesToNodeInfo addresses) = addresses"
  by (simp add: MapArrayAddressesToNodeInfo_def comp_def)

section \<open>Getters of the wrapper\<close>

text \<open>The generated accessors return nil when another variant is set.\<close>

definition GetResponse :: "wrapper \<Rightarrow> Response option" where
  "GetResponse w = (case w of Wrapper_Response r \<Rightarrow> Some r | _ \<Rightarrow> None)"

definition GetPutFileResp :: "wrapper \<Rightarrow> PutFileResponse option" where
  "GetPutFileResp w = (case w of Wrapper_PutFileResp r \<Rightarrow> Some r | _ \<Rightarrow> None)"

definition GetGetFileResp :: "wrapper \<Rightarrow> GetFileResponse option" where
  "GetGetFileResp w = (case w of Wrapper_GetFileResp r \<Rightarrow> Some r | _ \<Rightarrow> None)"

definition GetReplicaNodesResp :: "wrapper \<Rightarrow> ReplicaNodesResponse option" where
  "GetReplicaNodesResp w = (case w of Wrapper_ReplicaNodesResp r \<Rightarrow> Some r | _ \<Rightarrow> None)"

definition GetRetrieveChunkResp :: "wrapper \<Rightarrow> RetrieveChunkResponse option" where
  "GetRetrieveChunkResp w = (case w of Wrapper_RetrieveChunkResp r \<Rightarrow> Some r | _ \<Rightarrow> None)"

end
