(* ===== verification/Controller.thy ===== *)
theory Controller
  imports Wal DfsMessages
begin

text \<open>
  The DFS controller (\<open>dfs/controller/controller.go\<close>): node registry, node selection, the file
  life cycle from PUT over chunk reports to the file table, lease expiry, deletion, replica
  maintenance, and the dispatch of incoming messages. Every handler takes the controller's state
  and returns the new state with what it sends: replies on the connection and messages to storage
  nodes. The clock, the order in which Go ranges over a map and the outcome of writes to the log
  are inputs.
\<close>

section \<open>Inputs and outputs\<close>

definition replicationFactor :: nat where
  "replicationFactor = 3"

datatype ctrl_out =
    Reply wrapper
  | ToNode string wrapper

type_synonym handled = "(controller \<times> ctrl_out list) result"

record ctrl_env =
  env_now :: time
  env_nodes :: "nat \<Rightarrow> string list"  \<comment> \<open>order of the n-th range over \<open>c.nodes\<close>\<close>
  env_files :: "string list"  \<comment> \<open>order of a range over \<open>c.files\<close>\<close>
  env_pending :: "string list"  \<comment> \<open>order of a range over \<open>c.pendingFiles\<close>\<close>
  env_io :: "nat \<Rightarrow> wal_io"  \<comment> \<open>outcome of the n-th append\<close>

section \<open>Node registry\<close>

definition registerNode :: "time \<Rightarrow> string \<Rightarrow> string \<Rightarrow> controller \<Rightarrow> controller" where
  "registerNode now nid addr c = c\<lparr>nodes := (nodes c)(nid \<mapsto>
     \<lparr>node_id = nid, node_address = addr, usedSpace = 0, freeSpace = 0, requestsHandled = 0,
      lastHeartbeat = now\<rparr>)\<rparr>"

definition updateHeartbeat :: "time \<Rightarrow> NodeInfo option \<Rightarrow> controller \<Rightarrow> handled" where
  "updateHeartbeat now hb c = and_then (deref hb) (\<lambda>nd.
     case nodes c (ni_id nd) of
       Some node \<Rightarrow> Inr (c\<lparr>nodes := (nodes c)(ni_id nd \<mapsto>
           node\<lparr>usedSpace := ni_used_space nd, freeSpace := ni_free_space nd,
                requestsHandled := ni_requests_handled nd, lastHeartbeat := now\<rparr>)\<rparr>,
         [Reply (SendResponse True ''Heartbeat acknowledged'')])
     | None \<Rightarrow> Inr (c, [Reply (SendResponse False ''Unknown node. Please re-register.'')]))"

text \<open>One sweep of \<open>monitorHeartbeats\<close>.\<close>

definition monitorHeartbeats :: "time \<Rightarrow> controller \<Rightarrow> controller" where
  "monitorHeartbeats now c = c\<lparr>nodes := (\<lambda>nid. case nodes c nid of
      None \<Rightarrow> None
    | Some node \<Rightarrow> if now - lastHeartbeat node > 15 * second then None else Some node)\<rparr>"

section \<open>Node selection\<close>

record nodeScore =
  score_id :: string
  score_used :: u64
  score_reqs :: u64

text \<open>
  The candidate pool: nodes in range order that are not excluded and have room, until the pool
  is full. The check for a full pool comes after the append.
\<close>

fun collect_candidates ::
    "nat \<Rightarrow> u32 \<Rightarrow> string list \<Rightarrow> (string \<rightharpoonup> nodeInfo) \<Rightarrow> string list \<Rightarrow> nodeScore list \<Rightarrow> nodeScore list" where
  "collect_candidates poolSize csz excl ns [] cs = cs"
| "collect_candidates poolSize csz excl ns (k # ks) cs = (case ns k of
      None \<Rightarrow> collect_candidates poolSize csz excl ns ks cs
    | Some info \<Rightarrow>
        if node_address info \<in> set excl then collect_candidates poolSize csz excl ns ks cs
        else if freeSpace info < ucast csz then collect_candidates poolSize csz excl ns ks cs
        else let cs' = cs @ [\<lparr>score_id = k, score_used = usedSpace info, score_reqs = requestsHandled info\<rparr>]
          in if length cs' \<ge> poolSize then cs' else collect_candidates poolSize csz excl ns ks cs')"

text \<open>
  \<open>slices.SortFunc\<close> with the comparison by used space, then active requests. Up to twelve
  elements Go runs an insertion sort, which keeps the order of equal scores.
\<close>

definition sort_scores :: "nodeScore list \<Rightarrow> nodeScore list" where
  "sort_scores = sort_key (\<lambda>s. (score_used s, score_reqs s))"

definition selectNodes :: "nat \<Rightarrow> u32 \<Rightarrow> string list \<Rightarrow> string list \<Rightarrow> controller \<Rightarrow> string list" where
  "selectNodes n csz excl ord c =
     (let candidates = sort_scores (collect_candidates (n * 2) csz excl (nodes c)
                         (range_keys ord (nodes c)) [])
      in map (\<lambda>s. node_address (the (nodes c (score_id s)))) (take n candidates))"

section \<open>PUT\<close>

text \<open>The allocation loop: it gives up at the first chunk without enough nodes.\<close>

fun allocate_chunks ::
    "(nat \<Rightarrow> string list) \<Rightarrow> u32 \<Rightarrow> controller \<Rightarrow> nat list \<Rightarrow> (ChunkAllocation \<times> chunkInfo) list option" where
  "allocate_chunks ords csz c [] = Some []"
| "allocate_chunks ords csz c (i # is) =
     (let targets = selectNodes replicationFactor csz [] (ords i) c in
      if length targets < replicationFactor then None
      else map_option (Cons
        (\<lparr>cn_metadata = Some (zero_ChunkInfo\<lparr>ci_id := word_of_nat i\<rparr>),
          cn_nodes = MapArrayAddressesToNodeInfo targets\<rparr>,
         \<lparr>chunkId = word_of_nat i, chunk_nodes = [], chunk_size = 0, chunk_checksum = []\<rparr>))
        (allocate_chunks ords csz c is))"

definition num_chunks :: "u64 \<Rightarrow> u64 \<Rightarrow> u32 \<Rightarrow> u64" where
  "num_chunks requested sz csz = (if requested = 0 then (sz + ucast csz - 1) div ucast csz else requested)"

definition handlePutFile :: "time \<Rightarrow> (nat \<Rightarrow> string list) \<Rightarrow> PutFileRequest \<Rightarrow> controller \<Rightarrow> handled" where
  "handlePutFile now ords req c = and_then (deref (pf_metadata req)) (\<lambda>md.
     let name = fi_name md; fail = (\<lambda>msg. [Reply (SendPutFileResponse False msg [])]) in
     if files c name \<noteq> None then Inr (c, fail ''File already exists'')
     else if pendingFiles c name \<noteq> None then Inr (c, fail ''File is currently being uploaded'')
     else and_then (deref (pf_chunk req)) (\<lambda>ch.
       if ci_size ch = 0 then Inr (c, fail ''Chunk size must be greater than zero'')
       else let numChunks = num_chunks (pf_num_chunks req) (fi_size md) (ci_size ch) in
         (case allocate_chunks ords (ci_size ch) c [0..<unat numChunks] of
            None \<Rightarrow> Inr (c, fail ''Insufficient nodes for replication'')
          | Some acs \<Rightarrow>
              Inr (c\<lparr>pendingFiles := (pendingFiles c)(name \<mapsto>
                       \<lparr>fm_name = name, fm_size = fi_size md, fm_chunks = map snd acs,
                        fm_createdAt = now, fm_leaseExpiry = now + 30 * second\<rparr>),
                     pendingChunks := (pendingChunks c)(name \<mapsto> numChunks)\<rparr>,
                [Reply (SendPutFileResponse True ''Allocation successful'' (map fst acs))]))))"

section \<open>GET and lease renewal\<close>

definition handleGetFile :: "FileInfo option \<Rightarrow> controller \<Rightarrow> handled" where
  "handleGetFile req c = and_then (deref req) (\<lambda>md.
     case files c (fi_name md) of
       None \<Rightarrow> Inr (c, [Reply (SendGetFileResponse False ''File not found'' [] 0)])
     | Some m \<Rightarrow> Inr (c, [Reply (SendGetFileResponse True ''File found''
         (map (\<lambda>ch. \<lparr>cn_metadata = Some (zero_ChunkInfo\<lparr>ci_id := chunkId ch, ci_size := chunk_size ch,
                          ci_checksum := chunk_checksum ch\<rparr>),
                      cn_nodes = MapArrayAddressesToNodeInfo (chunk_nodes ch)\<rparr>) (fm_chunks m))
         (fm_size m))]))"

definition handleLeaseRenew :: "time \<Rightarrow> FileInfo option \<Rightarrow> controller \<Rightarrow> handled" where
  "handleLeaseRenew now req c = and_then (deref req) (\<lambda>md.
     case pendingFiles c (fi_name md) of
       Some m \<Rightarrow> Inr (c\<lparr>pendingFiles := (pendingFiles c)(fi_name md \<mapsto> m\<lparr>fm_leaseExpiry := now + 60 * second\<rparr>)\<rparr>,
         [Reply (SendResponse True ''Lease renewed'')])
     | None \<Rightarrow> Inr (c, [Reply (SendResponse False ''File is not pending'')]))"

text \<open>The distinct addresses that hold a file's chunks, in order of first occurrence.\<close>

definition file_nodes :: "fileMetadata \<Rightarrow> string list" where
  "file_nodes m = unique_from {} (concat (map chunk_nodes (fm_chunks m)))"

definition delete_messages :: "string \<Rightarrow> fileMetadata \<Rightarrow> ctrl_out list" where
  "delete_messages name m = map (\<lambda>addr. ToNode addr (SendDeleteFileRequest name)) (file_nodes m)"

text \<open>One sweep of \<open>monitorLeases\<close>: expired uploads are dropped and their nodes told to delete.\<close>

definition expired_names :: "time \<Rightarrow> string list \<Rightarrow> controller \<Rightarrow> string list" where
  "expired_names now ord c =
     filter (\<lambda>k. fm_leaseExpiry (the (pendingFiles c k)) < now) (range_keys ord (pendingFiles c))"

definition monitorLeases :: "time \<Rightarrow> string list \<Rightarrow> controller \<Rightarrow> controller \<times> ctrl_out list" where
  "monitorLeases now ord c =
     (let expired = expired_names now ord c in
      (c\<lparr>pendingFiles := (\<lambda>k. if k \<in> set expired then None else pendingFiles c k),
         pendingChunks := (\<lambda>k. if k \<in> set expired then None else pendingChunks c k)\<rparr>,
       concat (map (\<lambda>k. let m = the (pendingFiles c k) in delete_messages (fm_name m) m) expired)))"

section \<open>Chunk status reports\<close>

definition is_chunk :: "u64 \<Rightarrow> chunkInfo \<Rightarrow> bool" where
  "is_chunk cid ch \<longleftrightarrow> chunkId ch = cid"

definition drop_node :: "string \<Rightarrow> chunkInfo \<Rightarrow> chunkInfo" where
  "drop_node addr ch = ch\<lparr>chunk_nodes := filter (\<lambda>a. a \<noteq> addr) (chunk_nodes ch)\<rparr>"

definition add_node :: "string \<Rightarrow> chunkInfo \<Rightarrow> chunkInfo" where
  "add_node addr ch = (if addr \<in> set (chunk_nodes ch) then ch
     else ch\<lparr>chunk_nodes := chunk_nodes ch @ [addr]\<rparr>)"

definition map_chunk :: "u64 \<Rightarrow> (chunkInfo \<Rightarrow> chunkInfo) \<Rightarrow> fileMetadata \<Rightarrow> fileMetadata" where
  "map_chunk cid f m = m\<lparr>fm_chunks := update_first (is_chunk cid) f (fm_chunks m)\<rparr>"

text \<open>A failure report removes the node from the chunk, in the file table and in the pending table.\<close>

definition report_failure :: "wal_io \<Rightarrow> string \<Rightarrow> u64 \<Rightarrow> string \<Rightarrow> controller \<Rightarrow> controller result" where
  "report_failure io name cid addr c =
     and_then
       (case files c name of
          Some m \<Rightarrow>
            (case find (is_chunk cid) (fm_chunks m) of
               Some _ \<Rightarrow> let m' = map_chunk cid (drop_node addr) m in
                 appendWalRecord io ''PUT'' name (Some m') (c\<lparr>files := (files c)(name \<mapsto> m')\<rparr>)
             | None \<Rightarrow> Inr c)
        | None \<Rightarrow> Inr c)
       (\<lambda>c. case pendingFiles c name of
          Some m \<Rightarrow> Inr (c\<lparr>pendingFiles := (pendingFiles c)(name \<mapsto> map_chunk cid (drop_node addr) m)\<rparr>)
        | None \<Rightarrow> Inr c)"

text \<open>The count of chunks still without a copy drops at a chunk's first copy; at zero the file is stored.\<close>

definition count_first_copy :: "wal_io \<Rightarrow> string \<Rightarrow> fileMetadata \<Rightarrow> controller \<Rightarrow> controller result" where
  "count_first_copy io name m c =
     (let left = (case pendingChunks c name of None \<Rightarrow> 0 | Some n \<Rightarrow> n) - 1;
          c1 = c\<lparr>pendingChunks := (pendingChunks c)(name \<mapsto> left)\<rparr>
      in if left = 0 then
           and_then (appendWalRecord io ''PUT'' name (Some m) (c1\<lparr>files := (files c1)(name \<mapsto> m)\<rparr>))
             (\<lambda>c2. Inr (c2\<lparr>pendingFiles := (pendingFiles c2)(name := None),
                          pendingChunks := (pendingChunks c2)(name := None)\<rparr>))
         else Inr c1)"

definition report_success :: "wal_io \<Rightarrow> string \<Rightarrow> u64 \<Rightarrow> string \<Rightarrow> controller \<Rightarrow> controller result" where
  "report_success io name cid addr c =
     (case pendingFiles c name of
        Some m \<Rightarrow>
          (case find (is_chunk cid) (fm_chunks m) of
             None \<Rightarrow> Inr c
           | Some ch \<Rightarrow>
               let m' = map_chunk cid (add_node addr) m;
                   c1 = c\<lparr>pendingFiles := (pendingFiles c)(name \<mapsto> m')\<rparr>
               in if addr \<notin> set (chunk_nodes ch) \<and> chunk_nodes ch = []
                  then count_first_copy io name m' c1 else Inr c1)
      | None \<Rightarrow>
          (case files c name of
             None \<Rightarrow> Inr c
           | Some m \<Rightarrow>
               (case find (is_chunk cid) (fm_chunks m) of
                  None \<Rightarrow> Inr c
                | Some ch \<Rightarrow>
                    if addr \<notin> set (chunk_nodes ch) then
                      let m' = map_chunk cid (add_node addr) m in
                      appendWalRecord io ''PUT'' name (Some m') (c\<lparr>files := (files c)(name \<mapsto> m')\<rparr>)
                    else Inr c)))"

definition handleChunkStatusReport :: "wal_io \<Rightarrow> ChunkStatusReport \<Rightarrow> controller \<Rightarrow> handled" where
  "handleChunkStatusReport io req c =
     and_then (deref (csr_metadata req)) (\<lambda>md. and_then (deref (csr_node req)) (\<lambda>nd.
       and_then
         (if csr_success req then report_success io (ci_file_name md) (ci_id md) (ni_address nd) c
          else report_failure io (ci_file_name md) (ci_id md) (ni_address nd) c)
         (\<lambda>c'. Inr (c', []))))"

section \<open>Replica requests and deletion\<close>

definition handleReplicaNodes :: "string list \<Rightarrow> ReplicaNodesRequest \<Rightarrow> controller \<Rightarrow> handled" where
  "handleReplicaNodes ord req c = and_then (deref (rnr_chunk req)) (\<lambda>ch.
     let meta = (case files c (ci_file_name ch) of None \<Rightarrow> pendingFiles c (ci_file_name ch) | Some m \<Rightarrow> Some m);
         excluded = (case meta of None \<Rightarrow> [] | Some m \<Rightarrow>
           (case find (is_chunk (ci_id ch)) (fm_chunks m) of None \<Rightarrow> [] | Some k \<Rightarrow> chunk_nodes k));
         targets = selectNodes (unat (rnr_count req)) (ci_size ch) excluded ord c
     in Inr (c, [Reply (if targets \<noteq> []
          then SendReplicaNodesResponse True ''Nodes allocated'' (MapArrayAddressesToNodeInfo targets)
          else SendReplicaNodesResponse False ''Insufficient nodes'' [])]))"

text \<open>The acknowledgements of the nodes are awaited and ignored.\<close>

definition handleDeleteFile :: "wal_io \<Rightarrow> FileInfo option \<Rightarrow> controller \<Rightarrow> handled" where
  "handleDeleteFile io req c = and_then (deref req) (\<lambda>md.
     case files c (fi_name md) of
       None \<Rightarrow> Inr (c, [Reply (SendResponse False ''File not found'')])
     | Some m \<Rightarrow>
         and_then (appendWalRecord io ''DELETE'' (fi_name md) None (c\<lparr>files := (files c)(fi_name md := None)\<rparr>))
           (\<lambda>c'. Inr (c', delete_messages (fi_name md) m @
                      [Reply (SendResponse True ''File deleted successfully'')])))"

section \<open>Status queries\<close>

definition node_stat :: "nodeInfo \<Rightarrow> NodeInfo" where
  "node_stat n = zero_NodeInfo\<lparr>ni_id := node_id n, ni_used_space := usedSpace n,
     ni_free_space := freeSpace n, ni_requests_handled := requestsHandled n\<rparr>"

definition handleNodeStats :: "string list \<Rightarrow> controller \<Rightarrow> controller \<times> ctrl_out list" where
  "handleNodeStats ord c =
     (let infos = map (\<lambda>k. the (nodes c k)) (range_keys ord (nodes c)) in
      (c, [Reply (SendNodeInfoResponse True ''Node info retrieved''
        (sum_list (map usedSpace infos)) (sum_list (map freeSpace infos)) (map node_stat infos))]))"

definition handleListFiles :: "string list \<Rightarrow> controller \<Rightarrow> controller \<times> ctrl_out list" where
  "handleListFiles ord c =
     (c, [Reply (SendListFilesResponse True ''File list retrieved''
       (map (\<lambda>k. \<lparr>fi_name = k, fi_size = fm_size (the (files c k))\<rparr>) (range_keys ord (files c))))])"

section \<open>Replica maintenance\<close>

definition live_nodes :: "string list \<Rightarrow> chunkInfo \<Rightarrow> string list" where
  "live_nodes active ch = filter (\<lambda>a. a \<in> set active) (chunk_nodes ch)"

definition maintain_chunk :: "string list \<Rightarrow> chunkInfo \<Rightarrow> chunkInfo" where
  "maintain_chunk active ch =
     (if length (live_nodes active ch) \<noteq> length (chunk_nodes ch)
      then ch\<lparr>chunk_nodes := live_nodes active ch\<rparr> else ch)"

text \<open>A chunk with one or two live copies is replicated from the first of them.\<close>

definition dispatchReplication :: "string \<Rightarrow> string \<Rightarrow> u64 \<Rightarrow> u32 \<Rightarrow> ctrl_out" where
  "dispatchReplication src fname cid cnt = ToNode src (SendDispatchReplicaTask fname cid cnt)"

definition replication_task :: "string \<Rightarrow> chunkInfo \<Rightarrow> ctrl_out list" where
  "replication_task fname ch =
     (let aliveCount = length (chunk_nodes ch) in
      if 0 < aliveCount \<and> aliveCount < replicationFactor
      then [dispatchReplication (hd (chunk_nodes ch)) fname (chunkId ch)
              (word_of_nat (replicationFactor - aliveCount))]
      else [])"

definition maintain_file :: "string list \<Rightarrow> fileMetadata \<Rightarrow> fileMetadata" where
  "maintain_file active m = m\<lparr>fm_chunks := map (maintain_chunk active) (fm_chunks m)\<rparr>"

definition file_modified :: "string list \<Rightarrow> fileMetadata \<Rightarrow> bool" where
  "file_modified active m \<longleftrightarrow>
     (\<exists>ch \<in> set (fm_chunks m). length (live_nodes active ch) \<noteq> length (chunk_nodes ch))"

fun maintain_files ::
    "string list \<Rightarrow> (nat \<Rightarrow> wal_io) \<Rightarrow> nat \<Rightarrow> string list \<Rightarrow> controller \<Rightarrow> handled" where
  "maintain_files active ios i [] c = Inr (c, [])"
| "maintain_files active ios i (name # names) c = (case files c name of
      None \<Rightarrow> maintain_files active ios (Suc i) names c
    | Some m \<Rightarrow>
        let m' = maintain_file active m;
            c1 = c\<lparr>files := (files c)(name \<mapsto> m')\<rparr>;
            outs = concat (map (replication_task name) (fm_chunks m'))
        in and_then (if file_modified active m then appendWalRecord (ios i) ''PUT'' name (Some m') c1 else Inr c1)
             (\<lambda>c2. and_then (maintain_files active ios (Suc i) names c2)
               (\<lambda>(c3, outs'). Inr (c3, outs @ outs'))))"

definition active_addresses :: "string list \<Rightarrow> controller \<Rightarrow> string list" where
  "active_addresses ord c = map (\<lambda>k. node_address (the (nodes c k))) (range_keys ord (nodes c))"

definition processReplication ::
    "string list \<Rightarrow> string list \<Rightarrow> (nat \<Rightarrow> wal_io) \<Rightarrow> controller \<Rightarrow> handled" where
  "processReplication nord ford ios c =
     (let active = active_addresses nord c in
      if active = [] then Inr (c, [])
      else maintain_files active ios 0 (range_keys ford (files c)) c)"

section \<open>Dispatch\<close>

text \<open>One message received on a connection: the body of the loop in \<open>handleConnection\<close>.\<close>

fun handleConnection :: "ctrl_env \<Rightarrow> wrapper \<Rightarrow> controller \<Rightarrow> handled" where
  "handleConnection env (Wrapper_RegistrationReq node) c =
     and_then (deref node) (\<lambda>nd. Inr (registerNode (env_now env) (ni_id nd) (ni_address nd) c,
       [Reply (SendResponse True ''Registration successful'')]))"
| "handleConnection env (Wrapper_Heartbeat node) c = updateHeartbeat (env_now env) node c"
| "handleConnection env (Wrapper_PutFileReq req) c = handlePutFile (env_now env) (env_nodes env) req c"
| "handleConnection env (Wrapper_GetFileReq req) c = handleGetFile req c"
| "handleConnection env (Wrapper_LeaseRenewReq req) c = handleLeaseRenew (env_now env) req c"
| "handleConnection env (Wrapper_ChunkStatusReport req) c = handleChunkStatusReport (env_io env 0) req c"
| "handleConnection env (Wrapper_ReplicaNodesReq req) c = handleReplicaNodes (env_nodes env 0) req c"
| "handleConnection env (Wrapper_DeleteFileReq req) c = handleDeleteFile (env_io env 0) req c"
| "handleConnection env Wrapper_ListFilesReq c = Inr (handleListFiles (env_files env) c)"
| "handleConnection env Wrapper_StatsReq c = Inr (handleNodeStats (env_nodes env 0) c)"
| "handleConnection env _ c = Inr (c, [])"

text \<open>What can happen to a running controller: a message, or one round of a background loop.\<close>

datatype ctrl_event =
    Recv wrapper
  | HeartbeatTimer
  | LeaseTimer
  | MaintenanceTimer

fun ctrl_exec :: "ctrl_env \<Rightarrow> ctrl_event \<Rightarrow> controller \<Rightarrow> handled" where
  "ctrl_exec env (Recv w) c = handleConnection env w c"
| "ctrl_exec env HeartbeatTimer c = Inr (monitorHeartbeats (env_now env) c, [])"
| "ctrl_exec env LeaseTimer c = Inr (monitorLeases (env_now env) (env_pending env) c)"
| "ctrl_exec env MaintenanceTimer c =
     processReplication (env_nodes env 0) (env_files env) (env_io env) c"

end
