(* ===== verification/ControllerInv.thy ===== *)
theory ControllerInv
  imports Controller
begin

text \<open>
  The controller's well-formedness invariant, kept by every message and every background round,
  and its agreement with the write-ahead log over runs with crashes and restarts.
\<close>

section \<open>Well-formed metadata\<close>

text \<open>Chunk identifiers are 0, 1, 2, ... in order; a chunk lists a node at most once.\<close>

definition meta_ok :: "fileMetadata \<Rightarrow> bool" where
  "meta_ok m \<longleftrightarrow> map chunkId (fm_chunks m) = map word_of_nat [0..<length (fm_chunks m)] \<and>
     length (fm_chunks m) < 2 ^ 64 \<and> (\<forall>ch \<in> set (fm_chunks m). distinct (chunk_nodes ch))"

definition ctrl_inv :: "controller \<Rightarrow> bool" where
  "ctrl_inv c \<longleftrightarrow> names_ok (files c) \<and> names_ok (pendingFiles c) \<and>
     dom (files c) \<inter> dom (pendingFiles c) = {} \<and> dom (pendingChunks c) = dom (pendingFiles c) \<and>
     (\<forall>m \<in> ran (files c) \<union> ran (pendingFiles c). meta_ok m)"

lemma meta_ok_ids: "meta_ok m \<Longrightarrow> i < length (fm_chunks m) \<Longrightarrow> chunkId (fm_chunks m ! i) = word_of_nat i"
  unfolding meta_ok_def by (metis (no_types, lifting) add_0 diff_zero length_upt nth_map nth_upt)

lemma meta_ok_distinct_ids: "meta_ok m \<Longrightarrow> distinct (map chunkId (fm_chunks m))"
  by (auto simp: meta_ok_def distinct_map word_of_nat_inj64 inj_on_def)

lemma find_chunk_nth:
  assumes m: "meta_ok m" and i: "i < length (fm_chunks m)"
  shows "find (is_chunk (word_of_nat i)) (fm_chunks m) = Some (fm_chunks m ! i)"
proof -
  have "is_chunk (word_of_nat i) (fm_chunks m ! j) \<longleftrightarrow> j = i" if "j < length (fm_chunks m)" for j
    using m i that by (auto simp: is_chunk_def meta_ok_ids word_of_nat_inj64 meta_ok_def)
  with i show ?thesis by (auto simp: find_Some_iff intro!: exI [of _ i])
qed

lemma find_chunk_None:
  assumes m: "meta_ok m" and "find (is_chunk cid) (fm_chunks m) = None"
  shows "length (fm_chunks m) \<le> unat cid"
proof (rule ccontr)
  assume "\<not> ?thesis"
  then show False using find_chunk_nth [OF m, of "unat cid"] assms(2) by simp
qed

lemma map_chunk_name [simp]: "fm_name (map_chunk cid f m) = fm_name m"
  by (simp add: map_chunk_def)

lemma meta_ok_map_chunk:
  assumes "meta_ok m" "\<And>ch. chunkId (f ch) = chunkId ch"
    "\<And>ch. distinct (chunk_nodes ch) \<Longrightarrow> distinct (chunk_nodes (f ch))"
  shows "meta_ok (map_chunk cid f m)"
  using assms list_all_update_first [of "\<lambda>ch. distinct (chunk_nodes ch)" "fm_chunks m" "is_chunk cid" f]
  by (auto simp: meta_ok_def map_chunk_def map_update_first list_all_iff)

lemma meta_ok_drop [intro]: "meta_ok m \<Longrightarrow> meta_ok (map_chunk cid (drop_node addr) m)"
  by (rule meta_ok_map_chunk) (auto simp: drop_node_def)

lemma meta_ok_add [intro]: "meta_ok m \<Longrightarrow> meta_ok (map_chunk cid (add_node addr) m)"
  by (rule meta_ok_map_chunk) (auto simp: add_node_def)

lemma maintain_file_name [simp]: "fm_name (maintain_file active m) = fm_name m"
  by (simp add: maintain_file_def)

lemma meta_ok_maintain [intro]: "meta_ok m \<Longrightarrow> meta_ok (maintain_file active m)"
  by (auto simp: meta_ok_def maintain_file_def maintain_chunk_def live_nodes_def comp_def if_distrib
      cong: if_cong)

section \<open>Shapes of updates that keep the invariant\<close>

lemma ctrl_inv_cong:
  "files c' = files c \<Longrightarrow> pendingFiles c' = pendingFiles c \<Longrightarrow> pendingChunks c' = pendingChunks c \<Longrightarrow>
    ctrl_inv c' \<longleftrightarrow> ctrl_inv c"
  by (simp add: ctrl_inv_def)

lemma ctrl_inv_nodes [simp]: "ctrl_inv (c\<lparr>nodes := ns\<rparr>) \<longleftrightarrow> ctrl_inv c"
  by (simp add: ctrl_inv_def)

lemma ran_upd: "ran (f(k \<mapsto> v)) \<subseteq> insert v (ran f)"
  by (auto simp: ran_def)

lemma ran_del: "ran (f(k := None)) \<subseteq> ran f"
  by (auto simp: ran_def)

lemma ctrl_inv_file:
  assumes "ctrl_inv c" "files c n = Some m" "fm_name m' = fm_name m" "meta_ok m'"
  shows "ctrl_inv (c\<lparr>files := (files c)(n \<mapsto> m')\<rparr>)"
  using assms ran_upd [of "files c" n m'] unfolding ctrl_inv_def names_ok_def by (auto; blast?)

lemma ctrl_inv_pending:
  assumes "ctrl_inv c" "pendingFiles c n = Some m" "fm_name m' = fm_name m" "meta_ok m'"
  shows "ctrl_inv (c\<lparr>pendingFiles := (pendingFiles c)(n \<mapsto> m')\<rparr>)"
  using assms ran_upd [of "pendingFiles c" n m'] unfolding ctrl_inv_def names_ok_def by (auto; blast?)

lemma ctrl_inv_count:
  assumes "ctrl_inv c" "pendingFiles c n \<noteq> None"
  shows "ctrl_inv (c\<lparr>pendingChunks := (pendingChunks c)(n \<mapsto> x)\<rparr>)"
  using assms unfolding ctrl_inv_def by auto

lemma ctrl_inv_promote:
  assumes "ctrl_inv c" "pendingFiles c n = Some m"
  shows "ctrl_inv (c\<lparr>files := (files c)(n \<mapsto> m), pendingFiles := (pendingFiles c)(n := None),
    pendingChunks := (pendingChunks c)(n := None)\<rparr>)"
  using assms ran_upd [of "files c" n m] ran_del [of "pendingFiles c" n]
  unfolding ctrl_inv_def names_ok_def by (auto simp: ranI; blast?)

lemma ctrl_inv_remove:
  "ctrl_inv c \<Longrightarrow> ctrl_inv (c\<lparr>files := (files c)(n := None)\<rparr>)"
  using ran_del [of "files c" n] unfolding ctrl_inv_def names_ok_def by auto

section \<open>Preservation, operation by operation\<close>

lemma append_inv [simp]: "appendWalRecord io op n p c = Inr c' \<Longrightarrow> ctrl_inv c' \<longleftrightarrow> ctrl_inv c"
  by (rule ctrl_inv_cong) (simp_all add: ctrl_simps)

lemma updateHeartbeat_inv: "updateHeartbeat now hb c = Inr (c', outs) \<Longrightarrow> ctrl_inv c' \<longleftrightarrow> ctrl_inv c"
  by (auto simp: updateHeartbeat_def and_then_eq_Inr split: option.splits)

lemma allocate_chunks_metas:
  "allocate_chunks ords csz c is = Some acs \<Longrightarrow>
    map snd acs = map (\<lambda>i. \<lparr>chunkId = word_of_nat i, chunk_nodes = [], chunk_size = 0, chunk_checksum = []\<rparr>) is"
  by (induction "is" arbitrary: acs) (auto simp: Let_def split: if_splits)

text \<open>The metadata an accepted upload starts with.\<close>

definition new_upload :: "time \<Rightarrow> FileInfo \<Rightarrow> u64 \<Rightarrow> fileMetadata" where
  "new_upload now md n = \<lparr>fm_name = fi_name md, fm_size = fi_size md,
     fm_chunks = map (\<lambda>i. \<lparr>chunkId = word_of_nat i, chunk_nodes = [], chunk_size = 0, chunk_checksum = []\<rparr>)
       [0..<unat n], fm_createdAt = now, fm_leaseExpiry = now + 30 * second\<rparr>"

lemma meta_ok_new_upload [simp]: "meta_ok (new_upload now md n)"
  using unat_bound(1) [of n] by (auto simp: meta_ok_def new_upload_def comp_def)

lemma handlePutFile_cases:
  assumes "handlePutFile now ords req c = Inr (c', outs)"
  obtains (rejected) msg where "c' = c" "outs = [Reply (SendPutFileResponse False msg [])]"
  | (accepted) md ch acs n where "pf_metadata req = Some md" "pf_chunk req = Some ch" "ci_size ch \<noteq> 0"
      "files c (fi_name md) = None" "pendingFiles c (fi_name md) = None"
      "n = num_chunks (pf_num_chunks req) (fi_size md) (ci_size ch)"
      "allocate_chunks ords (ci_size ch) c [0..<unat n] = Some acs"
      "c' = c\<lparr>pendingFiles := (pendingFiles c)(fi_name md \<mapsto> new_upload now md n),
               pendingChunks := (pendingChunks c)(fi_name md \<mapsto> n)\<rparr>"
      "outs = [Reply (SendPutFileResponse True ''Allocation successful'' (map fst acs))]"
proof -
  from assms obtain md where md: "pf_metadata req = Some md"
    by (auto simp: handlePutFile_def and_then_eq_Inr)
  show ?thesis
  proof (cases "files c (fi_name md) = None \<and> pendingFiles c (fi_name md) = None")
    case False
    with assms md show ?thesis
      by (auto simp: handlePutFile_def Let_def split: if_splits intro!: rejected)
  next
    case free: True
    with assms md obtain ch where ch: "pf_chunk req = Some ch"
      by (auto simp: handlePutFile_def Let_def and_then_eq_Inr)
    define n where "n = num_chunks (pf_num_chunks req) (fi_size md) (ci_size ch)"
    show ?thesis
    proof (cases "ci_size ch = 0 \<or> allocate_chunks ords (ci_size ch) c [0..<unat n] = None")
      case True
      with assms md ch free show ?thesis
        by (auto simp: handlePutFile_def Let_def n_def split: if_splits intro!: rejected)
    next
      case False
      then obtain acs where acs: "allocate_chunks ords (ci_size ch) c [0..<unat n] = Some acs"
        and nz: "ci_size ch \<noteq> 0" by auto
      have c': "c' = c\<lparr>pendingFiles := (pendingFiles c)(fi_name md \<mapsto> new_upload now md n),
          pendingChunks := (pendingChunks c)(fi_name md \<mapsto> n)\<rparr>"
        and outs: "outs = [Reply (SendPutFileResponse True ''Allocation successful'' (map fst acs))]"
        using assms md ch free acs nz
        by (simp_all add: handlePutFile_def Let_def n_def new_upload_def allocate_chunks_metas)
      show ?thesis using accepted [OF md ch nz _ _ n_def acs c' outs] free by simp
    qed
  qed
qed

lemma handlePutFile_inv:
  assumes "handlePutFile now ords req c = Inr (c', outs)" "ctrl_inv c"
  shows "ctrl_inv c'"
  using assms(1)
proof (cases rule: handlePutFile_cases)
  case (accepted md ch acs n)
  then show ?thesis
    using assms(2) ran_upd [of "pendingFiles c" "fi_name md" "new_upload now md n"]
    by (auto simp: ctrl_inv_def names_ok_def new_upload_def [of now md n, symmetric]) (auto simp: new_upload_def)
qed (use assms in simp)

lemma handleGetFile_state: "handleGetFile req c = Inr (c', outs) \<Longrightarrow> c' = c"
  by (auto simp: handleGetFile_def and_then_eq_Inr split: option.splits)

lemma handleReplicaNodes_state: "handleReplicaNodes ord req c = Inr (c', outs) \<Longrightarrow> c' = c"
  by (auto simp: handleReplicaNodes_def and_then_eq_Inr Let_def)

lemma handleLeaseRenew_inv:
  "handleLeaseRenew now req c = Inr (c', outs) \<Longrightarrow> ctrl_inv c \<Longrightarrow> ctrl_inv c'"
  by (auto simp: handleLeaseRenew_def and_then_eq_Inr meta_ok_def split: option.splits
      intro!: ctrl_inv_pending) (auto simp: ctrl_inv_def meta_ok_def ran_def)

lemma monitorLeases_inv: "ctrl_inv c \<Longrightarrow> ctrl_inv (fst (monitorLeases now ord c))"
  unfolding ctrl_inv_def names_ok_def monitorLeases_def Let_def
  by (auto simp: ran_def dom_def set_eq_iff split: if_splits)

lemma report_failure_cases:
  assumes "report_failure io name cid addr c = Inr c'"
  obtains c1 where
    "(files c name = None \<or> (\<exists>m. files c name = Some m \<and> find (is_chunk cid) (fm_chunks m) = None)) \<and> c1 = c \<or>
     (\<exists>m. files c name = Some m \<and> find (is_chunk cid) (fm_chunks m) \<noteq> None \<and>
        appendWalRecord io ''PUT'' name (Some (map_chunk cid (drop_node addr) m))
          (c\<lparr>files := (files c)(name \<mapsto> map_chunk cid (drop_node addr) m)\<rparr>) = Inr c1)"
    "c' = (case pendingFiles c1 name of
        Some m \<Rightarrow> c1\<lparr>pendingFiles := (pendingFiles c1)(name \<mapsto> map_chunk cid (drop_node addr) m)\<rparr>
      | None \<Rightarrow> c1)"
  using assms
  by (auto simp: report_failure_def and_then_eq_Inr Let_def split: option.splits)

lemma report_failure_inv:
  assumes "report_failure io name cid addr c = Inr c'" "ctrl_inv c"
  shows "ctrl_inv c'"
  using assms(1)
proof (cases rule: report_failure_cases)
  case (1 c1)
  have files_ok: "meta_ok m" if "files c name = Some m" for m
    using assms(2) that by (auto simp: ctrl_inv_def ran_def)
  have c1: "ctrl_inv c1"
    using 1(1) assms(2) files_ok by (auto intro!: ctrl_inv_file)
  then have "meta_ok m" if "pendingFiles c1 name = Some m" for m
    using that by (auto simp: ctrl_inv_def ran_def)
  with 1(2) c1 show ?thesis by (auto split: option.splits intro!: ctrl_inv_pending)
qed

lemma count_first_copy_cases:
  assumes "count_first_copy io name m c = Inr c'"
  obtains (counted) left where "left = (case pendingChunks c name of None \<Rightarrow> 0 | Some n \<Rightarrow> n) - 1" "left \<noteq> 0"
      "c' = c\<lparr>pendingChunks := (pendingChunks c)(name \<mapsto> left)\<rparr>"
  | (promoted) c2 where "(case pendingChunks c name of None \<Rightarrow> 0 | Some n \<Rightarrow> n) = 1"
      "appendWalRecord io ''PUT'' name (Some m)
         (c\<lparr>pendingChunks := (pendingChunks c)(name \<mapsto> 0), files := (files c)(name \<mapsto> m)\<rparr>) = Inr c2"
      "c' = c2\<lparr>pendingFiles := (pendingFiles c2)(name := None), pendingChunks := (pendingChunks c2)(name := None)\<rparr>"
  using assms
  by (auto simp: count_first_copy_def and_then_eq_Inr Let_def split: if_splits option.splits)

lemma count_first_copy_inv:
  assumes "count_first_copy io name m c = Inr c'" "ctrl_inv c" "pendingFiles c name = Some m"
  shows "ctrl_inv c'"
  using assms(1)
proof (cases rule: count_first_copy_cases)
  case (counted left)
  with assms show ?thesis by (simp add: ctrl_inv_count)
next
  case (promoted c2)
  then show ?thesis
    using ctrl_inv_promote [OF assms(2,3)] appendWalRecord_frame [OF promoted(2)]
    by (subst ctrl_inv_cong) auto
qed

lemma report_success_pending_cases:
  assumes "report_success io name cid addr c = Inr c'" "pendingFiles c name = Some m"
  obtains (no_chunk) "find (is_chunk cid) (fm_chunks m) = None" "c' = c"
  | (more) ch where "find (is_chunk cid) (fm_chunks m) = Some ch"
      "addr \<in> set (chunk_nodes ch) \<or> chunk_nodes ch \<noteq> []"
      "c' = c\<lparr>pendingFiles := (pendingFiles c)(name \<mapsto> map_chunk cid (add_node addr) m)\<rparr>"
  | (first) ch where "find (is_chunk cid) (fm_chunks m) = Some ch" "chunk_nodes ch = []"
      "count_first_copy io name (map_chunk cid (add_node addr) m)
        (c\<lparr>pendingFiles := (pendingFiles c)(name \<mapsto> map_chunk cid (add_node addr) m)\<rparr>) = Inr c'"
proof (cases "find (is_chunk cid) (fm_chunks m)")
  case None
  with assms no_chunk show ?thesis by (simp add: report_success_def)
next
  case (Some ch)
  show ?thesis
  proof (cases "addr \<notin> set (chunk_nodes ch) \<and> chunk_nodes ch = []")
    case True
    with Some assms show ?thesis by (intro first [of ch]) (simp_all add: report_success_def Let_def)
  next
    case False
    with Some assms show ?thesis
      by (intro more [of ch]) (auto simp: report_success_def Let_def split: if_splits)
  qed
qed

lemma report_success_stored_cases:
  assumes "report_success io name cid addr c = Inr c'" "pendingFiles c name = None"
  obtains (unchanged) "c' = c"
  | (added) m ch where "files c name = Some m" "find (is_chunk cid) (fm_chunks m) = Some ch"
      "addr \<notin> set (chunk_nodes ch)"
      "appendWalRecord io ''PUT'' name (Some (map_chunk cid (add_node addr) m))
        (c\<lparr>files := (files c)(name \<mapsto> map_chunk cid (add_node addr) m)\<rparr>) = Inr c'"
  using assms that by (auto simp: report_success_def Let_def split: option.splits if_splits)

lemma report_success_inv:
  assumes "report_success io name cid addr c = Inr c'" "ctrl_inv c"
  shows "ctrl_inv c'"
proof (cases "pendingFiles c name")
  case (Some m)
  let ?c1 = "c\<lparr>pendingFiles := (pendingFiles c)(name \<mapsto> map_chunk cid (add_node addr) m)\<rparr>"
  have "meta_ok m" using assms(2) Some by (auto simp: ctrl_inv_def ran_def)
  then have c1: "ctrl_inv ?c1" using assms(2) Some by (auto intro!: ctrl_inv_pending)
  from assms(1) Some show ?thesis
    by (cases rule: report_success_pending_cases)
      (use assms(2) c1 in \<open>auto elim: count_first_copy_inv\<close>)
next
  case None
  have "meta_ok m" if "files c name = Some m" for m
    using assms(2) that by (auto simp: ctrl_inv_def ran_def)
  with assms(1) None show ?thesis
    by (cases rule: report_success_stored_cases) (use assms(2) in \<open>auto intro!: ctrl_inv_file\<close>)
qed

lemma handleChunkStatusReport_inv:
  "handleChunkStatusReport io req c = Inr (c', outs) \<Longrightarrow> ctrl_inv c \<Longrightarrow> ctrl_inv c'"
  by (auto simp: handleChunkStatusReport_def and_then_eq_Inr split: if_splits
      intro: report_success_inv report_failure_inv)

lemma handleDeleteFile_inv:
  "handleDeleteFile io req c = Inr (c', outs) \<Longrightarrow> ctrl_inv c \<Longrightarrow> ctrl_inv c'"
  by (auto simp: handleDeleteFile_def and_then_eq_Inr ctrl_inv_remove split: option.splits)

lemma maintain_files_inv:
  "maintain_files active ios i names c = Inr (c', outs) \<Longrightarrow> ctrl_inv c \<Longrightarrow> ctrl_inv c'"
proof (induction names arbitrary: i c outs)
  case (Cons name names)
  show ?case
  proof (cases "files c name")
    case None
    with Cons show ?thesis by simp
  next
    case (Some m)
    have "meta_ok m" using Cons.prems(2) Some by (auto simp: ctrl_inv_def ran_def)
    then have "ctrl_inv (c\<lparr>files := (files c)(name \<mapsto> maintain_file active m)\<rparr>)"
      using Cons.prems(2) Some by (auto intro!: ctrl_inv_file)
    with Cons Some show ?thesis
      by (auto simp: Let_def and_then_eq_Inr split: if_splits)
  qed
qed simp

lemma processReplication_inv:
  "processReplication nord ford ios c = Inr (c', outs) \<Longrightarrow> ctrl_inv c \<Longrightarrow> ctrl_inv c'"
  by (auto simp: processReplication_def Let_def intro: maintain_files_inv split: if_splits)

lemma handleConnection_inv:
  assumes "handleConnection env w c = Inr (c', outs)" "ctrl_inv c"
  shows "ctrl_inv c'"
  using assms
  by (cases w)
    (auto simp: and_then_eq_Inr registerNode_def handleListFiles_def handleNodeStats_def Let_def
      updateHeartbeat_inv dest!: handleGetFile_state handleReplicaNodes_state
      intro: handlePutFile_inv handleLeaseRenew_inv handleChunkStatusReport_inv handleDeleteFile_inv)

lemma ctrl_exec_inv:
  assumes "ctrl_exec env ev c = Inr (c', outs)" "ctrl_inv c"
  shows "ctrl_inv c'"
  using assms monitorLeases_inv [of c "env_now env" "env_pending env"]
  by (cases ev) (auto simp: monitorHeartbeats_def intro: handleConnection_inv processReplication_inv)

section \<open>The log stays in step\<close>

text \<open>
  A benign environment: every write to the log succeeds and a compaction visits every file. A
  compaction may still fail before its rename; then the old log simply stays.
\<close>

definition good_env :: "ctrl_env \<Rightarrow> controller \<Rightarrow> bool" where
  "good_env env c \<longleftrightarrow> (\<forall>i. io_write (env_io env i) = None \<and>
     dom (files c) \<union> dom (pendingFiles c) \<subseteq> set (io_range (env_io env i)))"

definition wal_inv :: "controller \<Rightarrow> bool" where
  "wal_inv c \<longleftrightarrow> ctrl_inv c \<and> wal_synced c \<and> all_fit (files c)"

lemma wal_synced_cong:
  "files c' = files c \<Longrightarrow> walOpen c' = walOpen c \<Longrightarrow> walDisk c' = walDisk c \<Longrightarrow> wal_synced c' \<longleftrightarrow> wal_synced c"
  by (simp add: wal_synced_def)

lemma all_fit_upd: "all_fit fs \<Longrightarrow> file_fits m \<Longrightarrow> all_fit (fs(n \<mapsto> m))"
  by (simp add: all_fit_def)

lemma all_fit_updD: "all_fit (fs(n \<mapsto> m)) \<Longrightarrow> file_fits m"
  unfolding all_fit_def by (metis fun_upd_same)

lemma all_fit_del: "all_fit fs \<Longrightarrow> all_fit (fs(n := None))"
  by (simp add: all_fit_def)

text \<open>Storing a file's new metadata in memory and then in the log.\<close>

lemma put_synced:
  assumes app: "appendWalRecord io ''PUT'' n (Some m) c1 = Inr c'"
    and c1: "files c1 = (files c)(n \<mapsto> m)" "walOpen c1 = walOpen c" "walDisk c1 = walDisk c"
    and inv: "wal_synced c" "all_fit (files c)" and m: "fm_name m = n" "file_fits m"
    and ok: "names_ok (files c1)" and io: "io_good io (files c1)"
  shows "wal_synced c'"
proof (cases "walOpen c")
  case True
  then obtain log where log: "walDisk c = Some log" "wal_wf log" "wal_replay log = files c"
    using inv(1) by (auto simp: wal_synced_def)
  show ?thesis
    by (rule appendWalRecord_synced [OF app _ _ io ok])
      (use log c1 inv m in \<open>auto simp: all_fit_upd file_fits_def\<close>)
next
  case False
  then have "walOpen c' = False" using appendWalRecord_frame(5) [OF app] c1(2) by simp
  then show ?thesis by (simp add: wal_synced_def)
qed

lemma delete_synced:
  assumes app: "appendWalRecord io ''DELETE'' n None (c\<lparr>files := (files c)(n := None)\<rparr>) = Inr c'"
    and inv: "wal_inv c" and m: "files c n = Some m" and io: "io_good io ((files c)(n := None))"
  shows "wal_synced c'"
proof (cases "walOpen c")
  case True
  then obtain log where log: "walDisk c = Some log" "wal_wf log" "wal_replay log = files c"
    using inv by (auto simp: wal_inv_def wal_synced_def)
  have "fm_name m = n" "file_fits m" "names_ok ((files c)(n := None))"
    using inv m by (auto simp: wal_inv_def ctrl_inv_def names_ok_def all_fit_def)
  then show ?thesis
    using inv log delete_fits [of m] io
    by (intro appendWalRecord_synced [OF app, of log]) (auto simp: wal_inv_def all_fit_del)
next
  case False
  then have "walOpen c' = False" using appendWalRecord_frame(5) [OF app] by simp
  then show ?thesis by (simp add: wal_synced_def)
qed

lemma good_env_io:
  "good_env env c \<Longrightarrow> dom fs \<subseteq> dom (files c) \<union> dom (pendingFiles c) \<Longrightarrow> io_good (env_io env i) fs"
  unfolding good_env_def io_good_def covers_def by blast

lemma ctrl_inv_names: "ctrl_inv c \<Longrightarrow> files c n = Some m \<Longrightarrow> fm_name m = n"
  "ctrl_inv c \<Longrightarrow> pendingFiles c n = Some m \<Longrightarrow> fm_name m = n"
  by (auto simp: ctrl_inv_def names_ok_def)

text \<open>Replacing one file's metadata by a new one under the same name, in memory and in the log.\<close>

lemma replace_file_synced:
  assumes app: "appendWalRecord (env_io env i) ''PUT'' n (Some m') (c\<lparr>files := (files c)(n \<mapsto> m')\<rparr>) = Inr c'"
    and inv: "wal_inv c" and env: "good_env env c" and m: "files c n = Some m" "fm_name m' = fm_name m"
    and fit: "all_fit (files c')"
  shows "wal_synced c'"
proof (rule put_synced [OF app])
  have "files c' = (files c)(n \<mapsto> m')" using appendWalRecord_frame(2) [OF app] by simp
  then show "file_fits m'" using fit by (auto intro: all_fit_updD)
  show "fm_name m' = n" using inv m ctrl_inv_names(1) [of c n m] by (simp add: wal_inv_def)
  with inv m show "names_ok (files (c\<lparr>files := (files c)(n \<mapsto> m')\<rparr>))"
    by (auto simp: wal_inv_def ctrl_inv_def names_ok_def)
  show "io_good (env_io env i) (files (c\<lparr>files := (files c)(n \<mapsto> m')\<rparr>))"
    using m by (intro good_env_io [OF env]) auto
qed (use inv in \<open>auto simp: wal_inv_def\<close>)

lemma report_failure_synced:
  assumes "report_failure (env_io env i) name cid addr c = Inr c'"
    and inv: "wal_inv c" and env: "good_env env c" and fit: "all_fit (files c')"
  shows "wal_synced c'"
  using assms(1)
proof (cases rule: report_failure_cases)
  case (1 c1)
  have same: "files c' = files c1" "walOpen c' = walOpen c1" "walDisk c' = walDisk c1"
    using 1(2) by (auto split: option.splits)
  with fit have fit1: "all_fit (files c1)" by simp
  have "wal_synced c1"
    using 1(1)
  proof (elim disjE)
    assume "(files c name = None \<or> (\<exists>m. files c name = Some m \<and> find (is_chunk cid) (fm_chunks m) = None)) \<and> c1 = c"
    then show ?thesis using inv by (simp add: wal_inv_def)
  qed (use replace_file_synced [OF _ inv env] fit1 in fastforce)
  with same wal_synced_cong [of c' c1] show ?thesis by simp
qed

lemma report_success_synced:
  assumes run: "report_success (env_io env i) name cid addr c = Inr c'"
    and inv: "wal_inv c" and env: "good_env env c" and fit: "all_fit (files c')"
  shows "wal_synced c'"
proof (cases "pendingFiles c name")
  case (Some m)
  let ?m = "map_chunk cid (add_node addr) m"
  let ?c1 = "c\<lparr>pendingFiles := (pendingFiles c)(name \<mapsto> ?m)\<rparr>"
  have c1: "wal_synced ?c1" using inv by (simp add: wal_inv_def wal_synced_def)
  have name: "fm_name ?m = name" using inv Some ctrl_inv_names(2) [of c name m] by (simp add: wal_inv_def)
  consider "c' = c" | "c' = ?c1" | "count_first_copy (env_io env i) name ?m ?c1 = Inr c'"
    using run Some by (cases rule: report_success_pending_cases) auto
  then show ?thesis
  proof cases
    case 3
    then show ?thesis
    proof (cases rule: count_first_copy_cases)
      case (counted left)
      then show ?thesis using c1 by (simp add: wal_synced_def)
    next
      case (promoted c2)
      have files: "files c2 = (files c)(name \<mapsto> ?m)" using appendWalRecord_frame(2) [OF promoted(2)] by simp
      then have "file_fits ?m" using fit promoted(3) by (auto intro: all_fit_updD)
      moreover have "io_good (env_io env i) ((files c)(name \<mapsto> ?m))"
        using Some by (intro good_env_io [OF env]) auto
      moreover have "names_ok ((files c)(name \<mapsto> ?m))"
        using inv name by (auto simp: wal_inv_def ctrl_inv_def names_ok_def)
      ultimately have "wal_synced c2"
        using put_synced [OF promoted(2), of c] inv name by (simp add: wal_inv_def)
      with promoted(3) show ?thesis by (simp add: wal_synced_def)
    qed
  qed (use inv c1 in \<open>auto simp: wal_inv_def\<close>)
next
  case None
  with run show ?thesis
  proof (cases rule: report_success_stored_cases)
    case (added m ch)
    then show ?thesis using replace_file_synced [OF added(4) inv env added(1)] fit by simp
  qed (use inv in \<open>simp add: wal_inv_def\<close>)
qed

text \<open>Maintenance rewrites every visited file to its live copies and touches nothing else.\<close>

lemma maintain_chunk_id: "length (live_nodes active ch) = length (chunk_nodes ch) \<Longrightarrow> maintain_chunk active ch = ch"
  by (simp add: maintain_chunk_def)

lemma maintain_file_id: "\<not> file_modified active m \<Longrightarrow> maintain_file active m = m"
proof -
  assume "\<not> file_modified active m"
  then have "map (maintain_chunk active) (fm_chunks m) = fm_chunks m"
    by (intro map_idI) (auto simp: file_modified_def maintain_chunk_id)
  then show ?thesis by (simp add: maintain_file_def)
qed

lemma maintain_files_frame:
  "maintain_files active ios i names c = Inr (c', outs) \<Longrightarrow> pendingFiles c' = pendingFiles c \<and>
    pendingChunks c' = pendingChunks c \<and> nodes c' = nodes c \<and> walOpen c' = walOpen c"
  by (induction names arbitrary: i c outs)
    (fastforce simp: Let_def and_then_eq_Inr ctrl_simps split: option.splits if_splits)+

lemma maintain_files_files:
  "maintain_files active ios i names c = Inr (c', outs) \<Longrightarrow> distinct names \<Longrightarrow>
    files c' = (\<lambda>k. if k \<in> set names then map_option (maintain_file active) (files c k) else files c k)"
proof (induction names arbitrary: i c outs)
  case (Cons name names)
  show ?case
  proof (cases "files c name")
    case None
    with Cons.prems show ?thesis by (auto simp: Cons.IH)
  next
    case (Some m)
    with Cons.prems obtain c2 outs2 where run: "maintain_files active ios (Suc i) names c2 = Inr (c', outs2)"
      and c2: "files c2 = (files c)(name \<mapsto> maintain_file active m)"
      by (auto simp: Let_def and_then_eq_Inr ctrl_simps split: if_splits)
    with Cons.prems Some Cons.IH [OF run] show ?thesis by (auto simp: fun_eq_iff)
  qed
qed auto

lemma maintain_files_synced:
  assumes "maintain_files active ios i names c = Inr (c', outs)" "distinct names" "wal_inv c"
    "\<And>j. io_good (ios j) (files c)" "all_fit (files c')"
  shows "wal_synced c'"
  using assms
proof (induction names arbitrary: i c outs)
  case (Cons name names)
  show ?case
  proof (cases "files c name")
    case None
    with Cons.prems show ?thesis by (auto intro: Cons.IH)
  next
    case (Some m)
    let ?m = "maintain_file active m"
    let ?c1 = "c\<lparr>files := (files c)(name \<mapsto> ?m)\<rparr>"
    from Some Cons.prems(1) obtain c2 outs2 where run: "maintain_files active ios (Suc i) names c2 = Inr (c', outs2)"
      and c2: "if file_modified active m then appendWalRecord (ios i) ''PUT'' name (Some ?m) ?c1 = Inr c2 else c2 = ?c1"
      by (auto simp: Let_def and_then_eq_Inr split: if_splits)
    have name: "fm_name m = name" and m_ok: "meta_ok m"
      using Cons.prems(3) Some by (auto simp: wal_inv_def ctrl_inv_def names_ok_def ran_def)
    have files2: "files c2 = (files c)(name \<mapsto> ?m)"
      using c2 by (auto simp: ctrl_simps split: if_splits)
    have "files c' name = Some ?m"
      using maintain_files_files [OF run] Cons.prems(2) files2 by simp
    then have fits: "file_fits ?m" using Cons.prems(5) by (auto simp: all_fit_def)
    have inv1: "ctrl_inv ?c1"
      using Cons.prems(3) Some m_ok by (auto simp: wal_inv_def intro!: ctrl_inv_file)
    have io1: "io_good (ios j) (files ?c1)" for j
      using Cons.prems(4) [of j] Some by (auto simp: io_good_def covers_def)
    have "wal_synced c2"
    proof (cases "file_modified active m")
      case True
      then have app: "appendWalRecord (ios i) ''PUT'' name (Some ?m) ?c1 = Inr c2" using c2 by simp
      show ?thesis
        by (rule put_synced [OF app, of c])
          (use Cons.prems(3) inv1 fits name io1 in \<open>auto simp: wal_inv_def ctrl_inv_def\<close>)
    next
      case False
      with c2 Some Cons.prems(3) show ?thesis
        by (simp add: maintain_file_id wal_inv_def wal_synced_def fun_upd_idem)
    qed
    moreover have "ctrl_inv c2" using c2 inv1 by (auto split: if_splits)
    moreover have "all_fit (files c2)"
      using Cons.prems(3) fits files2 by (simp add: wal_inv_def all_fit_upd)
    ultimately have inv2: "wal_inv c2" by (simp add: wal_inv_def)
    have io2: "io_good (ios j) (files c2)" for j using io1 [of j] files2 by simp
    show ?thesis
      by (rule Cons.IH [OF run _ inv2 io2 Cons.prems(5)]) (use Cons.prems(2) in simp)
  qed
qed (simp add: wal_inv_def)

text \<open>The handlers that leave the file table and the log alone.\<close>

definition quiet :: "controller \<Rightarrow> controller \<Rightarrow> bool" where
  "quiet c c' \<longleftrightarrow> files c' = files c \<and> walOpen c' = walOpen c \<and> walDisk c' = walDisk c"

lemma quiet_refl [simp]: "quiet c c"
  by (simp add: quiet_def)

lemma handlePutFile_quiet: "handlePutFile now ords req c = Inr (c', outs) \<Longrightarrow> quiet c c'"
  by (erule handlePutFile_cases) (simp_all add: quiet_def)

lemma handleLeaseRenew_quiet: "handleLeaseRenew now req c = Inr (c', outs) \<Longrightarrow> quiet c c'"
  by (auto simp: handleLeaseRenew_def and_then_eq_Inr quiet_def split: option.splits)

lemma updateHeartbeat_quiet: "updateHeartbeat now hb c = Inr (c', outs) \<Longrightarrow> quiet c c'"
  by (auto simp: updateHeartbeat_def and_then_eq_Inr quiet_def split: option.splits)

lemma registerNode_quiet [simp]: "quiet c (registerNode now nid addr c)"
  by (simp add: quiet_def registerNode_def)

lemma handleConnection_quiet:
  assumes "handleConnection env w c = Inr (c', outs)"
    and "\<And>req. w \<noteq> Wrapper_ChunkStatusReport req" "\<And>req. w \<noteq> Wrapper_DeleteFileReq req"
  shows "quiet c c'"
proof (cases w)
  case (Wrapper_PutFileReq req)
  with assms(1) show ?thesis by (auto dest: handlePutFile_quiet)
next
  case (Wrapper_GetFileReq req)
  with assms(1) show ?thesis by (auto dest: handleGetFile_state)
next
  case (Wrapper_LeaseRenewReq req)
  with assms(1) show ?thesis by (auto dest: handleLeaseRenew_quiet)
next
  case (Wrapper_Heartbeat node)
  with assms(1) show ?thesis by (auto dest: updateHeartbeat_quiet)
next
  case (Wrapper_ReplicaNodesReq req)
  with assms(1) show ?thesis by (auto dest: handleReplicaNodes_state)
qed (use assms in \<open>auto simp: and_then_eq_Inr handleListFiles_def handleNodeStats_def Let_def\<close>)

lemma handleConnection_synced:
  assumes run: "handleConnection env w c = Inr (c', outs)" and inv: "wal_inv c"
    and env: "good_env env c" and fit: "all_fit (files c')"
  shows "wal_synced c'"
proof -
  have synced: "wal_synced c" using inv by (simp add: wal_inv_def)
  consider (report) req where "w = Wrapper_ChunkStatusReport req" | (delete) req where "w = Wrapper_DeleteFileReq req"
    | (other) "quiet c c'"
    using handleConnection_quiet [OF run] by blast
  then show ?thesis
  proof cases
    case report
    with run fit report_success_synced [OF _ inv env] report_failure_synced [OF _ inv env] show ?thesis
      by (auto simp: handleChunkStatusReport_def and_then_eq_Inr split: if_splits)
  next
    case (delete req)
    with run obtain md where md: "req = Some md" by (auto simp: handleDeleteFile_def and_then_eq_Inr)
    show ?thesis
    proof (cases "files c (fi_name md)")
      case None
      with delete md run synced show ?thesis by (simp add: handleDeleteFile_def)
    next
      case (Some m)
      with delete md run have app: "appendWalRecord (env_io env 0) ''DELETE'' (fi_name md) None
          (c\<lparr>files := (files c)(fi_name md := None)\<rparr>) = Inr c'"
        by (auto simp: handleDeleteFile_def and_then_eq_Inr)
      show ?thesis
        by (rule delete_synced [OF app inv Some], rule good_env_io [OF env]) auto
    qed
  next
    case other
    with synced wal_synced_cong [of c' c] show ?thesis by (simp add: quiet_def)
  qed
qed

lemma ctrl_exec_synced:
  assumes run: "ctrl_exec env ev c = Inr (c', outs)" and inv: "wal_inv c"
    and env: "good_env env c" and fit: "all_fit (files c')"
  shows "wal_synced c'"
proof (cases ev)
  case (Recv w)
  with assms handleConnection_synced show ?thesis by simp
next
  case MaintenanceTimer
  show ?thesis
  proof (cases "active_addresses (env_nodes env 0) c = []")
    case True
    with run MaintenanceTimer inv show ?thesis by (simp add: processReplication_def wal_inv_def)
  next
    case False
    with run MaintenanceTimer show ?thesis
      by (auto simp: processReplication_def Let_def intro!: maintain_files_synced [OF _ _ inv _ fit]
          good_env_io [OF env])
  qed
qed (use run inv in \<open>auto simp: monitorHeartbeats_def monitorLeases_def Let_def wal_inv_def wal_synced_def\<close>)

lemma ctrl_exec_wal_inv:
  "ctrl_exec env ev c = Inr (c', outs) \<Longrightarrow> wal_inv c \<Longrightarrow> good_env env c \<Longrightarrow> all_fit (files c') \<Longrightarrow> wal_inv c'"
  using ctrl_exec_inv ctrl_exec_synced unfolding wal_inv_def by blast

section \<open>Runs with crashes and restarts\<close>

text \<open>
  A controller starts without a log, then handles events; it may crash between two events and be
  started again on the log it left behind. \<open>all_fit\<close> bounds the size of a file's record by the
  10 MiB the recovery can read.
\<close>

inductive reachable :: "controller \<Rightarrow> bool" where
  boot: "start_controller None = Inr c \<Longrightarrow> reachable c"
| event: "reachable c \<Longrightarrow> ctrl_exec env ev c = Inr (c', outs) \<Longrightarrow> good_env env c \<Longrightarrow> all_fit (files c') \<Longrightarrow>
    reachable c'"
| restart: "reachable c \<Longrightarrow> start_controller (walDisk c) = Inr c' \<Longrightarrow> reachable c'"

lemma report_open:
  "report_failure io name cid addr c = Inr c' \<Longrightarrow> walOpen c' = walOpen c"
  "report_success io name cid addr c = Inr c' \<Longrightarrow> walOpen c' = walOpen c"
proof -
  assume "report_failure io name cid addr c = Inr c'"
  then show "walOpen c' = walOpen c"
    by (cases rule: report_failure_cases) (auto simp: ctrl_simps split: option.splits)
next
  assume run: "report_success io name cid addr c = Inr c'"
  have first: "count_first_copy io name m d = Inr c' \<Longrightarrow> walOpen c' = walOpen d" for m d
    by (erule count_first_copy_cases) (auto simp: ctrl_simps)
  show "walOpen c' = walOpen c"
  proof (cases "pendingFiles c name")
    case None
    with run show ?thesis by (cases rule: report_success_stored_cases) (auto simp: ctrl_simps)
  next
    case (Some m)
    with run show ?thesis by (cases rule: report_success_pending_cases) (auto dest: first)
  qed
qed

lemma ctrl_exec_open:
  assumes run: "ctrl_exec env ev c = Inr (c', outs)"
  shows "walOpen c' = walOpen c"
proof (cases ev)
  case (Recv w)
  then show ?thesis
    using run handleConnection_quiet [of env w c c' outs] report_open
    by (cases w) (auto simp: quiet_def handleChunkStatusReport_def handleDeleteFile_def and_then_eq_Inr
        ctrl_simps split: option.splits if_splits)
next
  case MaintenanceTimer
  with run maintain_files_frame show ?thesis
    by (fastforce simp: processReplication_def Let_def split: if_splits)
qed (use run in \<open>auto simp: monitorHeartbeats_def monitorLeases_def Let_def\<close>)

lemma restart_files:
  assumes "wal_inv c" "walOpen c"
  obtains c' where "start_controller (walDisk c) = Inr c'" "files c' = files c"
    "pendingFiles c' = Map.empty" "pendingChunks c' = Map.empty" "nodes c' = Map.empty"
    "walOpen c'" "walDisk c' = walDisk c"
proof -
  obtain log where log: "walDisk c = Some log" "wal_wf log" "wal_replay log = files c"
    using assms by (auto simp: wal_inv_def wal_synced_def)
  then show ?thesis
    using that start_controller_eq [of "walDisk c"] by (auto simp: disk_replay_def)
qed

lemma reachable_wal_inv: "reachable c \<Longrightarrow> wal_inv c \<and> walOpen c"
proof (induction rule: reachable.induct)
  case (boot c)
  obtain c1 where "start_controller None = Inr c1" "files c1 = Map.empty" "walOpen c1"
    "walDisk c1 = Some []" "pendingFiles c1 = Map.empty" "pendingChunks c1 = Map.empty"
    using start_controller_eq [of None] by (auto simp: disk_replay_def)
  with boot wal.wf_empty wal.replay_empty show ?case
    by (simp add: wal_inv_def ctrl_inv_def names_ok_def all_fit_def wal_synced_def)
next
  case (event c env ev c' outs)
  then show ?case using ctrl_exec_wal_inv ctrl_exec_open by blast
next
  case (restart c c')
  then obtain c1 where "start_controller (walDisk c) = Inr c1" "files c1 = files c"
    "pendingFiles c1 = Map.empty" "pendingChunks c1 = Map.empty" "walOpen c1" "walDisk c1 = walDisk c"
    by (metis restart_files)
  with restart show ?case
    by (auto simp: wal_inv_def ctrl_inv_def wal_synced_def names_ok_def)
qed

text \<open>A run of events, for concrete runs.\<close>

fun ctrl_run :: "(ctrl_env \<times> ctrl_event) list \<Rightarrow> controller \<Rightarrow> handled" where
  "ctrl_run [] c = Inr (c, [])"
| "ctrl_run ((env, ev) # es) c = and_then (ctrl_exec env ev c) (\<lambda>(c1, o1).
     and_then (ctrl_run es c1) (\<lambda>(c2, o2). Inr (c2, o1 @ o2)))"

end
