(* ===== verification/Uploads.thy ===== *)
theory Uploads
  imports ControllerInv
begin

text \<open>
  Lemmas on uploads: the controller's counter of chunks still without a copy, the effect of a sequence
  of success reports, and the states a file name goes through.
\<close>

section \<open>The counter of missing copies\<close>

definition missing_copies :: "fileMetadata \<Rightarrow> nat" where
  "missing_copies m = length (filter (\<lambda>ch. chunk_nodes ch = []) (fm_chunks m))"

definition fully_copied :: "fileMetadata \<Rightarrow> bool" where
  "fully_copied m \<longleftrightarrow> (\<forall>ch \<in> set (fm_chunks m). chunk_nodes ch \<noteq> [])"

lemma fully_copied_missing: "fully_copied m \<longleftrightarrow> missing_copies m = 0"
  by (auto simp: fully_copied_def missing_copies_def filter_empty_conv)

text \<open>The counter is exact, and a pending file has either no chunk at all or one without a copy.\<close>

definition counted :: "controller \<Rightarrow> bool" where
  "counted c \<longleftrightarrow> (\<forall>n m. pendingFiles c n = Some m \<longrightarrow>
     pendingChunks c n = Some (word_of_nat (missing_copies m)) \<and> (fm_chunks m \<noteq> [] \<longrightarrow> 0 < missing_copies m))"

lemma find_map_chunk:
  assumes "find (is_chunk cid) (fm_chunks m) = Some ch"
  obtains ys zs where "fm_chunks m = ys @ ch # zs" "\<And>f. fm_chunks (map_chunk cid f m) = ys @ f ch # zs"
  using assms by (rule find_split) (auto simp: map_chunk_def)

lemma missing_first:
  assumes "find (is_chunk cid) (fm_chunks m) = Some ch" "chunk_nodes ch = []"
  shows "missing_copies m = Suc (missing_copies (map_chunk cid (add_node addr) m))"
  using assms(1) by (rule find_map_chunk) (use assms(2) in \<open>simp add: missing_copies_def add_node_def\<close>)

lemma missing_more:
  assumes "find (is_chunk cid) (fm_chunks m) = Some ch" "chunk_nodes ch \<noteq> []"
  shows "missing_copies (map_chunk cid (add_node addr) m) = missing_copies m"
  using assms(1) by (rule find_map_chunk) (use assms(2) in \<open>auto simp: missing_copies_def add_node_def\<close>)

lemma missing_bound: "meta_ok m \<Longrightarrow> missing_copies m < 2 ^ 64"
  unfolding meta_ok_def missing_copies_def by (meson le_less_trans length_filter_le)

lemma map_chunk_absent: "find (is_chunk cid) (fm_chunks m) = None \<Longrightarrow> map_chunk cid f m = m"
  by (simp add: map_chunk_def update_first_absent)

lemma map_chunk_known:
  "find (is_chunk cid) (fm_chunks m) = Some ch \<Longrightarrow> addr \<in> set (chunk_nodes ch) \<Longrightarrow>
    map_chunk cid (add_node addr) m = m"
  by (simp add: map_chunk_def update_first_id add_node_def)

lemma no_chunks_map [simp]: "fm_chunks (map_chunk cid f m) = [] \<longleftrightarrow> fm_chunks m = []"
  using length_update_first [of "is_chunk cid" f "fm_chunks m"] by (auto simp: map_chunk_def simp del: length_update_first)

section \<open>Writing to the log never stops the controller in a good environment\<close>

lemma appendWalRecord_runs:
  "io_compact io \<noteq> ReopenFails \<Longrightarrow> \<exists>c'. appendWalRecord io op n p c = Inr c'"
  by (auto simp: appendWalRecord_def compactWAL_def Let_def split: option.splits compact_io.splits)

text \<open>Rounding up a size of zero gives no chunk.\<close>

lemma num_chunks_zero:
  assumes "(csz :: u32) \<noteq> 0"
  shows "(ucast csz - 1) div (ucast csz :: u64) = 0"
proof -
  have "unat csz < 2 ^ 64" using unsigned_less [of csz, where ?'a = nat] by simp
  then have eq: "unat (ucast csz :: u64) = unat csz"
    by (simp add: unsigned_ucast_eq take_bit_nat_eq_self)
  have pos: "unat csz \<noteq> 0" using assms by (simp add: unat_eq_0)
  then have "(ucast csz :: u64) \<noteq> 0" using eq by auto
  then have "unat (ucast csz - 1 :: u64) < unat (ucast csz :: u64)" using eq pos by (simp add: unat_minus_one)
  then show ?thesis by (simp add: unat_div word_unat_eq_iff)
qed

section \<open>One success report\<close>

text \<open>The metadata of a name, wherever the controller keeps it.\<close>

definition current_meta :: "controller \<Rightarrow> string \<Rightarrow> fileMetadata option" where
  "current_meta c n = (case pendingFiles c n of Some m \<Rightarrow> Some m | None \<Rightarrow> files c n)"

text \<open>
  The abstract view of an upload: its metadata, pending while a chunk has no copy, stored from then on.
\<close>

definition upload_state :: "controller \<Rightarrow> string \<Rightarrow> fileMetadata \<Rightarrow> bool" where
  "upload_state c n m \<longleftrightarrow>
     (if fully_copied m then pendingFiles c n = None \<and> files c n = Some m
      else pendingFiles c n = Some m \<and> files c n = None \<and> pendingChunks c n = Some (word_of_nat (missing_copies m)))"

lemma report_success_upload:
  assumes run: "report_success io n cid addr c = Inr c'" and st: "upload_state c n m" and m: "meta_ok m"
  shows "upload_state c' n (map_chunk cid (add_node addr) m)"
proof (cases "fully_copied m")
  case True
  let ?m = "map_chunk cid (add_node addr) m"
  have copied: "fully_copied ?m"
    using True missing_more [of cid m _ addr] map_chunk_absent [of cid m "add_node addr"]
    by (cases "find (is_chunk cid) (fm_chunks m)")
      (auto simp: fully_copied_missing, auto simp: missing_copies_def filter_empty_conv find_Some_iff)
  have p: "pendingFiles c n = None" and f: "files c n = Some m" using st True by (auto simp: upload_state_def)
  have "c' = c \<and> ?m = m \<or>
      appendWalRecord io ''PUT'' n (Some ?m) (c\<lparr>files := (files c)(n \<mapsto> ?m)\<rparr>) = Inr c'"
  proof (cases "find (is_chunk cid) (fm_chunks m)")
    case None
    with run p f show ?thesis by (simp add: report_success_def map_chunk_absent)
  next
    case (Some ch)
    with run p f map_chunk_known [OF Some] show ?thesis
      by (auto simp: report_success_def Let_def split: if_splits)
  qed
  then show ?thesis using st copied p by (auto simp: upload_state_def ctrl_simps)
next
  case False
  then have p: "pendingFiles c n = Some m" "files c n = None" "pendingChunks c n = Some (word_of_nat (missing_copies m))"
    and miss: "0 < missing_copies m"
    using st by (auto simp: upload_state_def fully_copied_missing)
  from run p(1) show ?thesis
  proof (cases rule: report_success_pending_cases)
    case no_chunk
    with st show ?thesis by (simp add: map_chunk_absent)
  next
    case (more ch)
    then have "missing_copies (map_chunk cid (add_node addr) m) = missing_copies m"
      by (intro missing_more) auto
    with more p miss show ?thesis by (simp add: upload_state_def fully_copied_missing)
  next
    case (first ch)
    let ?m = "map_chunk cid (add_node addr) m"
    have count_m: "missing_copies m = Suc (missing_copies ?m)" using missing_first first(1,2) .
    from first(3) show ?thesis
    proof (cases rule: count_first_copy_cases)
      case (counted left)
      then have left: "left = word_of_nat (missing_copies ?m)" using p count_m by simp
      have "missing_copies ?m \<noteq> 0"
      proof
        assume "missing_copies ?m = 0"
        with left counted(2) show False by simp
      qed
      then have "\<not> fully_copied ?m" by (simp add: fully_copied_missing)
      with counted(3) left p show ?thesis by (simp add: upload_state_def)
    next
      case (promoted c2)
      have "(word_of_nat (missing_copies ?m) :: u64) = 0" using promoted(1) p count_m by simp
      moreover have "missing_copies ?m < 2 ^ 64" using missing_bound [OF m] count_m by simp
      ultimately have "missing_copies ?m = 0" using word_of_nat_inj64 [of "missing_copies ?m" 0] by simp
      with promoted appendWalRecord_frame [OF promoted(2)] show ?thesis
        by (simp add: upload_state_def fully_copied_missing)
    qed
  qed
qed

section \<open>A sequence of success reports\<close>

text \<open>The reports of an upload as the controller receives them: environment, chunk and node of each.\<close>

type_synonym report = "ctrl_env \<times> u64 \<times> string"

definition report_events :: "string \<Rightarrow> report list \<Rightarrow> (ctrl_env \<times> ctrl_event) list" where
  "report_events n rs = map (\<lambda>(env, i, a). (env, Recv (SendChunkStatusReport n i True a))) rs"

definition apply_reports :: "report list \<Rightarrow> fileMetadata \<Rightarrow> fileMetadata" where
  "apply_reports rs m = fold (\<lambda>(env, i, a). map_chunk i (add_node a)) rs m"

definition reported_nodes :: "report list \<Rightarrow> u64 \<Rightarrow> string list" where
  "reported_nodes rs i = map (\<lambda>(env, j, a). a) (filter (\<lambda>(env, j, a). j = i) rs)"

lemma exec_success_report:
  "ctrl_exec env (Recv (SendChunkStatusReport n i True a)) c = Inr (c', outs) \<Longrightarrow>
    report_success (env_io env 0) n i a c = Inr c'"
  by (auto simp: SendChunkStatusReport_def handleChunkStatusReport_def zero_ChunkInfo_def zero_NodeInfo_def
      and_then_eq_Inr)

lemma meta_ok_apply_reports: "meta_ok m \<Longrightarrow> meta_ok (apply_reports rs m)"
  unfolding apply_reports_def by (induction rs arbitrary: m) auto

lemma run_reports_upload:
  "ctrl_run (report_events n rs) c = Inr (c', outs) \<Longrightarrow> upload_state c n m \<Longrightarrow> meta_ok m \<Longrightarrow>
    upload_state c' n (apply_reports rs m)"
proof (induction rs arbitrary: c m outs)
  case (Cons r rs)
  obtain env i a where r: "r = (env, i, a)" by (cases r)
  with Cons.prems(1) obtain c1 o1 o2 where
    "ctrl_exec env (Recv (SendChunkStatusReport n i True a)) c = Inr (c1, o1)"
    and rest: "ctrl_run (report_events n rs) c1 = Inr (c', o2)"
    by (auto simp: report_events_def and_then_eq_Inr)
  then have "upload_state c1 n (map_chunk i (add_node a) m)"
    using exec_success_report report_success_upload Cons.prems(2,3) by blast
  then show ?case
    using Cons.IH [OF rest] Cons.prems(3) r by (simp add: apply_reports_def meta_ok_add)
qed (simp add: report_events_def apply_reports_def)

lemma nodes_fold_add:
  "chunk_nodes (fold add_node as ch) = chunk_nodes ch @ unique_from (set (chunk_nodes ch)) as"
proof (induction as arbitrary: ch)
  case (Cons a as)
  have "insert a (set (chunk_nodes ch)) = set (chunk_nodes ch)" if "a \<in> set (chunk_nodes ch)"
    using that by auto
  with Cons show ?case by (simp add: add_node_def)
qed simp

lemma map_chunk_nth:
  assumes m: "meta_ok m" and i: "i < length (fm_chunks m)"
  shows "fm_chunks (map_chunk cid f m) ! i =
    (if cid = word_of_nat i then f (fm_chunks m ! i) else fm_chunks m ! i)"
proof (cases "find (is_chunk cid) (fm_chunks m)")
  case None
  then have "cid \<noteq> word_of_nat i" using find_chunk_nth [OF m i] by auto
  with None show ?thesis by (simp add: map_chunk_absent)
next
  case (Some ch)
  then obtain ys zs where s: "fm_chunks m = ys @ ch # zs" and u: "\<And>f. fm_chunks (map_chunk cid f m) = ys @ f ch # zs"
    by (rule find_map_chunk) blast
  have "chunkId ch = cid" using Some by (auto simp: find_Some_iff is_chunk_def)
  then have cid: "cid = word_of_nat (length ys)" using meta_ok_ids [OF m, of "length ys"] s by simp
  have len: "length (fm_chunks m) < 2 ^ 64" using m by (simp add: meta_ok_def)
  then have "cid = word_of_nat i \<longleftrightarrow> length ys = i" unfolding cid using i s by (intro word_of_nat_inj64) auto
  with s u [of f] show ?thesis by (auto simp: nth_append nth_Cons')
qed

lemma apply_reports_length: "length (fm_chunks (apply_reports rs m)) = length (fm_chunks m)"
  unfolding apply_reports_def
  by (induction rs arbitrary: m) (auto simp: map_chunk_def)

lemma apply_reports_size: "fm_size (apply_reports rs m) = fm_size m"
  unfolding apply_reports_def
  by (induction rs arbitrary: m) (auto simp: map_chunk_def)

lemma apply_reports_nth:
  "meta_ok m \<Longrightarrow> i < length (fm_chunks m) \<Longrightarrow>
    fm_chunks (apply_reports rs m) ! i = fold add_node (reported_nodes rs (word_of_nat i)) (fm_chunks m ! i)"
proof (induction rs arbitrary: m)
  case (Cons r rs)
  obtain env j a where r: "r = (env, j, a)" by (cases r)
  have "apply_reports (r # rs) m = apply_reports rs (map_chunk j (add_node a) m)"
    by (simp add: apply_reports_def r)
  moreover have "i < length (fm_chunks (map_chunk j (add_node a) m))"
    using Cons.prems(2) by (simp add: map_chunk_def)
  ultimately show ?case
    using Cons.IH [of "map_chunk j (add_node a) m"] Cons.prems map_chunk_nth [OF Cons.prems, of j]
    by (auto simp: r reported_nodes_def meta_ok_add)
qed (simp add: apply_reports_def reported_nodes_def)

lemma apply_reports_copied:
  assumes "meta_ok m"
  shows "fully_copied (apply_reports rs m) \<longleftrightarrow>
    (\<forall>i < length (fm_chunks m). chunk_nodes (fm_chunks m ! i) \<noteq> [] \<or> reported_nodes rs (word_of_nat i) \<noteq> [])"
proof -
  have "unique_from {} as = [] \<longleftrightarrow> as = []" for as :: "string list"
    using set_unique_from [of "{}" as] by (cases as) auto
  then show ?thesis
    using assms by (auto simp: fully_copied_def all_set_conv_all_nth apply_reports_length apply_reports_nth
        nodes_fold_add)
qed

end
