(* ===== verification/Placement.thy ===== *)
theory Placement
  imports ControllerInv
begin

text \<open>
  Lemmas on node selection: what the candidate pool of \<open>selectNodes\<close> holds, what the selection keeps of
  it, and when the allocation of an upload succeeds.
\<close>

text \<open>A node may receive a chunk when its address is not excluded and the chunk fits its free space.\<close>

definition eligible :: "u32 \<Rightarrow> string list \<Rightarrow> controller \<Rightarrow> string \<Rightarrow> bool" where
  "eligible csz excl c k \<longleftrightarrow> (case nodes c k of None \<Rightarrow> False
     | Some info \<Rightarrow> node_address info \<notin> set excl \<and> ucast csz \<le> freeSpace info)"

definition node_score :: "controller \<Rightarrow> string \<Rightarrow> nodeScore" where
  "node_score c k = \<lparr>score_id = k, score_used = usedSpace (the (nodes c k)),
     score_reqs = requestsHandled (the (nodes c k))\<rparr>"

definition load :: "controller \<Rightarrow> string \<Rightarrow> u64 \<times> u64" where
  "load c k = (usedSpace (the (nodes c k)), requestsHandled (the (nodes c k)))"

definition address_of :: "controller \<Rightarrow> string \<Rightarrow> string" where
  "address_of c k = node_address (the (nodes c k))"

lemma collect_candidates_take:
  "length cs < pool \<Longrightarrow> collect_candidates pool csz excl (nodes c) ks cs =
    take pool (cs @ map (node_score c) (filter (eligible csz excl c) ks))"
proof (induction ks arbitrary: cs)
  case (Cons k ks)
  show ?case
  proof (cases "eligible csz excl c k")
    case True
    then obtain info where "nodes c k = Some info" "node_address info \<notin> set excl" "\<not> freeSpace info < ucast csz"
      by (auto simp: eligible_def split: option.splits)
    with True Cons show ?thesis
      by (auto simp: Let_def node_score_def dest!: less_imp_Suc_add)
  next
    case False
    with Cons show ?thesis by (auto simp: eligible_def not_less split: option.splits)
  qed
qed simp

text \<open>The nodes that are eligible, in the order the map was visited, and those of them that are looked at.\<close>

definition eligible_ids :: "u32 \<Rightarrow> string list \<Rightarrow> string list \<Rightarrow> controller \<Rightarrow> string list" where
  "eligible_ids csz excl ord c = filter (eligible csz excl c) (range_keys ord (nodes c))"

lemma set_eligible_ids: "covers ord (nodes c) \<Longrightarrow> set (eligible_ids csz excl ord c) = {k. eligible csz excl c k}"
  by (auto simp: eligible_ids_def eligible_def split: option.splits)

lemma length_eligible_ids:
  "covers ord (nodes c) \<Longrightarrow> length (eligible_ids csz excl ord c) = card {k. eligible csz excl c k}"
  using distinct_card [of "eligible_ids csz excl ord c"] set_eligible_ids
  by (simp add: eligible_ids_def)

lemma sort_scores_eq: "sort_scores (map (node_score c) ks) = map (node_score c) (sort_key (load c) ks)"
proof -
  have "insort_key (\<lambda>s. (score_used s, score_reqs s)) (node_score c k) (map (node_score c) xs) =
      map (node_score c) (insort_key (load c) k xs)" for k xs
    by (induction xs) (auto simp: node_score_def load_def)
  then have "sort_key (\<lambda>s. (score_used s, score_reqs s)) (map (node_score c) ks) =
      map (node_score c) (sort_key (load c) ks)"
    by (induction ks) (simp_all add: sort_key_simps)
  then show ?thesis by (simp add: sort_scores_def)
qed

lemma selectNodes_eq:
  "selectNodes n csz excl ord c =
    map (address_of c) (take n (sort_key (load c) (take (n * 2) (eligible_ids csz excl ord c))))"
proof (cases "n = 0")
  case False
  then show ?thesis
    by (simp add: selectNodes_def collect_candidates_take take_map sort_scores_eq eligible_ids_def
        address_of_def node_score_def Let_def)
qed (simp add: selectNodes_def Let_def)

lemma length_selectNodes:
  "covers ord (nodes c) \<Longrightarrow> length (selectNodes n csz excl ord c) = min n (card {k. eligible csz excl c k})"
  by (auto simp: selectNodes_eq min_def length_eligible_ids)

lemma set_selectNodes:
  assumes "a \<in> set (selectNodes n csz excl ord c)"
  obtains k info where "nodes c k = Some info" "a = node_address info" "a \<notin> set excl" "ucast csz \<le> freeSpace info"
proof -
  from assms obtain k where k: "k \<in> set (sort_key (load c) (take (n * 2) (eligible_ids csz excl ord c)))"
    and a: "a = address_of c k"
    unfolding selectNodes_eq by (auto dest: in_set_takeD)
  then have "eligible csz excl c k" by (auto simp: eligible_ids_def dest!: in_set_takeD)
  with a show ?thesis by (auto simp: eligible_def address_of_def split: option.splits intro!: that)
qed

text \<open>The allocation of an upload asks for the same number of nodes for every chunk.\<close>

lemma allocate_chunks_enough:
  assumes "\<And>i. covers (ords i) (nodes c)" "replicationFactor \<le> card {k. eligible csz [] c k}"
  shows "allocate_chunks ords csz c is = Some (map (\<lambda>i.
    (\<lparr>cn_metadata = Some (zero_ChunkInfo\<lparr>ci_id := word_of_nat i\<rparr>),
      cn_nodes = MapArrayAddressesToNodeInfo (selectNodes replicationFactor csz [] (ords i) c)\<rparr>,
     \<lparr>chunkId = word_of_nat i, chunk_nodes = [], chunk_size = 0, chunk_checksum = []\<rparr>)) is)"
  using assms by (induction "is") (simp_all add: Let_def length_selectNodes)

lemma allocate_chunks_short:
  assumes "covers (ords i) (nodes c)" "card {k. eligible csz [] c k} < replicationFactor"
  shows "allocate_chunks ords csz c (i # is) = None"
  using assms by (simp add: Let_def length_selectNodes)

end
