(* ===== verification/Lifecycle.thy ===== *)
theory Lifecycle
  imports Uploads Placement
begin

text \<open>
  The life cycle of a file name at the controller, as an automaton with the events that may cause each
  of its steps; and the exactness of the upload counters over runs without failure reports.
\<close>

section \<open>What one report touches\<close>

definition same_at :: "string \<Rightarrow> controller \<Rightarrow> controller \<Rightarrow> bool" where
  "same_at k c c' \<longleftrightarrow> files c' k = files c k \<and> pendingFiles c' k = pendingFiles c k \<and>
     pendingChunks c' k = pendingChunks c k"

lemma same_at_refl [simp]: "same_at k c c"
  by (simp add: same_at_def)

lemma report_failure_other: "report_failure io n cid addr c = Inr c' \<Longrightarrow> k \<noteq> n \<Longrightarrow> same_at k c c'"
  by (erule report_failure_cases) (auto simp: same_at_def ctrl_simps split: option.splits)

lemma count_first_copy_other: "count_first_copy io n m c = Inr c' \<Longrightarrow> k \<noteq> n \<Longrightarrow> same_at k c c'"
  by (erule count_first_copy_cases) (auto simp: same_at_def ctrl_simps)

lemma report_success_other:
  assumes run: "report_success io n cid addr c = Inr c'" and k: "k \<noteq> n"
  shows "same_at k c c'"
proof (cases "pendingFiles c n")
  case None
  with run show ?thesis
    by (cases rule: report_success_stored_cases) (use k in \<open>auto simp: same_at_def ctrl_simps\<close>)
next
  case (Some m)
  with run show ?thesis
    by (cases rule: report_success_pending_cases)
      (use k in \<open>auto simp: same_at_def dest: count_first_copy_other\<close>)
qed

section \<open>The automaton of a file name\<close>

datatype file_status = Absent | Uploading | Stored

definition file_status :: "controller \<Rightarrow> string \<Rightarrow> file_status" where
  "file_status c n = (if files c n \<noteq> None then Stored
     else if pendingFiles c n \<noteq> None then Uploading else Absent)"

text \<open>
  A PUT request opens an upload, a success report may complete it, the lease sweep may drop it once its
  lease has run out, and a DELETE request removes a stored file. Nothing else changes the status.
\<close>

inductive file_step :: "ctrl_env \<Rightarrow> ctrl_event \<Rightarrow> controller \<Rightarrow> string \<Rightarrow> file_status \<Rightarrow> file_status \<Rightarrow> bool" where
  stays: "file_step env ev c n s s"
| opens: "pf_metadata req = Some md \<Longrightarrow> fi_name md = n \<Longrightarrow>
    file_step env (Recv (Wrapper_PutFileReq req)) c n Absent Uploading"
| completes: "csr_success req \<Longrightarrow> csr_metadata req = Some md \<Longrightarrow> ci_file_name md = n \<Longrightarrow>
    file_step env (Recv (Wrapper_ChunkStatusReport req)) c n Uploading Stored"
| expires: "pendingFiles c n = Some m \<Longrightarrow> fm_leaseExpiry m < env_now env \<Longrightarrow>
    file_step env LeaseTimer c n Uploading Absent"
| deletes: "fi_name md = n \<Longrightarrow> file_step env (Recv (Wrapper_DeleteFileReq (Some md))) c n Stored Absent"

lemma status_cong:
  "files c' n = None \<longleftrightarrow> files c n = None \<Longrightarrow> pendingFiles c' n = None \<longleftrightarrow> pendingFiles c n = None \<Longrightarrow>
    file_status c' n = file_status c n"
  by (simp add: file_status_def)

lemma status_same: "same_at n c c' \<Longrightarrow> file_status c' n = file_status c n"
  by (simp add: same_at_def file_status_def)

lemma report_failure_status: "report_failure io n cid addr c = Inr c' \<Longrightarrow> file_status c' n = file_status c n"
  by (erule report_failure_cases) (auto intro!: status_cong simp: ctrl_simps split: option.splits)

lemma report_success_status:
  assumes run: "report_success io n cid addr c = Inr c'"
  shows "file_status c' n = file_status c n \<or> file_status c n = Uploading \<and> file_status c' n = Stored \<or>
    files c n \<noteq> None \<and> pendingFiles c n \<noteq> None"
proof (cases "pendingFiles c n")
  case None
  with run show ?thesis
    by (cases rule: report_success_stored_cases) (auto simp: file_status_def ctrl_simps)
next
  case (Some m)
  from run Some show ?thesis
  proof (cases rule: report_success_pending_cases)
    case (first ch)
    from first(3) show ?thesis
      by (cases rule: count_first_copy_cases) (use Some in \<open>auto simp: file_status_def ctrl_simps\<close>)
  qed (use Some in \<open>auto simp: file_status_def\<close>)
qed

lemma handlePutFile_step:
  assumes "handlePutFile now ords req c = Inr (c', outs)"
  shows "file_step env (Recv (Wrapper_PutFileReq req)) c n (file_status c n) (file_status c' n)"
  using assms
proof (cases rule: handlePutFile_cases)
  case (accepted md ch acs k)
  show ?thesis
  proof (cases "fi_name md = n")
    case True
    with accepted have "file_status c n = Absent" "file_status c' n = Uploading" by (auto simp: file_status_def)
    with accepted True show ?thesis by (auto intro: opens)
  next
    case False
    with accepted have "file_status c' n = file_status c n" by (auto intro!: status_cong)
    then show ?thesis by (simp add: stays)
  qed
qed (simp add: stays)

lemma handleChunkStatusReport_step:
  assumes run: "handleChunkStatusReport io req c = Inr (c', outs)" and inv: "ctrl_inv c"
  shows "file_step env (Recv (Wrapper_ChunkStatusReport req)) c n (file_status c n) (file_status c' n)"
proof -
  obtain md nd where req: "csr_metadata req = Some md" "csr_node req = Some nd"
    using run by (auto simp: handleChunkStatusReport_def and_then_eq_Inr)
  have excl: "files c n = None \<or> pendingFiles c n = None" using inv by (auto simp: ctrl_inv_def)
  show ?thesis
  proof (cases "csr_success req")
    case True
    with run req have r: "report_success io (ci_file_name md) (ci_id md) (ni_address nd) c = Inr c'"
      by (simp add: handleChunkStatusReport_def and_then_eq_Inr)
    show ?thesis
    proof (cases "ci_file_name md = n")
      case name: True
      have "file_status c' n = file_status c n \<or> file_status c n = Uploading \<and> file_status c' n = Stored"
        using report_success_status r name excl by blast
      then show ?thesis
      proof
        assume "file_status c n = Uploading \<and> file_status c' n = Stored"
        then show ?thesis by (simp add: completes [OF True req(1) name])
      qed (simp add: stays)
    next
      case False
      then have "file_status c' n = file_status c n"
        by (intro status_same report_success_other [OF r]) auto
      then show ?thesis by (simp add: stays)
    qed
  next
    case False
    with run req have "report_failure io (ci_file_name md) (ci_id md) (ni_address nd) c = Inr c'"
      by (simp add: handleChunkStatusReport_def and_then_eq_Inr)
    then have "file_status c' n = file_status c n"
      using report_failure_status report_failure_other [THEN status_same] by metis
    then show ?thesis by (simp add: stays)
  qed
qed

lemma handleDeleteFile_step:
  assumes "handleDeleteFile io req c = Inr (c', outs)" "ctrl_inv c"
  shows "file_step env (Recv (Wrapper_DeleteFileReq req)) c n (file_status c n) (file_status c' n)"
proof -
  obtain md where md: "req = Some md" using assms(1) by (auto simp: handleDeleteFile_def and_then_eq_Inr)
  show ?thesis
  proof (cases "fi_name md = n \<and> files c n \<noteq> None")
    case True
    then have "pendingFiles c n = None" using assms(2) by (auto simp: ctrl_inv_def)
    with True assms(1) md have "file_status c n = Stored" "file_status c' n = Absent"
      by (auto simp: file_status_def handleDeleteFile_def and_then_eq_Inr ctrl_simps)
    then show ?thesis using True md deletes by simp
  next
    case False
    then have "file_status c' n = file_status c n"
      using assms(1) md by (auto simp: handleDeleteFile_def and_then_eq_Inr ctrl_simps file_status_def split: option.splits if_splits)
    then show ?thesis by (simp add: stays)
  qed
qed

lemma stays_eq: "file_status c' n = file_status c n \<Longrightarrow> file_step env ev c n (file_status c n) (file_status c' n)"
  by (simp add: stays)

lemma handleConnection_step:
  assumes run: "handleConnection env w c = Inr (c', outs)" and inv: "ctrl_inv c"
  shows "file_step env (Recv w) c n (file_status c n) (file_status c' n)"
proof (cases w)
  case (Wrapper_PutFileReq req)
  with run handlePutFile_step show ?thesis by simp
next
  case (Wrapper_ChunkStatusReport req)
  with run inv handleChunkStatusReport_step show ?thesis by simp
next
  case (Wrapper_DeleteFileReq req)
  with run inv handleDeleteFile_step show ?thesis by simp
next
  case (Wrapper_GetFileReq req)
  with run show ?thesis by (auto dest!: handleGetFile_state intro: stays)
next
  case (Wrapper_ReplicaNodesReq req)
  with run show ?thesis by (auto dest!: handleReplicaNodes_state intro: stays)
qed (use run in \<open>auto intro!: stays_eq status_cong simp: and_then_eq_Inr registerNode_def updateHeartbeat_def
    handleLeaseRenew_def handleListFiles_def handleNodeStats_def Let_def split: option.splits if_splits\<close>)

lemma monitorLeases_step:
  "file_step env LeaseTimer c n (file_status c n) (file_status (fst (monitorLeases (env_now env) ord c)) n)"
proof (cases "n \<in> set (expired_names (env_now env) ord c) \<and> files c n = None")
  case True
  then obtain m where m: "pendingFiles c n = Some m" "fm_leaseExpiry m < env_now env"
    by (auto simp: expired_names_def set_range_keys)
  with True have "file_status c n = Uploading" "file_status (fst (monitorLeases (env_now env) ord c)) n = Absent"
    by (auto simp: file_status_def monitorLeases_def Let_def)
  then show ?thesis using expires [OF m] by simp
next
  case False
  then show ?thesis by (auto intro!: stays simp: file_status_def monitorLeases_def Let_def)
qed

lemma processReplication_status:
  assumes "processReplication nord ford ios c = Inr (c', outs)"
  shows "file_status c' n = file_status c n"
proof (cases "active_addresses nord c = []")
  case False
  with assms have run: "maintain_files (active_addresses nord c) ios 0 (range_keys ford (files c)) c = Inr (c', outs)"
    by (simp add: processReplication_def)
  show ?thesis using maintain_files_files [OF run] maintain_files_frame [OF run]
    by (auto intro!: status_cong split: if_splits)
qed (use assms in \<open>simp add: processReplication_def\<close>)

lemma ctrl_exec_step:
  assumes "ctrl_exec env ev c = Inr (c', outs)" "ctrl_inv c"
  shows "file_step env ev c n (file_status c n) (file_status c' n)"
proof (cases ev)
  case (Recv w)
  with assms handleConnection_step show ?thesis by simp
next
  case LeaseTimer
  with assms(1) monitorLeases_step [of env c n "env_pending env"] show ?thesis
    by (cases "monitorLeases (env_now env) (env_pending env) c") auto
next
  case MaintenanceTimer
  with assms(1) processReplication_status show ?thesis by (auto intro!: stays_eq)
next
  case HeartbeatTimer
  with assms(1) show ?thesis by (auto simp: monitorHeartbeats_def intro!: stays_eq status_cong)
qed

section \<open>The upload counters are exact without failure reports\<close>

definition is_failure :: "ctrl_event \<Rightarrow> bool" where
  "is_failure ev \<longleftrightarrow> (case ev of Recv (Wrapper_ChunkStatusReport req) \<Rightarrow> \<not> csr_success req | _ \<Rightarrow> False)"

text \<open>The counter of one upload is exact.\<close>

definition counted_at :: "controller \<Rightarrow> string \<Rightarrow> bool" where
  "counted_at c n \<longleftrightarrow> (\<forall>m. pendingFiles c n = Some m \<longrightarrow>
     pendingChunks c n = Some (word_of_nat (missing_copies m)) \<and> (fm_chunks m \<noteq> [] \<longrightarrow> 0 < missing_copies m))"

lemma counted_counted_at: "counted c \<longleftrightarrow> (\<forall>n. counted_at c n)"
  by (simp add: counted_def counted_at_def)

lemma counted_cong:
  "pendingFiles c' = pendingFiles c \<Longrightarrow> pendingChunks c' = pendingChunks c \<Longrightarrow> counted c' \<longleftrightarrow> counted c"
  by (simp add: counted_def)

lemma counted_upload:
  assumes "ctrl_inv c" "counted c" "pendingFiles c n = Some m" "fm_chunks m \<noteq> []"
  shows "upload_state c n m"
  using assms by (auto simp: upload_state_def counted_def fully_copied_missing ctrl_inv_def)

lemma upload_counted_at: "upload_state c n m \<Longrightarrow> counted_at c n"
  by (auto simp: upload_state_def counted_at_def fully_copied_missing split: if_splits)

lemma report_success_counted:
  assumes run: "report_success io n cid addr c = Inr c'" and inv: "ctrl_inv c" and counted: "counted c"
  shows "counted c' \<and> (\<forall>m. files c n = None \<longrightarrow> files c' n = Some m \<longrightarrow> fully_copied m)"
proof -
  have "counted_at c' n \<and> (\<forall>m. files c n = None \<longrightarrow> files c' n = Some m \<longrightarrow> fully_copied m)"
  proof (cases "\<exists>m. pendingFiles c n = Some m \<and> fm_chunks m \<noteq> []")
    case True
    then obtain m where m: "pendingFiles c n = Some m" "fm_chunks m \<noteq> []" by blast
    have "meta_ok m" using inv m by (auto simp: ctrl_inv_def ran_def)
    then have "upload_state c' n (map_chunk cid (add_node addr) m)"
      using report_success_upload run counted_upload [OF inv counted m] by blast
    then show ?thesis using upload_counted_at by (auto simp: upload_state_def split: if_splits)
  next
    case False
    then have "c' = c \<or> pendingFiles c n = None"
      using run by (cases "pendingFiles c n") (auto simp: report_success_def)
    moreover have "counted_at c' n" "files c n = None \<Longrightarrow> files c' n = None" if p: "pendingFiles c n = None"
      using run p by (cases rule: report_success_stored_cases; auto simp: counted_at_def ctrl_simps)+
    ultimately show ?thesis using counted by (auto simp: counted_counted_at)
  qed
  moreover have "counted_at c' k" if "k \<noteq> n" for k
    using report_success_other [OF run that] counted by (simp add: counted_def counted_at_def same_at_def)
  ultimately show ?thesis by (metis counted_counted_at)
qed

lemma missing_new_upload: "missing_copies (new_upload now md n) = unat n"
  by (simp add: missing_copies_def new_upload_def filter_map comp_def)

lemma handlePutFile_counted:
  assumes "handlePutFile now ords req c = Inr (c', outs)" "counted c"
  shows "counted c'"
  using assms(1)
proof (cases rule: handlePutFile_cases)
  case (accepted md ch acs n)
  then have "counted_at c' k" for k
    using assms(2) missing_new_upload [of now md n]
    by (auto simp: counted_def counted_at_def) (auto simp: new_upload_def)
  then show ?thesis by (simp add: counted_counted_at)
qed (use assms in simp)

lemma handleConnection_counted:
  assumes run: "handleConnection env w c = Inr (c', outs)" and inv: "ctrl_inv c" "counted c"
    and ok: "\<not> is_failure (Recv w)"
  shows "counted c'"
proof (cases w)
  case (Wrapper_PutFileReq req)
  with run inv handlePutFile_counted show ?thesis by simp
next
  case (Wrapper_ChunkStatusReport req)
  with run ok inv show ?thesis
    by (auto simp: is_failure_def handleChunkStatusReport_def and_then_eq_Inr dest: report_success_counted)
next
  case (Wrapper_LeaseRenewReq req)
  with run inv show ?thesis
    by (auto simp: handleLeaseRenew_def and_then_eq_Inr counted_def missing_copies_def split: option.splits if_splits)
next
  case (Wrapper_GetFileReq req)
  with run inv show ?thesis by (auto dest!: handleGetFile_state)
next
  case (Wrapper_ReplicaNodesReq req)
  with run inv show ?thesis by (auto dest!: handleReplicaNodes_state)
qed (use run inv in \<open>auto simp: and_then_eq_Inr registerNode_def updateHeartbeat_def handleDeleteFile_def
    handleListFiles_def handleNodeStats_def Let_def counted_def ctrl_simps split: option.splits if_splits\<close>)

lemma ctrl_exec_counted:
  assumes run: "ctrl_exec env ev c = Inr (c', outs)" and inv: "ctrl_inv c" "counted c" and ok: "\<not> is_failure ev"
  shows "counted c'"
proof (cases ev)
  case (Recv w)
  with assms handleConnection_counted show ?thesis by simp
next
  case LeaseTimer
  with run inv show ?thesis by (auto simp: monitorLeases_def Let_def counted_def split: if_splits)
next
  case MaintenanceTimer
  with run have "pendingFiles c' = pendingFiles c \<and> pendingChunks c' = pendingChunks c"
    by (auto simp: processReplication_def Let_def dest: maintain_files_frame split: if_splits)
  with inv counted_cong show ?thesis by blast
next
  case HeartbeatTimer
  with run inv show ?thesis by (auto simp: monitorHeartbeats_def counted_def)
qed

text \<open>Only a success report stores a file, and then every chunk has a copy.\<close>

lemma stored_is_copied:
  assumes run: "ctrl_exec env ev c = Inr (c', outs)" and inv: "ctrl_inv c" "counted c"
    and new: "files c n = None" "files c' n = Some m"
  shows "fully_copied m"
proof -
  have "file_status c' n = Stored" "file_status c n \<noteq> Stored" using new by (auto simp: file_status_def)
  with ctrl_exec_step [OF run inv(1), of n] obtain req md where ev: "ev = Recv (Wrapper_ChunkStatusReport req)"
    and ok: "csr_success req" "csr_metadata req = Some md" "ci_file_name md = n"
    by (auto elim: file_step.cases)
  obtain nd where "csr_node req = Some nd"
    using run ev ok by (auto simp: handleChunkStatusReport_def and_then_eq_Inr)
  with run ev ok have "report_success (env_io env 0) n (ci_id md) (ni_address nd) c = Inr c'"
    by (simp add: handleChunkStatusReport_def and_then_eq_Inr)
  then show ?thesis using report_success_counted inv new by blast
qed

lemma ctrl_run_counted:
  "ctrl_run es c = Inr (c', outs) \<Longrightarrow> ctrl_inv c \<Longrightarrow> counted c \<Longrightarrow> \<forall>e \<in> set es. \<not> is_failure (snd e) \<Longrightarrow>
    ctrl_inv c' \<and> counted c'"
proof (induction es arbitrary: c outs)
  case (Cons e es)
  then obtain c1 o1 o2 where step: "ctrl_exec (fst e) (snd e) c = Inr (c1, o1)" and rest: "ctrl_run es c1 = Inr (c', o2)"
    by (cases e) (auto simp: and_then_eq_Inr)
  have "ctrl_inv c1" "counted c1"
    using ctrl_exec_inv [OF step] ctrl_exec_counted [OF step] Cons.prems by auto
  then show ?case using Cons.IH [OF rest] Cons.prems(4) by simp
qed simp

end
