(* ===== verification/Rounds.thy ===== *)
theory Rounds
  imports Lifecycle
begin

text \<open>
  Lemmas on deletion, the lease and heartbeat sweeps, the maintenance round, damaged logs and
  malformed messages.
\<close>

section \<open>Maintenance\<close>

text \<open>The replication tasks of one file, after its locations were reduced to the active ones.\<close>

definition file_tasks :: "string list \<Rightarrow> string \<Rightarrow> fileMetadata \<Rightarrow> ctrl_out list" where
  "file_tasks active n m = concat (map (replication_task n) (fm_chunks (maintain_file active m)))"

lemma maintain_files_outs:
  "maintain_files active ios i names c = Inr (c', outs) \<Longrightarrow> distinct names \<Longrightarrow> set names \<subseteq> dom (files c) \<Longrightarrow>
    outs = concat (map (\<lambda>n. file_tasks active n (the (files c n))) names)"
proof (induction names arbitrary: i c outs)
  case (Cons name names)
  then obtain m where m: "files c name = Some m" by auto
  with Cons.prems obtain c2 outs2 where run: "maintain_files active ios (Suc i) names c2 = Inr (c', outs2)"
    and c2: "files c2 = (files c)(name \<mapsto> maintain_file active m)"
    and outs: "outs = file_tasks active name m @ outs2"
    by (auto simp: Let_def and_then_eq_Inr ctrl_simps file_tasks_def split: if_splits)
  have "outs2 = concat (map (\<lambda>n. file_tasks active n (the (files c2 n))) names)"
    by (rule Cons.IH [OF run]) (use Cons.prems c2 in auto)
  also have "map (\<lambda>n. file_tasks active n (the (files c2 n))) names =
      map (\<lambda>n. file_tasks active n (the (files c n))) names"
    by (rule map_cong [OF refl]) (use Cons.prems(2) c2 in auto)
  finally show ?case using outs m by simp
qed simp

lemma maintain_chunk_nodes [simp]: "chunk_nodes (maintain_chunk active ch) = live_nodes active ch"
  unfolding maintain_chunk_def live_nodes_def
  by (auto, metis filter_id_conv length_filter_less less_irrefl)

lemma maintain_chunk_id_kept [simp]: "chunkId (maintain_chunk active ch) = chunkId ch"
  by (simp add: maintain_chunk_def)

lemma processReplication_run:
  assumes run: "processReplication nord ford ios c = Inr (c', outs)"
    and cov: "covers nord (nodes c)" "covers ford (files c)" and some: "nodes c \<noteq> Map.empty"
  shows "files c' n = map_option (maintain_file (active_addresses nord c)) (files c n)"
    and "outs = concat (map (\<lambda>n. file_tasks (active_addresses nord c) n (the (files c n))) (range_keys ford (files c)))"
proof -
  let ?a = "active_addresses nord c"
  have "set (range_keys nord (nodes c)) \<noteq> {}" using cov(1) some by auto
  then have "?a \<noteq> []" by (auto simp: active_addresses_def)
  with run have m: "maintain_files ?a ios 0 (range_keys ford (files c)) c = Inr (c', outs)"
    by (simp add: processReplication_def)
  show "files c' n = map_option (maintain_file ?a) (files c n)"
    using maintain_files_files [OF m] cov(2) by (cases "files c n") auto
  show "outs = concat (map (\<lambda>n. file_tasks ?a n (the (files c n))) (range_keys ford (files c)))"
    using maintain_files_outs [OF m] cov(2) by simp
qed

lemma set_active_addresses:
  "covers nord (nodes c) \<Longrightarrow> set (active_addresses nord c) = {node_address info | info. info \<in> ran (nodes c)}"
  by (auto simp: active_addresses_def ran_def dom_def image_iff) (metis option.sel)

definition is_task :: "string \<Rightarrow> chunkInfo \<Rightarrow> ctrl_out \<Rightarrow> bool" where
  "is_task n ch out \<longleftrightarrow> chunk_nodes ch \<noteq> [] \<and> length (chunk_nodes ch) < replicationFactor \<and>
     out = dispatchReplication (hd (chunk_nodes ch)) n (chunkId ch) (word_of_nat (replicationFactor - length (chunk_nodes ch)))"

lemma set_file_tasks:
  "out \<in> set (file_tasks active n m) \<longleftrightarrow> (\<exists>ch \<in> set (fm_chunks (maintain_file active m)). is_task n ch out)"
  by (auto simp: file_tasks_def replication_task_def Let_def is_task_def)

section \<open>Sweeps\<close>

lemma set_file_nodes: "set (file_nodes m) = \<Union> (set ` chunk_nodes ` set (fm_chunks m))"
  by (simp add: file_nodes_def set_unique_from)

lemma distinct_file_nodes: "distinct (file_nodes m)"
  by (simp add: file_nodes_def distinct_unique_from)

lemma set_expired_names:
  "covers ord (pendingFiles c) \<Longrightarrow> k \<in> set (expired_names now ord c) \<longleftrightarrow>
    (\<exists>m. pendingFiles c k = Some m \<and> fm_leaseExpiry m < now)"
  by (auto simp: expired_names_def)

lemma set_delete_messages:
  "out \<in> set (delete_messages n m) \<longleftrightarrow> (\<exists>ch \<in> set (fm_chunks m). \<exists>a \<in> set (chunk_nodes ch).
     out = ToNode a (SendDeleteFileRequest n))"
  by (auto simp: delete_messages_def set_file_nodes)

lemma distinct_delete_messages: "distinct (delete_messages n m)"
  by (simp add: delete_messages_def distinct_map distinct_file_nodes inj_on_def)

section \<open>Damaged logs\<close>

text \<open>A line that is not a record is skipped.\<close>

lemma replay_garbage:
  assumes log: "wal_wf log" and g: "nl \<notin> set g" "length g < wal_limit" "json_unmarshal (drop_cr g) = None"
  shows "wal_replay (log @ g @ [nl]) = wal_replay log"
proof -
  obtain rs where rs: "list_all record_fits rs" "log = write_lines json_marshal rs"
    using log by (auto simp: wal_wf_def)
  have "read_lines json_unmarshal wal_limit (g @ [nl]) = []"
    using g by (simp add: read_lines_def scan_lines_def raw_lines_line List.map_filter_def)
  then show ?thesis
    unfolding wal_replay_def rs(2) using wal_lines.read_write_append [OF rs(1)] wal_lines.read_write [OF rs(1)]
    by simp
qed

text \<open>A line that is too long ends the recovery: nothing after it is read.\<close>

lemma replay_long_line:
  assumes log: "wal_wf log" and g: "nl \<notin> set g" "wal_limit \<le> length g"
  shows "wal_replay (log @ g @ nl # rest) = wal_replay log"
proof -
  obtain rs where rs: "list_all record_fits rs" "log = write_lines json_marshal rs"
    using log by (auto simp: wal_wf_def)
  have "read_lines json_unmarshal wal_limit (g @ nl # rest) = []"
    using g by (simp add: read_lines_def scan_lines_def raw_lines_line List.map_filter_def)
  then show ?thesis
    unfolding wal_replay_def rs(2) using wal_lines.read_write_append [OF rs(1)] wal_lines.read_write [OF rs(1)]
    by simp
qed

lemma fold_append_line: "fold append_line rs log = log @ write_lines json_marshal rs"
  by (induction rs arbitrary: log) (simp_all add: append_line_def)

lemma record_longer_than_name: "length (wr_FileName r) \<le> length (json_marshal r)"
proof -
  have "length s \<le> length (concat (map enc_char s))" for s
  proof (induction s)
    case (Cons a s)
    have "enc_char a \<noteq> []" by (simp add: enc_char_def Let_def)
    with Cons show ?case by (cases "enc_char a") auto
  qed simp
  then have "length (wr_FileName r) \<le> length (enc_string (wr_FileName r))"
    by (simp add: enc_string_def le_SucI)
  then show ?thesis by (simp add: json_marshal_def enc_record_def)
qed

section \<open>Malformed messages\<close>

text \<open>
  The sub-messages a handler dereferences without a check: a message that lacks one makes the
  controller panic.
\<close>

definition nil_deref :: "wrapper \<Rightarrow> controller \<Rightarrow> bool" where
  "nil_deref w c = (case w of
      Wrapper_RegistrationReq node \<Rightarrow> node = None
    | Wrapper_Heartbeat node \<Rightarrow> node = None
    | Wrapper_PutFileReq req \<Rightarrow> (case pf_metadata req of None \<Rightarrow> True
        | Some md \<Rightarrow> files c (fi_name md) = None \<and> pendingFiles c (fi_name md) = None \<and> pf_chunk req = None)
    | Wrapper_GetFileReq md \<Rightarrow> md = None
    | Wrapper_LeaseRenewReq md \<Rightarrow> md = None
    | Wrapper_ChunkStatusReport req \<Rightarrow> csr_metadata req = None \<or> csr_node req = None
    | Wrapper_ReplicaNodesReq req \<Rightarrow> rnr_chunk req = None
    | Wrapper_DeleteFileReq md \<Rightarrow> md = None
    | _ \<Rightarrow> False)"

lemma and_then_runs: "(\<exists>x. m = Inr x) \<Longrightarrow> (\<And>x. \<exists>y. f x = Inr y) \<Longrightarrow> \<exists>y. and_then m f = Inr y"
  by auto

lemma report_success_runs: "io_compact io \<noteq> ReopenFails \<Longrightarrow> \<exists>c'. report_success io n cid a c = Inr c'"
  by (auto simp: report_success_def count_first_copy_def Let_def intro!: and_then_runs appendWalRecord_runs
      split: option.splits)

lemma report_failure_runs: "io_compact io \<noteq> ReopenFails \<Longrightarrow> \<exists>c'. report_failure io n cid a c = Inr c'"
  unfolding report_failure_def
  by (rule and_then_runs) (auto simp: Let_def intro!: appendWalRecord_runs split: option.splits)

lemma handleConnection_panics: "nil_deref w c \<Longrightarrow> handleConnection env w c = Inl Panic"
  by (cases w) (auto simp: nil_deref_def updateHeartbeat_def handlePutFile_def handleGetFile_def
      handleLeaseRenew_def handleChunkStatusReport_def handleReplicaNodes_def handleDeleteFile_def deref_def
      split: option.splits)

lemma handlePutFile_runs:
  "pf_metadata req = Some md \<Longrightarrow> pf_chunk req \<noteq> None \<or> files c (fi_name md) \<noteq> None \<or> pendingFiles c (fi_name md) \<noteq> None
    \<Longrightarrow> \<exists>r. handlePutFile now ords req c = Inr r"
  by (auto simp: handlePutFile_def Let_def split: option.splits)

lemma handleConnection_runs:
  assumes ok: "\<not> nil_deref w c" and io: "io_compact (env_io env 0) \<noteq> ReopenFails"
  shows "\<exists>r. handleConnection env w c = Inr r"
proof (cases w)
  case (Wrapper_PutFileReq req)
  with ok handlePutFile_runs show ?thesis by (fastforce simp: nil_deref_def split: option.splits)
next
  case (Wrapper_ChunkStatusReport req)
  with ok obtain md nd where "csr_metadata req = Some md" "csr_node req = Some nd"
    by (auto simp: nil_deref_def)
  moreover obtain c1 where "report_success (env_io env 0) (ci_file_name md) (ci_id md) (ni_address nd) c = Inr c1"
    using report_success_runs [OF io] by blast
  moreover obtain c2 where "report_failure (env_io env 0) (ci_file_name md) (ci_id md) (ni_address nd) c = Inr c2"
    using report_failure_runs [OF io] by blast
  ultimately show ?thesis using Wrapper_ChunkStatusReport by (simp add: handleChunkStatusReport_def)
next
  case (Wrapper_DeleteFileReq req)
  with ok obtain md where "req = Some md" by (auto simp: nil_deref_def)
  moreover obtain c1 where "appendWalRecord (env_io env 0) ''DELETE'' (fi_name md) None
      (c\<lparr>files := (files c)(fi_name md := None)\<rparr>) = Inr c1"
    using appendWalRecord_runs [OF io] by blast
  ultimately show ?thesis using Wrapper_DeleteFileReq by (simp add: handleDeleteFile_def split: option.splits)
qed (use ok in \<open>auto simp: nil_deref_def updateHeartbeat_def handleGetFile_def handleLeaseRenew_def
    handleReplicaNodes_def Let_def split: option.splits\<close>)

end
