(* ===== verification/ControllerDemo.thy ===== *)
theory ControllerDemo
  imports Rounds
begin

text \<open>
  A concrete cluster for the witnesses: three registered nodes with room, an upload of two chunks,
  its reports, and the stored file.
\<close>

definition demo_env :: ctrl_env where
  "demo_env = \<lparr>env_now = 0, env_nodes = (\<lambda>_. [''a'', ''b'', ''c'']), env_files = [''f''], env_pending = [''f''],
     env_io = (\<lambda>_. \<lparr>io_write = None, io_compact = CompactDone, io_range = [''f'']\<rparr>)\<rparr>"

definition demo_node :: "string \<Rightarrow> nodeInfo" where
  "demo_node n = \<lparr>node_id = n, node_address = n, usedSpace = 0, freeSpace = 1000, requestsHandled = 0,
     lastHeartbeat = 0\<rparr>"

definition demo_chunk :: "u64 \<Rightarrow> string list \<Rightarrow> chunkInfo" where
  "demo_chunk i ns = \<lparr>chunkId = i, chunk_nodes = ns, chunk_size = 0, chunk_checksum = []\<rparr>"

definition demo_meta :: "chunkInfo list \<Rightarrow> fileMetadata" where
  "demo_meta cs = \<lparr>fm_name = ''f'', fm_size = 150, fm_chunks = cs, fm_createdAt = 0,
     fm_leaseExpiry = 30 * second\<rparr>"

text \<open>The cluster before, during and after the upload of \<open>f\<close>.\<close>

definition demo_ready :: controller where
  "demo_ready = (newController (Some []))\<lparr>walOpen := True,
     nodes := [''a'' \<mapsto> demo_node ''a'', ''b'' \<mapsto> demo_node ''b'', ''c'' \<mapsto> demo_node ''c'']\<rparr>"

definition demo_pending :: "chunkInfo list \<Rightarrow> u64 \<Rightarrow> controller" where
  "demo_pending cs n = demo_ready\<lparr>pendingFiles := [''f'' \<mapsto> demo_meta cs], pendingChunks := [''f'' \<mapsto> n]\<rparr>"

definition demo_log :: "fileMetadata \<Rightarrow> string" where
  "demo_log m = append_line (wal_record ''PUT'' ''f'' (Some m)) []"

definition demo_stored :: "fileMetadata \<Rightarrow> controller" where
  "demo_stored m = demo_ready\<lparr>files := [''f'' \<mapsto> m], walDisk := Some (demo_log m), walCount := 1\<rparr>"

definition demo_put :: PutFileRequest where
  "demo_put = \<lparr>pf_metadata = Some \<lparr>fi_name = ''f'', fi_size = 150\<rparr>,
     pf_chunk = Some (zero_ChunkInfo\<lparr>ci_size := 100\<rparr>), pf_num_chunks = 0\<rparr>"

lemmas demo_defs = demo_env_def demo_node_def demo_ready_def demo_pending_def demo_stored_def demo_log_def
  newController_def

lemma demo_good [simp]: "dom (files c) \<union> dom (pendingFiles c) \<subseteq> {''f''} \<Longrightarrow> good_env demo_env c"
  by (auto simp: good_env_def demo_env_def)

lemma reachable_step:
  "reachable c \<Longrightarrow> ctrl_exec demo_env ev c = Inr (c', outs) \<Longrightarrow> dom (files c) \<union> dom (pendingFiles c) \<subseteq> {''f''} \<Longrightarrow>
    all_fit (files c') \<Longrightarrow> reachable c'"
  by (rule reachable.event [OF _ _ demo_good])

lemma demo_selectNodes:
  "nodes c = nodes demo_ready \<Longrightarrow>
    selectNodes 3 100 [] [''a'', ''b'', ''c''] c = [''a'', ''b'', ''c'']"
  by (simp add: selectNodes_def range_keys_def demo_defs sort_scores_def)

abbreviation demo_boot :: controller where
  "demo_boot \<equiv> (newController (Some []))\<lparr>walOpen := True\<rparr>"

lemma demo_start: "start_controller None = Inr demo_boot"
  by (simp add: start_controller_def recoverWAL_def initWAL_def newController_def)

text \<open>The states of a run from the start with no failure report.\<close>

definition clean_run :: "controller \<Rightarrow> bool" where
  "clean_run c \<longleftrightarrow> reachable c \<and> (\<exists>es outs. ctrl_run es demo_boot = Inr (c, outs) \<and> (\<forall>e \<in> set es. \<not> is_failure (snd e)))"

lemma ctrl_run_snoc:
  "ctrl_run es c = Inr (c1, o1) \<Longrightarrow> ctrl_exec env ev c1 = Inr (c2, o2) \<Longrightarrow>
    ctrl_run (es @ [(env, ev)]) c = Inr (c2, o1 @ o2)"
  by (induction es arbitrary: c o1) (auto simp: and_then_eq_Inr)

lemma clean_step:
  assumes c: "clean_run c" and step: "ctrl_exec demo_env ev c = Inr (c', outs)" and ok: "\<not> is_failure ev"
    and dom: "dom (files c) \<union> dom (pendingFiles c) \<subseteq> {''f''}" "all_fit (files c')"
  shows "clean_run c'"
proof -
  obtain es o1 where "ctrl_run es demo_boot = Inr (c, o1)" "\<forall>e \<in> set es. \<not> is_failure (snd e)"
    using c by (auto simp: clean_run_def)
  then have "ctrl_run (es @ [(demo_env, ev)]) demo_boot = Inr (c', o1 @ outs) \<and>
      (\<forall>e \<in> set (es @ [(demo_env, ev)]). \<not> is_failure (snd e))"
    using ctrl_run_snoc step ok by auto
  moreover have "reachable c'" using c reachable_step [OF _ step dom] by (simp add: clean_run_def)
  ultimately show ?thesis unfolding clean_run_def by blast
qed

lemma clean_boot: "clean_run demo_boot"
  unfolding clean_run_def using reachable.boot [OF demo_start] by (auto intro!: exI [of _ "[]"])

lemma demo_ready_clean: "clean_run demo_ready"
proof -
  have join: "clean_run (c\<lparr>nodes := (nodes c)(n \<mapsto> demo_node n)\<rparr>)"
    if c: "clean_run c" "files c = Map.empty" "pendingFiles c = Map.empty" for c n
  proof -
    let ?c1 = "registerNode 0 n n c"
    have "ctrl_exec demo_env (Recv (SendRegistrationRequest n n)) c
        = Inr (?c1, [Reply (SendResponse True ''Registration successful'')])"
      by (simp add: SendRegistrationRequest_def demo_env_def zero_NodeInfo_def)
    then have c1: "clean_run ?c1"
      by (rule clean_step [OF c(1)])
        (use c in \<open>simp_all add: registerNode_def all_fit_def is_failure_def SendRegistrationRequest_def\<close>)
    have "ctrl_exec demo_env (Recv (SendHeartbeat n 0 1000 0)) ?c1
        = Inr (c\<lparr>nodes := (nodes c)(n \<mapsto> demo_node n)\<rparr>, [Reply (SendResponse True ''Heartbeat acknowledged'')])"
      by (simp add: SendHeartbeat_def updateHeartbeat_def registerNode_def demo_env_def demo_node_def
          zero_NodeInfo_def)
    then show ?thesis
      by (rule clean_step [OF c1])
        (use c in \<open>simp_all add: registerNode_def all_fit_def is_failure_def SendHeartbeat_def\<close>)
  qed
  have 1: "clean_run (demo_boot\<lparr>nodes := [''a'' \<mapsto> demo_node ''a'']\<rparr>)"
    using join [OF clean_boot] by (simp add: newController_def)
  have 2: "clean_run (demo_boot\<lparr>nodes := [''a'' \<mapsto> demo_node ''a'', ''b'' \<mapsto> demo_node ''b'']\<rparr>)"
    using join [OF 1] by (simp add: newController_def)
  have "clean_run (demo_boot\<lparr>nodes := [''a'' \<mapsto> demo_node ''a'', ''b'' \<mapsto> demo_node ''b'', ''c'' \<mapsto> demo_node ''c'']\<rparr>)"
    using join [OF 2] by (simp add: newController_def)
  then show ?thesis by (simp add: demo_ready_def)
qed

abbreviation demo_empty :: "chunkInfo list" where
  "demo_empty \<equiv> [demo_chunk 0 [], demo_chunk 1 []]"

lemma demo_num_chunks: "num_chunks 0 150 100 = 2"
  by code_simp

definition demo_targets :: "NodeInfo list" where
  "demo_targets = MapArrayAddressesToNodeInfo [''a'', ''b'', ''c'']"

definition demo_allocation :: "ChunkAllocation list" where
  "demo_allocation = map (\<lambda>i. \<lparr>cn_metadata = Some (zero_ChunkInfo\<lparr>ci_id := i\<rparr>), cn_nodes = demo_targets\<rparr>) [0, 1]"

lemma demo_allocate: "nodes c = nodes demo_ready \<Longrightarrow>
    allocate_chunks (\<lambda>_. [''a'', ''b'', ''c'']) 100 c [0..<unat (2 :: u64)] = Some (zip demo_allocation demo_empty)"
  by (simp add: demo_selectNodes upt_rec demo_chunk_def replicationFactor_def Let_def demo_allocation_def
      demo_targets_def)

lemma demo_put_run:
  "handlePutFile 0 (\<lambda>_. [''a'', ''b'', ''c'']) demo_put demo_ready =
    Inr (demo_pending demo_empty 2, [Reply (SendPutFileResponse True ''Allocation successful'' demo_allocation)])"
proof -
  have "length demo_allocation = 2" by (simp add: demo_allocation_def)
  then show ?thesis using demo_allocate [of demo_ready]
    by (simp add: handlePutFile_def demo_put_def demo_num_chunks zero_ChunkInfo_def Let_def)
      (simp add: demo_pending_def demo_ready_def newController_def demo_meta_def)
qed

abbreviation demo_half :: "chunkInfo list" where
  "demo_half \<equiv> [demo_chunk 0 [''a''], demo_chunk 1 []]"

abbreviation demo_full :: "chunkInfo list" where
  "demo_full \<equiv> [demo_chunk 0 [''a''], demo_chunk 1 [''b'']]"

lemmas demo_report_simps = report_success_def count_first_copy_def is_chunk_def map_chunk_def add_node_def
  demo_chunk_def Let_def demo_meta_def demo_pending_def demo_ready_def demo_stored_def demo_log_def
  newController_def demo_env_def appendWalRecord_def append_line_def disk_bytes_def

lemma demo_first_report:
  "report_success io ''f'' 0 ''a'' (demo_pending demo_empty 2) = Inr (demo_pending demo_half 1)"
  by (simp add: demo_report_simps)

lemma demo_second_report:
  "report_success (env_io demo_env i) ''f'' 1 ''b'' (demo_pending demo_half 1) = Inr (demo_stored (demo_meta demo_full))"
  by (simp add: demo_report_simps)

lemma demo_fits: "file_fits (demo_meta demo_full)"
  by (simp add: file_fits_def record_fits_def wal_record_def json_marshal_def enc_record_def toWalFileMeta_def
      enc_meta_def enc_list_def enc_chunk_def to_wal_chunk_def demo_meta_def demo_chunk_def second_def
      enc_u64_def enc_u32_def enc_time_def enc_checksum_def enc_string_def enc_char_def dec_str.simps wal_limit_def)

lemma demo_pending_clean: "clean_run (demo_pending demo_empty 2)"
proof -
  have "ctrl_exec demo_env (Recv (Wrapper_PutFileReq demo_put)) demo_ready = Inr (demo_pending demo_empty 2,
      [Reply (SendPutFileResponse True ''Allocation successful'' demo_allocation)])"
    using demo_put_run by (simp add: demo_env_def)
  then show ?thesis
    by (rule clean_step [OF demo_ready_clean])
      (simp_all add: demo_ready_def newController_def demo_pending_def all_fit_def is_failure_def)
qed

text \<open>A report as the controller receives it.\<close>

lemma exec_report:
  "report_success (env_io env 0) n i a c = Inr c' \<Longrightarrow>
    ctrl_exec env (Recv (SendChunkStatusReport n i True a)) c = Inr (c', [])"
  by (simp add: SendChunkStatusReport_def handleChunkStatusReport_def zero_ChunkInfo_def zero_NodeInfo_def)

lemma demo_half_clean: "clean_run (demo_pending demo_half 1)"
  by (rule clean_step [OF demo_pending_clean exec_report [OF demo_first_report]])
    (simp_all add: demo_ready_def newController_def demo_pending_def all_fit_def is_failure_def SendChunkStatusReport_def)

lemma demo_stored_clean: "clean_run (demo_stored (demo_meta demo_full))"
  by (rule clean_step [OF demo_half_clean exec_report [OF demo_second_report]])
    (simp_all add: demo_ready_def newController_def demo_pending_def all_fit_def demo_stored_def demo_fits
      is_failure_def SendChunkStatusReport_def)

lemma clean_reachable: "clean_run c \<Longrightarrow> reachable c"
  by (simp add: clean_run_def)

lemmas demo_pending_reachable = clean_reachable [OF demo_pending_clean]
lemmas demo_half_reachable = clean_reachable [OF demo_half_clean]
lemmas demo_stored_reachable = clean_reachable [OF demo_stored_clean]

end
