(* ===== verification/ControllerProps.thy ===== *)
theory ControllerProps
  imports ControllerDemo
begin

text \<open>
  The controller's properties: invariants of every run, recovery after a crash, the life cycle of a
  file, node selection, leases, maintenance, and the places where the code falls short of them.
\<close>

section \<open>Every run\<close>

text \<open>C1: in every state a controller can reach, through messages, background rounds, crashes and
  restarts, stored and pending names are disjoint, every entry of both tables carries its own name,
  the upload counters belong exactly to the pending files, chunk identifiers are 0, 1, 2, ... in
  order and no chunk lists a node twice.\<close>

theorem controller_invariant: "reachable c \<Longrightarrow> ctrl_inv c"
  using reachable_wal_inv by (simp add: wal_inv_def)

theorem controller_invariant_witness:
  "pendingFiles (demo_pending demo_empty 2) ''f'' \<noteq> None \<and> ctrl_inv (demo_pending demo_empty 2)"
  using controller_invariant [OF demo_pending_reachable] by (simp add: demo_pending_def)



section \<open>The life of a file\<close>

text \<open>C13: the status of every file name moves only along its automaton: a PUT request opens an upload, a
  success report completes it, the lease sweep drops an upload whose lease has run out, a DELETE request
  removes a stored file, and no other event changes the status of the name.\<close>

theorem file_life_cycle:
  assumes "reachable c" "ctrl_exec env ev c = Inr (c', outs)"
  shows "file_step env ev c n (file_status c n) (file_status c' n)"
  using ctrl_exec_step assms reachable_wal_inv by (simp add: wal_inv_def)

theorem file_life_cycle_witness:
  "file_status (demo_pending demo_half 1) ''f'' = Uploading \<and> file_status (demo_stored (demo_meta demo_full)) ''f'' = Stored \<and>
   file_step demo_env (Recv (SendChunkStatusReport ''f'' 1 True ''b'')) (demo_pending demo_half 1) ''f'' Uploading Stored"
proof -
  have "ctrl_exec demo_env (Recv (SendChunkStatusReport ''f'' 1 True ''b'')) (demo_pending demo_half 1) =
      Inr (demo_stored (demo_meta demo_full), [])"
    by (rule exec_report [OF demo_second_report])
  moreover have s: "file_status (demo_pending demo_half 1) ''f'' = Uploading"
    "file_status (demo_stored (demo_meta demo_full)) ''f'' = Stored"
    by (simp_all add: file_status_def demo_pending_def demo_stored_def demo_ready_def newController_def)
  ultimately show ?thesis using file_life_cycle [OF demo_half_reachable, of demo_env _ _ _ "''f''"] by metis
qed

text \<open>C11: an accepted upload followed by any success reports ends exactly as reported: once every chunk was
  reported by some node the file is stored, before that it is pending and not stored; and every chunk lists
  exactly the nodes that reported it, once each, in order of their first report.\<close>

theorem upload_completes:
  assumes put: "handlePutFile now ords req c = Inr (c1, [Reply (SendPutFileResponse True msg al)])"
    and md: "pf_metadata req = Some md" and al: "al \<noteq> []"
    and run: "ctrl_run (report_events (fi_name md) rs) c1 = Inr (c', outs)"
  shows "\<exists>m. length (fm_chunks m) = length al \<and> fm_size m = fi_size md \<and>
    (\<forall>i < length al. chunkId (fm_chunks m ! i) = word_of_nat i \<and>
       chunk_nodes (fm_chunks m ! i) = unique_from {} (reported_nodes rs (word_of_nat i))) \<and>
    (if \<forall>i < length al. reported_nodes rs (word_of_nat i) \<noteq> []
     then files c' (fi_name md) = Some m \<and> pendingFiles c' (fi_name md) = None
     else files c' (fi_name md) = None \<and> pendingFiles c' (fi_name md) = Some m)"
  using put
proof (cases rule: handlePutFile_cases)
  case (accepted md' ch acs n)
  let ?new = "new_upload now md n" and ?final = "apply_reports rs (new_upload now md n)"
  have len: "length al = unat n"
    using accepted allocate_chunks_metas [OF accepted(7), THEN arg_cong [where f = length]]
    by (simp add: SendPutFileResponse_def)
  have md': "md' = md" using accepted(1) md by simp
  have len0: "length (fm_chunks ?new) = unat n" by (simp add: new_upload_def)
  have "0 < unat n" using al len by (cases al) auto
  then have "\<not> fully_copied ?new" by (auto simp: fully_copied_missing missing_new_upload)
  then have "upload_state c1 (fi_name md) ?new"
    using accepted md' by (simp add: upload_state_def missing_new_upload)
  with run have st: "upload_state c' (fi_name md) ?final" by (rule run_reports_upload) simp
  have empty: "chunk_nodes (fm_chunks ?new ! i) = []" if "i < unat n" for i
    using that by (simp add: new_upload_def)
  have nodes: "chunk_nodes (fm_chunks ?final ! i) = unique_from {} (reported_nodes rs (word_of_nat i))"
    if "i < unat n" for i
    using that empty [OF that] by (simp add: apply_reports_nth len0 nodes_fold_add)
  have ids: "chunkId (fm_chunks ?final ! i) = word_of_nat i" if "i < unat n" for i
    using that by (simp add: meta_ok_ids meta_ok_apply_reports apply_reports_length len0)
  have size: "fm_size ?final = fi_size md"
    by (simp add: apply_reports_size new_upload_def)
  have copied: "fully_copied ?final \<longleftrightarrow> (\<forall>i < length al. reported_nodes rs (word_of_nat i) \<noteq> [])"
    using empty by (auto simp: apply_reports_copied len0 len)
  show ?thesis
    by (rule exI [of _ ?final]) (use st nodes ids size copied len len0 in \<open>auto simp: upload_state_def apply_reports_length\<close>)
qed (use al in \<open>auto simp: SendPutFileResponse_def\<close>)

theorem upload_completes_witness:
  "\<exists>m. length (fm_chunks m) = 2 \<and> files (demo_stored (demo_meta demo_full)) ''f'' = Some m \<and>
     chunk_nodes (fm_chunks m ! 1) = [''b'']"
proof -
  let ?rs = "[(demo_env, 0, ''a''), (demo_env, 1, ''b'')]"
  have "ctrl_run (report_events ''f'' ?rs) (demo_pending demo_empty 2) = Inr (demo_stored (demo_meta demo_full), [])"
    using exec_report [OF demo_first_report, of demo_env] exec_report [OF demo_second_report]
    by (simp add: report_events_def)
  moreover have "pf_metadata demo_put = Some \<lparr>fi_name = ''f'', fi_size = 150\<rparr>" by (simp add: demo_put_def)
  moreover have len: "length demo_allocation = 2" by (simp add: demo_allocation_def)
  moreover have "\<forall>i < 2. reported_nodes ?rs (word_of_nat i) \<noteq> []"
    by (auto simp: reported_nodes_def numeral_2_eq_2 less_Suc_eq)
  ultimately obtain m where "length (fm_chunks m) = 2" "files (demo_stored (demo_meta demo_full)) ''f'' = Some m"
    "\<forall>i < 2. chunk_nodes (fm_chunks m ! i) = unique_from {} (reported_nodes ?rs (word_of_nat i))"
    using upload_completes [OF demo_put_run, where md = "\<lparr>fi_name = ''f'', fi_size = 150\<rparr>" and rs = ?rs] by force
  then show ?thesis by (auto simp: reported_nodes_def)
qed

text \<open>C19: in a run without failure reports, started from any log, a file enters the table only when every one
  of its chunks has at least one copy.\<close>

theorem stored_files_are_complete:
  assumes boot: "start_controller disk = Inr c0" "ctrl_inv c0"
    and run: "ctrl_run es c0 = Inr (c, outs)" "\<forall>e \<in> set es. \<not> is_failure (snd e)"
    and step: "ctrl_exec env ev c = Inr (c', outs')"
    and new: "files c n = None" "files c' n = Some m"
  shows "fully_copied m"
proof -
  have "counted c0" using boot(1) start_controller_eq [of disk] by (auto simp: counted_def)
  then show ?thesis using stored_is_copied [OF step _ _ new] ctrl_run_counted [OF run(1) boot(2) _ run(2)] by blast
qed

theorem stored_files_are_complete_witness:
  "files (demo_pending demo_half 1) ''f'' = None \<and> files (demo_stored (demo_meta demo_full)) ''f'' = Some (demo_meta demo_full) \<and>
   fully_copied (demo_meta demo_full)"
proof -
  obtain es outs where run: "ctrl_run es demo_boot = Inr (demo_pending demo_half 1, outs)"
    "\<forall>e \<in> set es. \<not> is_failure (snd e)"
    using demo_half_clean by (auto simp: clean_run_def)
  have inv: "ctrl_inv demo_boot" using clean_boot reachable_wal_inv by (auto simp: clean_run_def wal_inv_def)
  have "ctrl_exec demo_env (Recv (SendChunkStatusReport ''f'' 1 True ''b'')) (demo_pending demo_half 1) =
      Inr (demo_stored (demo_meta demo_full), [])"
    by (rule exec_report [OF demo_second_report])
  moreover have files: "files (demo_pending demo_half 1) ''f'' = None"
    "files (demo_stored (demo_meta demo_full)) ''f'' = Some (demo_meta demo_full)"
    by (simp_all add: demo_pending_def demo_stored_def demo_ready_def newController_def)
  ultimately show ?thesis using stored_files_are_complete [OF demo_start inv run] by blast
qed

section \<open>Where the life of a file goes wrong\<close>


text \<open>An empty file is never stored. Its PUT request is accepted with no chunk to upload, and the upload then
  waits for a first copy that no report can bring: whatever is reported, the file stays pending until its lease
  runs out.\<close>

lemma empty_file_never_stored:
  assumes put: "handlePutFile now ords req c = Inr (c1, [Reply (SendPutFileResponse True msg al)])"
    and md: "pf_metadata req = Some md" and empty: "fi_size md = 0" "pf_num_chunks req = 0"
    and run: "ctrl_run (report_events (fi_name md) rs) c1 = Inr (c', outs)"
  shows "al = [] \<and> c' = c1 \<and> files c' (fi_name md) = None \<and> pendingFiles c' (fi_name md) \<noteq> None"
  using put
proof (cases rule: handlePutFile_cases)
  case (accepted md' ch acs n)
  have md': "md' = md" using accepted(1) md by simp
  then have "n = (ucast (ci_size ch) - 1) div ucast (ci_size ch)"
    using accepted(6) empty by (simp add: num_chunks_def)
  then have n: "n = 0" using accepted(3) num_chunks_zero by simp
  then have al: "al = []" using accepted by (simp add: SendPutFileResponse_def)
  have p: "pendingFiles c1 (fi_name md) = Some (new_upload now md 0)" using accepted md' n by simp
  have "x = c1" if "ctrl_exec env (Recv (SendChunkStatusReport (fi_name md) i True a)) c1 = Inr (x, o1)" for env i a x o1
    using exec_success_report [OF that] by (simp add: report_success_def p new_upload_def)
  then have "ctrl_run (report_events (fi_name md) rs) c1 = Inr (c', outs) \<Longrightarrow> c' = c1"
    by (induction rs arbitrary: outs) (fastforce simp: report_events_def and_then_eq_Inr)+
  then show ?thesis using run al p accepted md' by auto
qed (use put in \<open>simp add: SendPutFileResponse_def\<close>)

definition demo_put_empty :: PutFileRequest where
  "demo_put_empty = \<lparr>pf_metadata = Some \<lparr>fi_name = ''e'', fi_size = 0\<rparr>,
     pf_chunk = Some (zero_ChunkInfo\<lparr>ci_size := 100\<rparr>), pf_num_chunks = 0\<rparr>"

theorem empty_file_never_stored_witness:
  "\<exists>c1. handlePutFile 0 (\<lambda>_. []) demo_put_empty demo_ready =
       Inr (c1, [Reply (SendPutFileResponse True ''Allocation successful'' [])]) \<and>
     files c1 ''e'' = None \<and> pendingFiles c1 ''e'' \<noteq> None"
proof -
  let ?md = "\<lparr>fi_name = ''e'', fi_size = 0\<rparr>"
  have "num_chunks 0 0 100 = 0" by code_simp
  then obtain c1 where "handlePutFile 0 (\<lambda>_. []) demo_put_empty demo_ready =
       Inr (c1, [Reply (SendPutFileResponse True ''Allocation successful'' [])])"
    by (simp add: handlePutFile_def demo_put_empty_def demo_ready_def newController_def zero_ChunkInfo_def Let_def)
  moreover have "pf_metadata demo_put_empty = Some ?md" "pf_num_chunks demo_put_empty = 0"
    by (simp_all add: demo_put_empty_def)
  ultimately show ?thesis
    using empty_file_never_stored [where md = ?md and rs = "[]"] by (fastforce simp: report_events_def)
qed

end
