(* ===== verification/ClusterProps.thy ===== *)
theory ClusterProps
  imports ControllerDemo
begin

text \<open>
  Properties of the controller's single operations: node selection and allocation, deletion, the lease,
  heartbeat and maintenance rounds, status totals, and malformed messages.
\<close>

section \<open>Placement\<close>

text \<open>C22: node selection returns the addresses of as many eligible nodes as there are, up to the number asked
  for: no node twice, none excluded, each with room for the chunk. The chosen ones are the least loaded of a
  pool of eligible nodes twice as large as the request, in order of load.\<close>

theorem select_nodes:
  assumes "covers ord (nodes c)"
  shows "\<exists>chosen rest. selectNodes n csz excl ord c = map (address_of c) chosen \<and>
    distinct (chosen @ rest) \<and> set (chosen @ rest) \<subseteq> {k. eligible csz excl c k} \<and>
    length chosen = min n (card {k. eligible csz excl c k}) \<and>
    length (chosen @ rest) = min (n * 2) (card {k. eligible csz excl c k}) \<and>
    sorted (map (load c) chosen) \<and> (\<forall>x \<in> set chosen. \<forall>y \<in> set rest. load c x \<le> load c y)"
proof -
  let ?pool = "take (n * 2) (eligible_ids csz excl ord c)"
  let ?sorted = "sort_key (load c) ?pool"
  have split: "take n ?sorted @ drop n ?sorted = ?sorted" by simp
  have "distinct ?sorted" by (simp add: eligible_ids_def)
  moreover have "set ?sorted \<subseteq> {k. eligible csz excl c k}"
    using set_eligible_ids [OF assms] set_take_subset [of "n * 2"] by fastforce
  moreover have "length ?sorted = min (n * 2) (card {k. eligible csz excl c k})"
    using length_eligible_ids [OF assms] by (simp add: min.commute)
  moreover have "sorted (map (load c) (take n ?sorted) @ map (load c) (drop n ?sorted))"
    using sorted_sort_key [of "load c" ?pool] by (simp flip: map_append)
  ultimately show ?thesis
    by (intro exI [of _ "take n ?sorted"] exI [of _ "drop n ?sorted"])
      (simp add: split selectNodes_eq sorted_append length_eligible_ids [OF assms] min_def)
qed

theorem select_nodes_witness:
  "length (selectNodes 3 100 [] [''a'', ''b'', ''c''] demo_ready) = 3 \<and>
   (\<exists>chosen rest. selectNodes 3 100 [] [''a'', ''b'', ''c''] demo_ready = map (address_of demo_ready) chosen \<and>
     distinct (chosen @ rest) \<and> (\<forall>x \<in> set chosen. \<forall>y \<in> set rest. load demo_ready x \<le> load demo_ready y))"
proof -
  have "covers [''a'', ''b'', ''c''] (nodes demo_ready)" by (auto simp: covers_def demo_ready_def split: if_splits)
  from select_nodes [OF this, of 3 100 "[]"] obtain chosen rest
    where r: "selectNodes 3 100 [] [''a'', ''b'', ''c''] demo_ready = map (address_of demo_ready) chosen"
      "distinct (chosen @ rest)" "\<forall>x \<in> set chosen. \<forall>y \<in> set rest. load demo_ready x \<le> load demo_ready y"
    by blast
  have "length (selectNodes 3 100 [] [''a'', ''b'', ''c''] demo_ready) = 3"
    using demo_selectNodes [OF refl] by simp
  with r show ?thesis by blast
qed



section \<open>Deletion and the sweeps\<close>



text \<open>The lease sweep drops exactly the uploads whose lease has run out, with their counters, leaves the
  others and the file table untouched, and tells every node that reported a chunk of a dropped upload to
  delete it.\<close>

lemma lease_sweep:
  assumes "covers ord (pendingFiles c)" "monitorLeases now ord c = (c', outs)" "ctrl_inv c"
  shows "files c' = files c \<and>
    (\<forall>n m. pendingFiles c' n = Some m \<longleftrightarrow> pendingFiles c n = Some m \<and> now \<le> fm_leaseExpiry m) \<and>
    (\<forall>n. pendingChunks c' n = (if pendingFiles c' n = None then None else pendingChunks c n)) \<and>
    set outs = {ToNode a (SendDeleteFileRequest n) | a n m ch. pendingFiles c n = Some m \<and> fm_leaseExpiry m < now \<and>
       ch \<in> set (fm_chunks m) \<and> a \<in> set (chunk_nodes ch)}"
proof -
  have exp: "k \<in> set (expired_names now ord c) \<longleftrightarrow> (\<exists>m. pendingFiles c k = Some m \<and> fm_leaseExpiry m < now)" for k
    using set_expired_names [OF assms(1)] .
  have c': "c' = fst (monitorLeases now ord c)" and o: "outs = snd (monitorLeases now ord c)"
    using assms(2) by simp_all
  have dom: "pendingFiles c n = None \<longleftrightarrow> pendingChunks c n = None" for n
    using assms(3) unfolding ctrl_inv_def by (metis domIff)
  have in_outs: "out \<in> set outs \<longleftrightarrow>
      (\<exists>k m. pendingFiles c k = Some m \<and> fm_leaseExpiry m < now \<and> out \<in> set (delete_messages k m))" for out
  proof -
    have name: "delete_messages (fm_name (the (pendingFiles c k))) (the (pendingFiles c k)) = delete_messages k m"
      if "pendingFiles c k = Some m" for k m
      using that ctrl_inv_names(2) [OF assms(3) that] by simp
    have "(\<exists>k \<in> set (expired_names now ord c). out \<in> set (delete_messages (fm_name (the (pendingFiles c k))) (the (pendingFiles c k)))) \<longleftrightarrow>
        (\<exists>k m. pendingFiles c k = Some m \<and> fm_leaseExpiry m < now \<and> out \<in> set (delete_messages k m))" (is "?L \<longleftrightarrow> ?R")
    proof
      assume ?L
      then obtain k where k: "k \<in> set (expired_names now ord c)"
        "out \<in> set (delete_messages (fm_name (the (pendingFiles c k))) (the (pendingFiles c k)))" by blast
      then obtain m where "pendingFiles c k = Some m" "fm_leaseExpiry m < now" using exp by blast
      with k name show ?R by metis
    next
      assume ?R
      then obtain k m where m: "pendingFiles c k = Some m" "fm_leaseExpiry m < now" "out \<in> set (delete_messages k m)"
        by blast
      then have "k \<in> set (expired_names now ord c)" using exp by blast
      with m(3) name [OF m(1)] show ?L by metis
    qed
    then show ?thesis by (simp add: o monitorLeases_def Let_def)
  qed
  have "set outs = {ToNode a (SendDeleteFileRequest n) | a n m ch. pendingFiles c n = Some m \<and> fm_leaseExpiry m < now \<and>
       ch \<in> set (fm_chunks m) \<and> a \<in> set (chunk_nodes ch)}"
    by (rule set_eqI) (auto simp: in_outs set_delete_messages)
  then show ?thesis
    using dom by (auto simp: c' monitorLeases_def Let_def exp not_less)
qed

theorem lease_sweep_witness:
  "\<exists>c' outs. monitorLeases (31 * second) [''f''] (demo_pending demo_half 1) = (c', outs) \<and> pendingFiles c' ''f'' = None \<and>
     ToNode ''a'' (SendDeleteFileRequest ''f'') \<in> set outs"
proof -
  obtain c' outs where run: "monitorLeases (31 * second) [''f''] (demo_pending demo_half 1) = (c', outs)" by fastforce
  have "covers [''f''] (pendingFiles (demo_pending demo_half 1))" by (auto simp: covers_def demo_pending_def)
  moreover have "ctrl_inv (demo_pending demo_half 1)"
    using reachable_wal_inv [OF demo_half_reachable] by (simp add: wal_inv_def)
  moreover have "pendingFiles (demo_pending demo_half 1) ''f'' = Some (demo_meta demo_half)"
    "fm_leaseExpiry (demo_meta demo_half) < 31 * second" "demo_chunk 0 [''a''] \<in> set (fm_chunks (demo_meta demo_half))"
    "''a'' \<in> set (chunk_nodes (demo_chunk 0 [''a'']))"
    by (simp_all add: demo_pending_def demo_meta_def second_def demo_chunk_def)
  moreover note lease_sweep [OF _ run]
  ultimately have "set outs = {ToNode a (SendDeleteFileRequest n) | a n m ch. pendingFiles (demo_pending demo_half 1) n = Some m \<and>
      fm_leaseExpiry m < 31 * second \<and> ch \<in> set (fm_chunks m) \<and> a \<in> set (chunk_nodes ch)}"
    "\<forall>n m. pendingFiles c' n = Some m \<longrightarrow> 31 * second \<le> fm_leaseExpiry m \<and> pendingFiles (demo_pending demo_half 1) n = Some m"
    by blast+
  with run show ?thesis
    using \<open>pendingFiles (demo_pending demo_half 1) ''f'' = Some (demo_meta demo_half)\<close>
      \<open>fm_leaseExpiry (demo_meta demo_half) < 31 * second\<close>
      \<open>demo_chunk 0 [''a''] \<in> set (fm_chunks (demo_meta demo_half))\<close> \<open>''a'' \<in> set (chunk_nodes (demo_chunk 0 [''a'']))\<close>
    by (cases "pendingFiles c' ''f''") force+
qed



section \<open>Maintenance\<close>



text \<open>C39: when none of a chunk's nodes is registered but some other node is, as after a restart of the controller
  while the nodes come back one by one, the maintenance round erases the chunk's locations. The nodes still hold
  the chunk, but no later round, whatever nodes are registered by then, brings a location back or has the chunk
  copied.\<close>

theorem locations_forgotten:
  assumes run: "processReplication nord ford ios c = Inr (c', outs)" and inv: "ctrl_inv c"
    and cov: "covers nord (nodes c)" "covers ford (files c)" and some: "nodes c \<noteq> Map.empty"
    and m: "files c n = Some m" "i < length (fm_chunks m)"
    and away: "\<forall>info \<in> ran (nodes c). node_address info \<notin> set (chunk_nodes (fm_chunks m ! i))"
    and later: "processReplication nord2 ford2 ios2 (c'\<lparr>nodes := ns\<rparr>) = Inr (c'', outs2)"
      "covers nord2 ns" "covers ford2 (files c')" "ns \<noteq> Map.empty"
  shows "\<exists>m'. files c'' n = Some m' \<and> i < length (fm_chunks m') \<and> chunkId (fm_chunks m' ! i) = word_of_nat i \<and>
    chunk_nodes (fm_chunks m' ! i) = [] \<and> (\<forall>src k. dispatchReplication src n (word_of_nat i) k \<notin> set outs2)"
proof -
  let ?a = "active_addresses nord c" and ?a2 = "active_addresses nord2 (c'\<lparr>nodes := ns\<rparr>)"
  let ?m = "maintain_file ?a2 (maintain_file ?a m)"
  have "live_nodes ?a (fm_chunks m ! i) = []"
    using away set_active_addresses [OF cov(1)] by (auto simp: live_nodes_def filter_empty_conv)
  then have gone: "chunk_nodes (fm_chunks ?m ! i) = []"
    using m(2) by (simp add: maintain_file_def live_nodes_def)
  have files: "files c'' n = Some ?m"
    using processReplication_run(1) [OF run cov some, of n] processReplication_run(1) [OF later(1), of n] later m(1)
    by simp
  have "meta_ok m" using inv m(1) by (auto simp: ctrl_inv_def ran_def)
  then have ok: "meta_ok ?m" by (intro meta_ok_maintain)
  have len: "length (fm_chunks ?m) = length (fm_chunks m)" by (simp add: maintain_file_def)
  have id: "chunkId (fm_chunks ?m ! i) = word_of_nat i" using meta_ok_ids [OF ok] len m(2) by simp
  have "dispatchReplication src n (word_of_nat i) k \<notin> set outs2" for src k
  proof
    assume "dispatchReplication src n (word_of_nat i) k \<in> set outs2"
    moreover have "\<forall>n. files c'' n = map_option (maintain_file ?a2) (files (c'\<lparr>nodes := ns\<rparr>) n)"
      using processReplication_run(1) [OF later(1)] later by simp
    moreover have "outs2 = concat (map (\<lambda>n. file_tasks ?a2 n (the (files (c'\<lparr>nodes := ns\<rparr>) n))) (range_keys ford2 (files (c'\<lparr>nodes := ns\<rparr>))))"
      using processReplication_run(2) [OF later(1)] later by simp
    ultimately obtain n2 m2 ch where ch: "files c'' n2 = Some m2" "ch \<in> set (fm_chunks m2)"
      "is_task n2 ch (dispatchReplication src n (word_of_nat i) k)"
      using later(3) by (fastforce simp: set_file_tasks)
    then have "n2 = n" "chunkId ch = word_of_nat i" "chunk_nodes ch \<noteq> []"
      by (simp_all add: is_task_def dispatchReplication_def SendDispatchReplicaTask_def zero_ChunkInfo_def)
    moreover from ch files \<open>n2 = n\<close> obtain j where "j < length (fm_chunks ?m)" "ch = fm_chunks ?m ! j"
      by (auto simp: in_set_conv_nth)
    moreover have "length (fm_chunks ?m) < 2 ^ 64" using ok by (simp add: meta_ok_def)
    ultimately have "j = i" using meta_ok_ids [OF ok, of j] m(2) len word_of_nat_inj64 [of j i] by simp
    with gone \<open>chunk_nodes ch \<noteq> []\<close> \<open>ch = fm_chunks ?m ! j\<close> show False by simp
  qed
  then show ?thesis using files gone id len m(2) by auto
qed

definition demo_restarted :: controller where
  "demo_restarted = (demo_stored (demo_meta demo_full))\<lparr>nodes := [''c'' \<mapsto> demo_node ''c'']\<rparr>"

theorem locations_forgotten_witness:
  "\<exists>c' outs c'' outs2 m'. processReplication [''c''] [''f''] (env_io demo_env) demo_restarted = Inr (c', outs) \<and>
     processReplication [''a'', ''b'', ''c''] [''f''] (env_io demo_env) (c'\<lparr>nodes := nodes demo_ready\<rparr>) = Inr (c'', outs2) \<and>
     files c'' ''f'' = Some m' \<and> chunk_nodes (fm_chunks m' ! 0) = []"
proof -
  have runs: "\<exists>c' outs. processReplication nord [''f''] (env_io demo_env) c = Inr (c', outs)" for nord c
  proof -
    have "\<exists>r. maintain_files a (env_io demo_env) i ns d = Inr r" for a i ns d
    proof (induction ns arbitrary: i d)
      case (Cons n ns)
      have io: "io_compact (env_io demo_env i) \<noteq> ReopenFails" for i by (simp add: demo_env_def)
      show ?case
      proof (cases "files d n")
        case (Some m)
        let ?d = "d\<lparr>files := (files d)(n \<mapsto> maintain_file a m)\<rparr>"
        obtain d2 where "appendWalRecord (env_io demo_env i) ''PUT'' n (Some (maintain_file a m)) ?d = Inr d2"
          using appendWalRecord_runs [OF io] by blast
        moreover obtain r1 where "maintain_files a (env_io demo_env) (Suc i) ns d2 = Inr r1" using Cons.IH by blast
        moreover obtain r2 where "maintain_files a (env_io demo_env) (Suc i) ns ?d = Inr r2" using Cons.IH by blast
        ultimately show ?thesis using Some by (cases r1; cases r2) (auto simp: Let_def)
      qed (use Cons.IH in simp)
    qed simp
    then show ?thesis by (fastforce simp: processReplication_def Let_def)
  qed
  obtain c' outs where 1: "processReplication [''c''] [''f''] (env_io demo_env) demo_restarted = Inr (c', outs)"
    using runs by blast
  obtain c'' outs2 where 2: "processReplication [''a'', ''b'', ''c''] [''f''] (env_io demo_env) (c'\<lparr>nodes := nodes demo_ready\<rparr>) = Inr (c'', outs2)"
    using runs by blast
  have inv: "ctrl_inv demo_restarted"
    using reachable_wal_inv [OF demo_stored_reachable] by (simp add: demo_restarted_def wal_inv_def)
  have cov: "covers [''c''] (nodes demo_restarted)" "covers [''f''] (files demo_restarted)" "nodes demo_restarted \<noteq> Map.empty"
    "files demo_restarted ''f'' = Some (demo_meta demo_full)" "0 < length (fm_chunks (demo_meta demo_full))"
    "\<forall>info \<in> ran (nodes demo_restarted). node_address info \<notin> set (chunk_nodes (fm_chunks (demo_meta demo_full) ! 0))"
    by (auto simp: demo_restarted_def covers_def demo_stored_def demo_ready_def newController_def demo_meta_def
        demo_chunk_def demo_node_def ran_def split: if_splits)
  have "covers [''f''] (files c')" using cov(2) processReplication_run(1) [OF 1 cov(1-3)] by (fastforce simp: covers_def dom_def)
  moreover have "covers [''a'', ''b'', ''c''] (nodes demo_ready)" "nodes demo_ready \<noteq> Map.empty"
    by (auto simp: covers_def demo_ready_def split: if_splits)
  ultimately show ?thesis using locations_forgotten [OF 1 inv cov 2] 1 2 by blast
qed

section \<open>Messages\<close>

text \<open>A message makes the controller panic exactly when it lacks a sub-message that its handler reads; every
  other message is handled to the end. A single malformed message therefore ends the controller process, since
  no handler recovers.\<close>

lemma malformed_message_panics:
  assumes "io_compact (env_io env 0) \<noteq> ReopenFails"
  shows "if nil_deref w c then handleConnection env w c = Inl Panic
    else \<exists>c' outs. handleConnection env w c = Inr (c', outs)"
  using handleConnection_panics handleConnection_runs [OF _ assms] by fastforce

theorem malformed_message_panics_witness:
  "handleConnection demo_env (Wrapper_RegistrationReq None) demo_ready = Inl Panic"
  using malformed_message_panics [of demo_env "Wrapper_RegistrationReq None" demo_ready]
  by (simp add: demo_env_def nil_deref_def)

text \<open>The cluster totals do not depend on the order in which the nodes are visited: they are the sums, modulo
  2 to the 64, of the used and free space of all registered nodes, each of which is listed once.\<close>

lemma node_stats:
  assumes "covers ord (nodes c)"
  shows "\<exists>infos. handleNodeStats ord c = (c, [Reply (SendNodeInfoResponse True ''Node info retrieved''
      (\<Sum>k \<in> dom (nodes c). usedSpace (the (nodes c k))) (\<Sum>k \<in> dom (nodes c). freeSpace (the (nodes c k))) infos)]) \<and>
    mset infos = image_mset (\<lambda>k. node_stat (the (nodes c k))) (mset_set (dom (nodes c)))"
proof -
  let ?ks = "range_keys ord (nodes c)"
  have "sum_list (map f ?ks) = sum f (dom (nodes c))" for f :: "string \<Rightarrow> u64"
    using assms by (simp add: sum_list_distinct_conv_sum_set)
  moreover have "mset ?ks = mset_set (dom (nodes c))"
    using assms by (metis distinct_range_keys mset_set_set set_range_keys_covers)
  ultimately show ?thesis
    by (intro exI [of _ "map (\<lambda>k. node_stat (the (nodes c k))) ?ks"]) (simp add: handleNodeStats_def Let_def comp_def)
qed

theorem node_stats_witness:
  "\<exists>infos. handleNodeStats [''a'', ''b'', ''c''] demo_ready = (demo_ready, [Reply (SendNodeInfoResponse True ''Node info retrieved''
      0 3000 infos)]) \<and> size (mset infos) = 3"
proof -
  have d: "dom (nodes demo_ready) = {''a'', ''b'', ''c''}" by (auto simp: demo_ready_def split: if_splits)
  then have "covers [''a'', ''b'', ''c''] (nodes demo_ready)" by (simp add: covers_def)
  from node_stats [OF this] obtain infos where
    run: "handleNodeStats [''a'', ''b'', ''c''] demo_ready = (demo_ready, [Reply (SendNodeInfoResponse True ''Node info retrieved''
      (\<Sum>k \<in> {''a'', ''b'', ''c''}. usedSpace (the (nodes demo_ready k)))
      (\<Sum>k \<in> {''a'', ''b'', ''c''}. freeSpace (the (nodes demo_ready k))) infos)])"
    and infos: "mset infos = image_mset (\<lambda>k. node_stat (the (nodes demo_ready k))) (mset_set {''a'', ''b'', ''c''})"
    unfolding d by blast
  have "size (mset infos) = 3" unfolding infos by simp
  moreover have "(\<Sum>k \<in> {''a'', ''b'', ''c''}. usedSpace (the (nodes demo_ready k))) = 0"
    "(\<Sum>k \<in> {''a'', ''b'', ''c''}. freeSpace (the (nodes demo_ready k))) = 3000"
    by (simp_all add: demo_ready_def demo_node_def)
  ultimately show ?thesis using run by metis
qed

text \<open>A failure report takes the node out of the chunk's locations, wherever the file is kept: the answer to
  the next GET request lists for that chunk exactly the other nodes, and all other chunks as before.\<close>

lemma failure_report_hides_copy:
  assumes run: "handleChunkStatusReport io req c = Inr (c', outs)" and inv: "ctrl_inv c"
    and req: "\<not> csr_success req" "csr_metadata req = Some md" "csr_node req = Some nd" "ci_id md = word_of_nat i"
    and m: "files c (ci_file_name md) = Some m" "i < length (fm_chunks m)"
  shows "\<exists>al. handleGetFile (Some \<lparr>fi_name = ci_file_name md, fi_size = sz\<rparr>) c' =
      Inr (c', [Reply (SendGetFileResponse True ''File found'' al (fm_size m))]) \<and> length al = length (fm_chunks m) \<and>
    (\<forall>j < length (fm_chunks m). map ni_address (cn_nodes (al ! j)) =
       (if j = i then filter (\<lambda>a. a \<noteq> ni_address nd) (chunk_nodes (fm_chunks m ! j)) else chunk_nodes (fm_chunks m ! j)))"
proof -
  have ok: "meta_ok m" using inv m(1) by (auto simp: ctrl_inv_def ran_def)
  let ?m = "map_chunk (word_of_nat i) (drop_node (ni_address nd)) m"
  have fail: "report_failure io (ci_file_name md) (word_of_nat i) (ni_address nd) c = Inr c'"
    using run req by (simp add: handleChunkStatusReport_def and_then_eq_Inr)
  then have files: "files c' (ci_file_name md) = Some ?m"
    by (cases rule: report_failure_cases)
      (use m find_chunk_nth [OF ok m(2)] in \<open>auto simp: ctrl_simps split: option.splits\<close>)
  have j: "word_of_nat i = (word_of_nat j :: u64) \<longleftrightarrow> j = i" if "j < length (fm_chunks m)" for j
    using ok m(2) that word_of_nat_inj64 [of i j] by (auto simp: meta_ok_def)
  have len: "length (fm_chunks ?m) = length (fm_chunks m)" by (simp add: map_chunk_def)
  show ?thesis
    using files map_chunk_nth [OF ok, of _ "word_of_nat i" "drop_node (ni_address nd)"] j
    by (auto simp: handleGetFile_def len) (auto simp: map_chunk_def drop_node_def)
qed

theorem failure_report_hides_copy_witness:
  "\<exists>c' al. handleChunkStatusReport (env_io demo_env 0) \<lparr>csr_metadata = Some (zero_ChunkInfo\<lparr>ci_id := 0, ci_file_name := ''f''\<rparr>),
       csr_success = False, csr_node = Some (zero_NodeInfo\<lparr>ni_address := ''a''\<rparr>)\<rparr> (demo_stored (demo_meta demo_full)) = Inr (c', []) \<and>
     handleGetFile (Some \<lparr>fi_name = ''f'', fi_size = 0\<rparr>) c' =
       Inr (c', [Reply (SendGetFileResponse True ''File found'' al 150)]) \<and> map ni_address (cn_nodes (al ! 0)) = []"
proof -
  let ?md = "zero_ChunkInfo\<lparr>ci_id := 0, ci_file_name := ''f''\<rparr>" and ?nd = "zero_NodeInfo\<lparr>ni_address := ''a''\<rparr>"
  let ?c = "demo_stored (demo_meta demo_full)"
  let ?req = "\<lparr>csr_metadata = Some ?md, csr_success = False, csr_node = Some ?nd\<rparr>"
  obtain c1 where r: "report_failure (env_io demo_env 0) ''f'' 0 ''a'' ?c = Inr c1"
    using report_failure_runs [of "env_io demo_env 0"] by (fastforce simp: demo_env_def)
  have run: "handleChunkStatusReport (env_io demo_env 0) ?req ?c = Inr (c1, [])"
    using r by (simp add: handleChunkStatusReport_def zero_ChunkInfo_def zero_NodeInfo_def)
  have inv: "ctrl_inv ?c" using reachable_wal_inv [OF demo_stored_reachable] by (simp add: wal_inv_def)
  have m: "\<not> csr_success ?req" "csr_metadata ?req = Some ?md" "csr_node ?req = Some ?nd" "ci_id ?md = word_of_nat 0"
    "files ?c (ci_file_name ?md) = Some (demo_meta demo_full)" "0 < length (fm_chunks (demo_meta demo_full))"
    by (simp_all add: demo_stored_def demo_meta_def)
  from failure_report_hides_copy [OF run inv m, of 0] obtain al where
    "handleGetFile (Some \<lparr>fi_name = ''f'', fi_size = 0\<rparr>) c1 = Inr (c1, [Reply (SendGetFileResponse True ''File found'' al 150)])"
    "map ni_address (cn_nodes (al ! 0)) = []"
    by (auto simp: demo_meta_def demo_chunk_def zero_NodeInfo_def)
  with run show ?thesis by blast
qed

end
