(* ===== verification/LogProps.thy ===== *)
theory LogProps
  imports ControllerDemo
begin

text \<open>
  Properties of the write-ahead log: the text of a record, compaction, and what damage costs.
\<close>

text \<open>A record written to the log is read back as it was, whatever characters its names contain: the JSON text
  of a record parses to exactly that record, is a single printable line, and a line that continues after it is
  rejected.\<close>

lemma record_round_trip:
  "json_unmarshal (json_marshal r) = Some r \<and> nl \<notin> set (json_marshal r) \<and>
   json_unmarshal (json_marshal r @ CHR ''{'' # s) = None"
  using json_unmarshal_marshal json_unmarshal_trailing [where r = r and rest = "CHR ''{'' # s"] printable_no_ctrl by simp

text \<open>C29: compaction preserves what the log means. Whatever outcome it has short of ending the process, a restart
  on the log it leaves behind recovers the same file table as before.\<close>

theorem compaction_preserves:
  assumes run: "compactWAL io c = Inr c'" and c: "reachable c" and io: "covers (io_range io) (files c)"
  shows "\<exists>c1 c2. start_controller (walDisk c) = Inr c1 \<and> start_controller (walDisk c') = Inr c2 \<and>
    files c2 = files c1 \<and> files c' = files c \<and>
    (io_compact io = CompactDone \<longrightarrow> walCount c' = int (card (dom (files c))))"
proof -
  have inv: "wal_inv c" "walOpen c" using reachable_wal_inv [OF c] by simp_all
  then have "wal_synced c'" using compactWAL_synced [OF run] io by (simp add: wal_inv_def ctrl_inv_def)
  moreover have same: "files c' = files c" "walOpen c'" using compactWAL_frame [OF run] inv by simp_all
  ultimately obtain log log' where logs: "walDisk c = Some log" "wal_replay log = files c"
    "walDisk c' = Some log'" "wal_replay log' = files c"
    using inv by (auto simp: wal_inv_def wal_synced_def)
  moreover have "walCount c' = int (card (dom (files c)))" if "io_compact io = CompactDone"
    using run that io by (auto simp: compactWAL_def length_range_keys)
  ultimately show ?thesis
    using start_controller_eq [of "walDisk c"] start_controller_eq [of "walDisk c'"] same
    by (auto simp: disk_replay_def)
qed

theorem compaction_preserves_witness:
  "\<exists>c' c2. compactWAL (env_io demo_env 0) (demo_stored (demo_meta demo_full)) = Inr c' \<and>
     start_controller (walDisk c') = Inr c2 \<and> walCount c' = 1"
proof -
  let ?c = "demo_stored (demo_meta demo_full)" and ?io = "env_io demo_env 0"
  have d: "dom (files ?c) = {''f''}" by (simp add: demo_stored_def)
  have io: "io_compact ?io = CompactDone" "covers (io_range ?io) (files ?c)"
    unfolding covers_def d by (simp_all add: demo_env_def)
  then obtain c' where run: "compactWAL ?io ?c = Inr c'" by (auto simp: compactWAL_def)
  from compaction_preserves [OF run demo_stored_reachable io(2)] io(1) d show ?thesis using run by auto
qed

text \<open>A write that fails just before the newline of its record costs the next record as well. The next append
  continues the unfinished line, so that a restart skips both: the deletion of a file, acknowledged to the
  client and correctly written, is undone.\<close>

lemma torn_write_undoes_delete:
  assumes log: "walDisk c = Some log" "wal_wf log" "wal_replay log = files c" "walOpen c"
    and m: "files c n = Some m" and count: "walCount c < 999"
    and torn: "io_write io1 = Some (length (json_marshal (wal_record op n1 p)))"
      "appendWalRecord io1 op n1 p c = Inr c1"
    and del: "io_write io2 = None" "fi_name md = n" "handleDeleteFile io2 (Some md) c1 = Inr (c2, outs)"
    and short: "length (json_marshal (wal_record op n1 p)) + length (json_marshal (wal_record ''DELETE'' n None)) < wal_limit"
  shows "last outs = Reply (SendResponse True ''File deleted successfully'') \<and> files c2 n = None \<and>
    (\<exists>c3. start_controller (walDisk c2) = Inr c3 \<and> files c3 n = Some m)"
proof -
  let ?r1 = "wal_record op n1 p" and ?r2 = "wal_record ''DELETE'' n None"
  have c1: "c1 = c\<lparr>walDisk := Some (log @ json_marshal ?r1)\<rparr>"
    using torn log by (simp add: appendWalRecord_def disk_bytes_def Let_def)
  then obtain c2' where app: "appendWalRecord io2 ''DELETE'' n None (c1\<lparr>files := (files c)(n := None)\<rparr>) = Inr c2'"
    and c2: "c2 = c2'" "outs = delete_messages n m @ [Reply (SendResponse True ''File deleted successfully'')]"
    using del m by (auto simp: handleDeleteFile_def and_then_eq_Inr)
  have disk: "walDisk c2 = Some (log @ (json_marshal ?r1 @ json_marshal ?r2) @ [nl])"
    using app c2(1) del(1) count log(4) by (auto simp: c1 appendWalRecord_def disk_bytes_def Let_def)
  have brace: "json_marshal ?r2 = CHR ''{'' # tl (json_marshal ?r2)"
    by (simp add: json_marshal_def enc_record_def)
  have "last (json_marshal ?r1 @ json_marshal ?r2) \<noteq> cr"
    using marshal_last [of ?r2] brace by (metis last_appendR list.distinct(1))
  then have "drop_cr (json_marshal ?r1 @ json_marshal ?r2) = json_marshal ?r1 @ json_marshal ?r2"
    by (rule drop_cr_last)
  moreover have "json_unmarshal (json_marshal ?r1 @ json_marshal ?r2) = None"
    using json_unmarshal_trailing [where r = ?r1 and rest = "json_marshal ?r2"] brace by (metis list.distinct(1))
  ultimately have "wal_replay (log @ (json_marshal ?r1 @ json_marshal ?r2) @ [nl]) = wal_replay log"
    using short printable_no_ctrl by (intro replay_garbage [OF log(2)]) simp_all
  then have "\<exists>c3. start_controller (walDisk c2) = Inr c3 \<and> files c3 n = Some m"
    using start_controller_eq [of "walDisk c2"] disk log(3) m by (auto simp: disk_replay_def)
  moreover have "files c2 n = None" using appendWalRecord_frame(2) [OF app] c2(1) by simp
  ultimately show ?thesis using c2 by simp
qed

definition demo_torn_io :: "wal_io" where
  "demo_torn_io = \<lparr>io_write = Some (length (json_marshal (wal_record ''PUT'' ''f'' (Some (demo_meta demo_full))))),
     io_compact = CompactDone, io_range = []\<rparr>"

theorem torn_write_undoes_delete_witness:
  "\<exists>c1 c2 outs c3. appendWalRecord demo_torn_io ''PUT'' ''f'' (Some (demo_meta demo_full)) (demo_stored (demo_meta demo_full)) = Inr c1 \<and>
     handleDeleteFile (env_io demo_env 0) (Some \<lparr>fi_name = ''f'', fi_size = 0\<rparr>) c1 = Inr (c2, outs) \<and> files c2 ''f'' = None \<and>
     start_controller (walDisk c2) = Inr c3 \<and> files c3 ''f'' = Some (demo_meta demo_full)"
proof -
  let ?c = "demo_stored (demo_meta demo_full)" and ?md = "\<lparr>fi_name = ''f'', fi_size = 0\<rparr>" and ?io = "env_io demo_env 0"
  have "wal_inv ?c" "walOpen ?c" using reachable_wal_inv [OF demo_stored_reachable] by simp_all
  then obtain log where log: "walDisk ?c = Some log" "wal_wf log" "wal_replay log = files ?c" "walOpen ?c"
    by (auto simp: wal_inv_def wal_synced_def)
  have c: "files ?c ''f'' = Some (demo_meta demo_full)" "walCount ?c < 999" by (simp_all add: demo_stored_def)
  have torn: "io_write demo_torn_io = Some (length (json_marshal (wal_record ''PUT'' ''f'' (Some (demo_meta demo_full)))))"
    by (simp add: demo_torn_io_def)
  obtain c1 where c1: "appendWalRecord demo_torn_io ''PUT'' ''f'' (Some (demo_meta demo_full)) ?c = Inr c1"
    using appendWalRecord_runs [of demo_torn_io] by (fastforce simp: demo_torn_io_def)
  obtain r where r: "handleDeleteFile ?io (Some ?md) c1 = Inr r"
    using handleConnection_runs [of "Wrapper_DeleteFileReq (Some ?md)" c1 demo_env]
    by (auto simp: nil_deref_def demo_env_def)
  then obtain c2 outs where del: "handleDeleteFile ?io (Some ?md) c1 = Inr (c2, outs)" by (cases r) simp
  have io: "io_write ?io = None" "fi_name ?md = ''f''" by (simp_all add: demo_env_def)
  have short: "length (json_marshal (wal_record ''PUT'' ''f'' (Some (demo_meta demo_full)))) +
      length (json_marshal (wal_record ''DELETE'' ''f'' None)) < wal_limit"
    by (simp add: wal_record_def json_marshal_def enc_record_def toWalFileMeta_def
        enc_meta_def enc_list_def enc_chunk_def to_wal_chunk_def demo_meta_def demo_chunk_def second_def
        enc_u64_def enc_u32_def enc_time_def enc_checksum_def enc_string_def enc_char_def dec_str.simps wal_limit_def)
  show ?thesis using torn_write_undoes_delete [OF log c torn c1 io del short] c1 del by blast
qed

text \<open>A record that does not fit the ten megabytes of the recovery's line buffer hides everything written
  after it: a restart recovers the file table as it was before that record.\<close>

lemma long_record_hides_log:
  assumes "wal_wf log" "wal_limit \<le> length (json_marshal r)"
  shows "\<exists>c. start_controller (Some (fold append_line (r # rs) log)) = Inr c \<and> files c = wal_replay log"
proof -
  have "fold append_line (r # rs) log = log @ json_marshal r @ nl # write_lines json_marshal rs"
    by (simp add: fold_append_line append_line_def)
  then have "wal_replay (fold append_line (r # rs) log) = wal_replay log"
    using replay_long_line [OF assms(1) _ assms(2)] printable_no_ctrl by simp
  then show ?thesis using start_controller_eq [of "Some (fold append_line (r # rs) log)"] by (auto simp: disk_replay_def)
qed

text \<open>The longest file name a record can be asked to carry is not bounded by the controller.\<close>

definition demo_long_name :: string where
  "demo_long_name = replicate wal_limit (CHR ''n'')"

definition demo_long_meta :: fileMetadata where
  "demo_long_meta = (demo_meta demo_full)\<lparr>fm_name := demo_long_name\<rparr>"

theorem long_record_hides_log_witness:
  "\<exists>c. start_controller (Some (fold append_line [wal_record ''PUT'' demo_long_name (Some demo_long_meta),
       wal_record ''PUT'' ''f'' (Some (demo_meta demo_full))] [])) = Inr c \<and> files c ''f'' = None"
proof -
  let ?r = "wal_record ''PUT'' demo_long_name (Some demo_long_meta)"
  have "wal_limit \<le> length (json_marshal ?r)"
    using record_longer_than_name [of ?r] by (simp add: wal_record_def demo_long_name_def)
  from long_record_hides_log [OF wal.wf_empty this] show ?thesis using wal.replay_empty by fastforce
qed

end
