(* ===== verification/ChunkStore.thy ===== *)
theory ChunkStore
  imports DfsMessages
begin

text \<open>
  A storage node (\<open>dfs/server/server.go\<close>): chunks and their checksum files on disk, storing, retrieving,
  verifying and deleting them. A store request is two steps, because other requests run between them: the
  first opens (and so truncates) the chunk file, the second writes what was received. Errors of the operating
  system and the bytes that arrive are inputs; MD5 is an argument. A directory is named by the base name of
  the DFS file.
\<close>

section \<open>The file system\<close>

text \<open>
  A path is a directory and a name. A name leads to a file, which open handles share with it: removing
  the name leaves the handles with a file nobody else sees.
\<close>

datatype path = Path (path_dir: string) (path_name: string)

record node_fs =
  fs_dirs :: "string set"
  fs_names :: "path \<rightharpoonup> nat"
  fs_data :: "nat \<Rightarrow> bytes"
  fs_next :: nat

definition content_at :: "node_fs \<Rightarrow> path \<Rightarrow> bytes option" where
  "content_at fs p = map_option (fs_data fs) (fs_names fs p)"

text \<open>\<open>os.OpenFile\<close> with \<open>O_CREATE|O_WRONLY|O_TRUNC\<close>.\<close>

definition open_trunc :: "path \<Rightarrow> node_fs \<Rightarrow> nat \<times> node_fs" where
  "open_trunc p fs = (case fs_names fs p of
      Some h \<Rightarrow> (h, fs\<lparr>fs_data := (fs_data fs)(h := [])\<rparr>)
    | None \<Rightarrow> (fs_next fs, fs\<lparr>fs_names := (fs_names fs)(p \<mapsto> fs_next fs),
        fs_data := (fs_data fs)(fs_next fs := []), fs_next := Suc (fs_next fs)\<rparr>))"

text \<open>Writing through a handle from the start of the file.\<close>

definition write_handle :: "nat \<Rightarrow> bytes \<Rightarrow> node_fs \<Rightarrow> node_fs" where
  "write_handle h data fs = fs\<lparr>fs_data := (fs_data fs)(h := data @ drop (length data) (fs_data fs h))\<rparr>"

definition remove_file :: "path \<Rightarrow> node_fs \<Rightarrow> node_fs" where
  "remove_file p fs = fs\<lparr>fs_names := (fs_names fs)(p := None)\<rparr>"

definition make_dir :: "string \<Rightarrow> node_fs \<Rightarrow> node_fs" where
  "make_dir d fs = fs\<lparr>fs_dirs := insert d (fs_dirs fs)\<rparr>"

definition remove_dir :: "string \<Rightarrow> node_fs \<Rightarrow> node_fs" where
  "remove_dir d fs = fs\<lparr>fs_dirs := fs_dirs fs - {d},
     fs_names := (\<lambda>p. if path_dir p = d then None else fs_names fs p)\<rparr>"

text \<open>\<open>os.WriteFile\<close>: it fails when the directory is gone, or for the reasons the input gives.\<close>

definition write_file :: "bool \<Rightarrow> path \<Rightarrow> bytes \<Rightarrow> node_fs \<Rightarrow> node_fs option" where
  "write_file ok p data fs =
     (if ok \<and> path_dir p \<in> fs_dirs fs then (case open_trunc p fs of (h, fs') \<Rightarrow> Some (write_handle h data fs')) else None)"

definition baseChunkFilename :: string where
  "baseChunkFilename = ''chunk_''"

definition checksumFileExt :: string where
  "checksumFileExt = ''.chksum''"

definition chunkPath :: "string \<Rightarrow> u64 \<Rightarrow> path" where
  "chunkPath baseFileName cid = Path baseFileName (baseChunkFilename @ dec_str (unat cid))"

definition checksumPath :: "path \<Rightarrow> path" where
  "checksumPath p = Path (path_dir p) (path_name p @ checksumFileExt)"

section \<open>The node\<close>

record storage_node =
  myAddr :: string
  disk :: node_fs
  activeWrites :: "path set"
  activeRequests :: u64

record replication_job =
  rj_fileName :: string
  rj_chunkID :: u64
  rj_size :: u32
  rj_checksum :: bytes
  rj_chunkPath :: path
  rj_required :: u32

text \<open>
  What a handler sends and starts: an answer on the connection, raw bytes on it, a status report on a new
  connection to the controller (lost when it cannot be reached), a goroutine.
\<close>

datatype srv_out =
    Answer wrapper
  | RawBytes bytes
  | Report wrapper
  | GoManageReplication replication_job
  | GoRepairChunk string u64

definition VerifyChecksum :: "bytes \<Rightarrow> bytes \<Rightarrow> bool" where
  "VerifyChecksum serverCheck clientCheck \<longleftrightarrow> clientCheck = serverCheck"

definition node_replicationFactor :: u32 where
  "node_replicationFactor = 3"

definition reportStatus :: "ChunkInfo \<Rightarrow> bool \<Rightarrow> storage_node \<Rightarrow> srv_out" where
  "reportStatus md success s =
     Report (SendChunkStatusReport (path_base (ci_file_name md)) (ci_id md) success (myAddr s))"

section \<open>Storing a chunk\<close>

record store_env =
  se_freeSpace :: u64
  se_mkdirErr :: "string option"
  se_openErr :: "string option"

definition chunk_path_of :: "ChunkInfo \<Rightarrow> path" where
  "chunk_path_of md = chunkPath (path_base (ci_file_name md)) (ci_id md)"

text \<open>Up to the first answer. The result has the handle of the opened file, if the request goes on.\<close>

definition store_begin ::
    "store_env \<Rightarrow> StoreChunkRequest \<Rightarrow> storage_node \<Rightarrow> (storage_node \<times> srv_out list \<times> nat option) result" where
  "store_begin env req s = and_then (deref (scr_metadata req)) (\<lambda>md.
     let reject = (\<lambda>msg s. Inr (s, [Answer (SendResponse False msg), reportStatus md False s], None)) in
     if se_freeSpace env < ucast (ci_size md) then reject ''Insufficient disk space'' s
     else (case se_mkdirErr env of
       Some err \<Rightarrow> reject (''Failed to create file directory: '' @ err) s
     | None \<Rightarrow>
         let s1 = s\<lparr>disk := make_dir (path_base (ci_file_name md)) (disk s)\<rparr> in
         (case se_openErr env of
           Some err \<Rightarrow> reject (''Failed to create chunk file: '' @ err)
             (s1\<lparr>activeWrites := activeWrites s - {chunk_path_of md}\<rparr>)
         | None \<Rightarrow> (case open_trunc (chunk_path_of md) (disk s1) of (h, fs) \<Rightarrow>
             Inr (s1\<lparr>disk := fs, activeWrites := insert (chunk_path_of md) (activeWrites s),
                     activeRequests := activeRequests s + 1\<rparr>,
                  [Answer (SendResponse True ''Ready to receive chunk data'')], Some h)))))"

text \<open>
  What arrives: the bytes of the connection up to its end, and whether writing them to disk fails. At most
  \<open>Size\<close> bytes are taken; fewer are an error.
\<close>

record store_input =
  si_stream :: bytes
  si_writeFails :: bool
  si_checksumWritten :: bool

definition store_finish ::
    "(bytes \<Rightarrow> bytes) \<Rightarrow> store_input \<Rightarrow> StoreChunkRequest \<Rightarrow> nat \<Rightarrow> storage_node \<Rightarrow> (storage_node \<times> srv_out list) result" where
  "store_finish md5 inp req h s = and_then (deref (scr_metadata req)) (\<lambda>md.
     let p = chunk_path_of md;
         data = take (unat (ci_size md)) (si_stream inp);
         fs = write_handle h data (disk s);
         done = (\<lambda>fs. s\<lparr>disk := fs, activeWrites := activeWrites s - {p}, activeRequests := activeRequests s - 1\<rparr>)
     in if length data < unat (ci_size md) \<or> si_writeFails inp then
          Inr (done (remove_file p fs), [reportStatus md False s])
        else if \<not> VerifyChecksum (md5 data) (ci_checksum md) then
          Inr (done (remove_file p fs), [Answer (SendResponse False ''Checksum mismatch''), reportStatus md False s])
        else (case write_file (si_checksumWritten inp) (checksumPath p) (md5 data) fs of
          None \<Rightarrow> Inr (done (remove_file (checksumPath p) (remove_file p fs)),
            [Answer (SendResponse False ''Failed to save metadata''), reportStatus md False s])
        | Some fs' \<Rightarrow> Inr (done fs',
            [Answer (SendResponse True ''Chunk stored successfully''), reportStatus md True s] @
            (if scr_is_original req then
               [GoManageReplication \<lparr>rj_fileName = path_base (ci_file_name md), rj_chunkID = ci_id md,
                  rj_size = ci_size md, rj_checksum = md5 data, rj_chunkPath = p,
                  rj_required = node_replicationFactor - 1\<rparr>]
             else []))))"

definition handleStoreChunk ::
    "(bytes \<Rightarrow> bytes) \<Rightarrow> store_env \<Rightarrow> store_input \<Rightarrow> StoreChunkRequest \<Rightarrow> storage_node \<Rightarrow> (storage_node \<times> srv_out list) result" where
  "handleStoreChunk md5 env inp req s = and_then (store_begin env req s) (\<lambda>(s1, outs, h).
     case h of
       None \<Rightarrow> Inr (s1, outs)
     | Some h \<Rightarrow> and_then (store_finish md5 inp req h s1) (\<lambda>(s2, outs2). Inr (s2, outs @ outs2)))"

section \<open>Reading chunks\<close>

text \<open>A verdict, the checksum of what is on disk, and its size in 32 bits.\<close>

definition verifyChunkIntegrity :: "(bytes \<Rightarrow> bytes) \<Rightarrow> string \<Rightarrow> u64 \<Rightarrow> node_fs \<Rightarrow> bool \<times> bytes \<times> u32" where
  "verifyChunkIntegrity md5 fileName cid fs =
     (let p = chunkPath (path_base fileName) cid in
      case content_at fs p of
        None \<Rightarrow> (False, [], 0)
      | Some data \<Rightarrow> (case content_at fs (checksumPath p) of
          None \<Rightarrow> (False, [], 0)
        | Some metaData \<Rightarrow> (VerifyChecksum (md5 data) metaData, md5 data, word_of_nat (length data))))"

text \<open>The first input is the error with which the file that was just verified cannot be opened again.\<close>

definition handleRetrieveChunk ::
    "(bytes \<Rightarrow> bytes) \<Rightarrow> string option \<Rightarrow> ChunkInfo option \<Rightarrow> storage_node \<Rightarrow> srv_out list result" where
  "handleRetrieveChunk md5 openErr req s = and_then (deref req) (\<lambda>md.
     if chunk_path_of md \<in> activeWrites s then
       Inr [Answer (SendRetrieveChunkResponse False ''Chunk is currently being written'' 0 [])]
     else (case verifyChunkIntegrity md5 (ci_file_name md) (ci_id md) (disk s) of (ok, checksum, sz) \<Rightarrow>
       if \<not> ok then Inr [Answer (SendRetrieveChunkResponse False ''Chunk corrupted'' 0 []),
                         GoRepairChunk (ci_file_name md) (ci_id md)]
       else Inr (case openErr of
           Some err \<Rightarrow> [Answer (SendRetrieveChunkResponse False (''Chunk not found: '' @ err) 0 [])]
         | None \<Rightarrow> [Answer (SendRetrieveChunkResponse True ''Ready to send chunk data'' sz checksum),
             RawBytes (take (unat sz) (the (content_at (disk s) (chunk_path_of md))))])))"

definition handleDispatchReplicaTask :: "DispatchReplicaTask \<Rightarrow> storage_node \<Rightarrow> srv_out list result" where
  "handleDispatchReplicaTask req s = and_then (deref (drt_metadata req)) (\<lambda>md.
     Inr (case content_at (disk s) (chunk_path_of md) of
       None \<Rightarrow> []
     | Some data \<Rightarrow> [GoManageReplication \<lparr>rj_fileName = path_base (ci_file_name md), rj_chunkID = ci_id md,
         rj_size = word_of_nat (length data),
         rj_checksum = (case content_at (disk s) (checksumPath (chunk_path_of md)) of None \<Rightarrow> [] | Some c \<Rightarrow> c),
         rj_chunkPath = chunk_path_of md, rj_required = drt_count req\<rparr>]))"

text \<open>Deleting a file: the input is the error of \<open>os.RemoveAll\<close>, which leaves the files where they are here.\<close>

definition node_handleDeleteFile ::
    "string option \<Rightarrow> FileInfo option \<Rightarrow> storage_node \<Rightarrow> (storage_node \<times> srv_out list) result" where
  "node_handleDeleteFile err req s = and_then (deref req) (\<lambda>md.
     case err of
       Some e \<Rightarrow> Inr (s, [Answer (SendResponse False (''Failed to delete file: '' @ e))])
     | None \<Rightarrow> Inr (s\<lparr>disk := remove_dir (path_base (fi_name md)) (disk s)\<rparr>,
         [Answer (SendResponse True ''File deleted successfully'')]))"

section \<open>Dispatch\<close>

record srv_env =
  sv_md5 :: "bytes \<Rightarrow> bytes"
  sv_store :: store_env
  sv_input :: store_input
  sv_reopenErr :: "string option"
  sv_removeErr :: "string option"
  sv_typeName :: string

text \<open>One message of \<open>handleClient\<close>; \<open>None\<close> ends the connection. The text of an unexpected type comes from Go.\<close>

fun handleClient :: "srv_env \<Rightarrow> wrapper \<Rightarrow> storage_node \<Rightarrow> (storage_node \<times> srv_out list) option result" where
  "handleClient env (Wrapper_StoreChunkReq req) s =
     and_then (handleStoreChunk (sv_md5 env) (sv_store env) (sv_input env) req s) (\<lambda>r. Inr (Some r))"
| "handleClient env (Wrapper_RetrieveChunkReq req) s =
     and_then (handleRetrieveChunk (sv_md5 env) (sv_reopenErr env) req s) (\<lambda>outs. Inr (Some (s, outs)))"
| "handleClient env (Wrapper_DeleteFileReq req) s =
     and_then (node_handleDeleteFile (sv_removeErr env) req s) (\<lambda>r. Inr (Some r))"
| "handleClient env (Wrapper_DispatchReplicaTask req) s =
     and_then (handleDispatchReplicaTask req s) (\<lambda>outs. Inr (Some (s, outs)))"
| "handleClient env Wrapper_Nil s = Inr None"
| "handleClient env _ s =
     Inr (Some (s, [Answer (SendResponse False (''Unexpected message type: '' @ sv_typeName env))]))"

end
