(* ===== verification/Replication.thy ===== *)
theory Replication
  imports ChunkStore
begin

text \<open>
  The background work of a storage node (\<open>dfs/server/server.go\<close>): copying a chunk to other nodes until
  enough copies exist, repairing a damaged chunk from other nodes, the scrubber, and the replies that steer
  registration and heartbeats. What the network does in each attempt is an input.
\<close>

section \<open>Copying a chunk to another node\<close>

text \<open>An answer that arrived and says ok.\<close>

definition ok_response :: "wrapper option \<Rightarrow> bool" where
  "ok_response w = (case w of None \<Rightarrow> False | Some w \<Rightarrow>
     (case GetResponse w of None \<Rightarrow> False | Some r \<Rightarrow> resp_ok r))"

text \<open>
  One attempt: the three tries to open the file, the connection and the two answers, and what is read
  from the open file while it is sent.
\<close>

record peer_session =
  ps_opened :: "bool list"
  ps_dialled :: bool
  ps_requestSent :: bool
  ps_ready :: "wrapper option"
  ps_content :: bytes
  ps_dataSent :: bool
  ps_final :: "wrapper option"

definition replicate_chunk :: "u32 \<Rightarrow> peer_session \<Rightarrow> bool" where
  "replicate_chunk sz p \<longleftrightarrow> True \<in> set (take 3 (ps_opened p)) \<and> ps_dialled p \<and> ps_requestSent p \<and>
     ok_response (ps_ready p) \<and> unat sz \<le> length (ps_content p) \<and> ps_dataSent p \<and> ok_response (ps_final p)"

text \<open>The bytes that reach the other node: at most the announced size.\<close>

definition replicated_bytes :: "u32 \<Rightarrow> peer_session \<Rightarrow> bytes" where
  "replicated_bytes sz p = take (unat sz) (ps_content p)"

text \<open>The loop over the nodes of one answer; the nodes that took a copy are collected.\<close>

fun replicate_to :: "u32 \<Rightarrow> (string \<Rightarrow> peer_session) \<Rightarrow> u32 \<Rightarrow> string list \<Rightarrow> u32 \<times> string list" where
  "replicate_to sz peers required [] = (required, [])"
| "replicate_to sz peers required (addr # addrs) =
     (if replicate_chunk sz (peers addr) then
        if required - 1 = 0 then (0, [addr])
        else (case replicate_to sz peers (required - 1) addrs of (r, stored) \<Rightarrow> (r, addr # stored))
      else replicate_to sz peers required addrs)"

text \<open>
  A round of \<open>manageReplication\<close>: the controller cannot be asked, or it answers. The loop runs as long as
  copies are missing; the rounds it takes are the input, and the result is what is still required then.
\<close>

datatype repl_round =
    NoAnswer
  | Answered wrapper "string \<Rightarrow> peer_session"

definition round_nodes :: "wrapper \<Rightarrow> string list" where
  "round_nodes w = (case GetReplicaNodesResp w of
      None \<Rightarrow> []
    | Some resp \<Rightarrow> (case rnp_resp resp of
        None \<Rightarrow> []
      | Some r \<Rightarrow> if resp_ok r then map ni_address (rnp_nodes resp) else []))"

fun manageReplication :: "u32 \<Rightarrow> u32 \<Rightarrow> repl_round list \<Rightarrow> u32 \<times> string list" where
  "manageReplication sz required [] = (required, [])"
| "manageReplication sz required (r # rs) =
     (if required = 0 then (0, [])
      else (case r of
        NoAnswer \<Rightarrow> manageReplication sz required rs
      | Answered w peers \<Rightarrow> (case replicate_to sz peers required (round_nodes w) of (left, stored) \<Rightarrow>
          (case manageReplication sz left rs of (left', stored') \<Rightarrow> (left', stored @ stored')))))"

section \<open>Repairing a chunk\<close>

text \<open>The addresses, other than this node's own, of the first location with the chunk's id.\<close>

fun healthy_nodes :: "string \<Rightarrow> u64 \<Rightarrow> ChunkLocation list \<Rightarrow> string list result" where
  "healthy_nodes me cid [] = Inr []"
| "healthy_nodes me cid (loc # locs) = and_then (deref (cn_metadata loc)) (\<lambda>md.
     if ci_id md = cid then Inr (filter (\<lambda>a. a \<noteq> me) (map ni_address (cn_nodes loc)))
     else healthy_nodes me cid locs)"

text \<open>What a peer does when asked for the chunk: its answer, and the bytes that follow it.\<close>

record peer_pull =
  pp_dialled :: bool
  pp_answer :: "wrapper option"
  pp_stream :: bytes
  pp_openFails :: bool
  pp_writeFails :: bool
  pp_checksumWritten :: bool

datatype pulled = Skipped | Failed | Repaired

text \<open>Receiving the chunk over the truncated file, and keeping it if it is complete and has the peer's checksum.\<close>

definition pull_data :: "(bytes \<Rightarrow> bytes) \<Rightarrow> path \<Rightarrow> peer_pull \<Rightarrow> ChunkInfo \<Rightarrow> node_fs \<Rightarrow> node_fs \<times> pulled" where
  "pull_data md5 p peer md fs = (case open_trunc p fs of (h, fs1) \<Rightarrow>
     let data = take (unat (ci_size md)) (pp_stream peer);
         fs2 = write_handle h data fs1
     in if length data = unat (ci_size md) \<and> \<not> pp_writeFails peer \<and> VerifyChecksum (md5 data) (ci_checksum md)
        then (case write_file (pp_checksumWritten peer) (checksumPath p) (ci_checksum md) fs2 of
            None \<Rightarrow> fs2 | Some fs3 \<Rightarrow> fs3, Repaired)
        else (remove_file p fs2, Failed))"

definition pull_from :: "(bytes \<Rightarrow> bytes) \<Rightarrow> path \<Rightarrow> peer_pull \<Rightarrow> node_fs \<Rightarrow> (node_fs \<times> pulled) result" where
  "pull_from md5 p peer fs =
     (if \<not> pp_dialled peer then Inr (fs, Skipped)
      else (case pp_answer peer of
        None \<Rightarrow> Inr (fs, Skipped)
      | Some w \<Rightarrow> (case GetRetrieveChunkResp w of
          None \<Rightarrow> Inr (fs, Skipped)
        | Some resp \<Rightarrow> and_then (deref (rcr_resp resp)) (\<lambda>r.
            if \<not> resp_ok r then Inr (fs, Skipped)
            else if pp_openFails peer \<or> path_dir p \<notin> fs_dirs fs then Inr (fs, Failed)
            else and_then (deref (rcr_metadata resp)) (\<lambda>md. Inr (pull_data md5 p peer md fs))))))"

text \<open>The loop over the peers; the first flag says whether the path was ever marked as being written.\<close>

fun pull_loop ::
    "(bytes \<Rightarrow> bytes) \<Rightarrow> path \<Rightarrow> (string \<Rightarrow> peer_pull) \<Rightarrow> string list \<Rightarrow> bool \<Rightarrow> node_fs \<Rightarrow> (node_fs \<times> bool \<times> bool) result" where
  "pull_loop md5 p peers [] marked fs = Inr (fs, marked, False)"
| "pull_loop md5 p peers (addr # addrs) marked fs = and_then (pull_from md5 p (peers addr) fs) (\<lambda>(fs', r).
     if r = Repaired then Inr (fs', True, True)
     else pull_loop md5 p peers addrs (marked \<or> r = Failed) fs')"

text \<open>
  The whole repair. \<open>None\<close> for the controller: it cannot be reached; otherwise its answer to the GET request,
  \<open>None\<close> if none arrives. The second flag says whether it can be reached again at the end.
\<close>

definition repairChunk ::
    "(bytes \<Rightarrow> bytes) \<Rightarrow> wrapper option option \<Rightarrow> bool \<Rightarrow> (string \<Rightarrow> peer_pull) \<Rightarrow> string \<Rightarrow> u64 \<Rightarrow> storage_node \<Rightarrow>
      (storage_node \<times> srv_out list) result" where
  "repairChunk md5 controller again peers fileName cid s = (case controller of
      None \<Rightarrow> Inr (s, [])
    | Some answer \<Rightarrow>
        let failed = Report (SendChunkStatusReport fileName cid False (myAddr s)) in
        (case answer of
          None \<Rightarrow> Inr (s, [failed])
        | Some w \<Rightarrow> (case GetGetFileResp w of
            None \<Rightarrow> Inr (s, [failed])
          | Some resp \<Rightarrow> and_then (healthy_nodes (myAddr s) cid (gfr_locations resp)) (\<lambda>healthyNodes.
              if healthyNodes = [] then Inr (s, [failed])
              else let p = chunkPath (path_base fileName) cid in
                and_then (pull_loop md5 p peers healthyNodes False (disk s))
                (\<lambda>(fs, marked, success). Inr (s\<lparr>disk := fs,
                  activeWrites := (if marked then activeWrites s - {p} else activeWrites s)\<rparr>, failed #
                  (if success \<and> again then [Report (SendChunkStatusReport fileName cid True (myAddr s))] else [])))))))"

section \<open>The scrubber\<close>

text \<open>One round over the directory listing: the chunks it finds damaged, each repaired in a goroutine.\<close>

definition scrub_file :: "(bytes \<Rightarrow> bytes) \<Rightarrow> storage_node \<Rightarrow> path \<Rightarrow> srv_out list" where
  "scrub_file md5 s p =
     (if has_prefix (path_name p) baseChunkFilename \<and> \<not> has_suffix (path_name p) checksumFileExt then
        (case parse_uint 64 (drop (length baseChunkFilename) (path_name p)) of
          None \<Rightarrow> []
        | Some n \<Rightarrow>
            if p \<in> activeWrites s then []
            else if \<not> fst (verifyChunkIntegrity md5 (path_dir p) (word_of_nat n) (disk s))
            then [GoRepairChunk (path_dir p) (word_of_nat n)] else [])
      else [])"

definition runScrubber :: "(bytes \<Rightarrow> bytes) \<Rightarrow> path list \<Rightarrow> storage_node \<Rightarrow> srv_out list" where
  "runScrubber md5 listing s = concat (map (scrub_file md5 s) listing)"

section \<open>Registration and heartbeats\<close>

text \<open>The node's id and address from its host name and port.\<close>

definition node_identity :: "string \<Rightarrow> string \<Rightarrow> string \<times> string" where
  "node_identity hostname myPort =
     (hd (split_on (CHR ''.'') hostname) @ '':'' @ myPort, hostname @ '':'' @ myPort)"

text \<open>One attempt to register: \<open>None\<close> for no connection or no answer; it is repeated until it succeeds.\<close>

definition registered :: "wrapper option \<Rightarrow> bool" where
  "registered w = ok_response w"

text \<open>What a heartbeat's answer makes the node do.\<close>

datatype heartbeat_next = Reconnect | Reregister | SleepAndRepeat

definition heartbeat_answer :: "wrapper option \<Rightarrow> heartbeat_next" where
  "heartbeat_answer w = (case w of
      None \<Rightarrow> Reconnect
    | Some w \<Rightarrow> (case GetResponse w of
        None \<Rightarrow> SleepAndRepeat
      | Some r \<Rightarrow> if resp_ok r then SleepAndRepeat else Reregister))"

definition heartbeat_message :: "string \<Rightarrow> u64 \<Rightarrow> u64 \<Rightarrow> storage_node \<Rightarrow> wrapper" where
  "heartbeat_message nodeID usedSpace freeSpace s = SendHeartbeat nodeID usedSpace freeSpace (activeRequests s)"

end
