(* ===== verification/StoreInv.thy ===== *)
theory StoreInv
  imports Replication
begin

text \<open>
  Lemmas on the disk of a storage node, the step relation of a node on which stores are interleaved with other
  requests, and its invariant: a chunk that is not being written matches its checksum file.
\<close>

section \<open>Paths\<close>

lemma chunkPath_inj [simp]: "chunkPath d cid = chunkPath d' cid' \<longleftrightarrow> d = d' \<and> cid = cid'"
  by (auto simp: chunkPath_def dec_str_inj word_unat_eq_iff)

lemma dir_chunkPath [simp]: "path_dir (chunkPath d cid) = d"
  by (simp add: chunkPath_def)

lemma dir_checksumPath [simp]: "path_dir (checksumPath p) = path_dir p"
  by (simp add: checksumPath_def)

lemma checksumPath_inj [simp]: "checksumPath p = checksumPath q \<longleftrightarrow> p = q"
  by (cases p; cases q) (auto simp: checksumPath_def)

lemma chunkPath_not_checksum [simp]: "chunkPath d cid \<noteq> checksumPath (chunkPath d' cid')"
proof
  assume "chunkPath d cid = checksumPath (chunkPath d' cid')"
  then have "dec_str (unat cid) = dec_str (unat cid') @ checksumFileExt"
    by (simp add: chunkPath_def checksumPath_def)
  then have "CHR ''.'' \<in> set (dec_str (unat cid))" by (simp add: checksumFileExt_def)
  then show False using dec_str_digits [of "unat cid"] by (auto simp: is_digit_def)
qed

lemma checksum_not_chunkPath [simp]: "checksumPath (chunkPath d' cid') \<noteq> chunkPath d cid"
  using chunkPath_not_checksum by metis

section \<open>The file system\<close>

definition fs_ok :: "node_fs \<Rightarrow> bool" where
  "fs_ok fs \<longleftrightarrow> (\<forall>p h. fs_names fs p = Some h \<longrightarrow> h < fs_next fs) \<and>
     (\<forall>p q h. fs_names fs p = Some h \<longrightarrow> fs_names fs q = Some h \<longrightarrow> p = q)"

lemma fs_okD: "fs_ok fs \<Longrightarrow> fs_names fs p = Some h \<Longrightarrow> fs_names fs q = Some h \<Longrightarrow> p = q"
  unfolding fs_ok_def by blast

lemma fs_ok_fresh: "fs_ok fs \<Longrightarrow> fs_names fs p \<noteq> Some (fs_next fs)"
  unfolding fs_ok_def by blast

lemma map_option_upd [simp]: "x \<noteq> Some h \<Longrightarrow> map_option (f(h := v)) x = map_option f x"
  by (cases x) auto

lemma open_trunc_facts:
  assumes "fs_ok fs" "open_trunc p fs = (h, fs')"
  shows "fs_ok fs'" "fs_names fs' = (fs_names fs)(p \<mapsto> h)" "fs_dirs fs' = fs_dirs fs" "h < fs_next fs'"
    "fs_next fs \<le> fs_next fs'" "content_at fs' q = (if q = p then Some [] else content_at fs q)"
    "fs_names fs p = Some h \<or> fs_names fs p = None \<and> h = fs_next fs" "fs_data fs' h = []"
proof -
  show n: "fs_names fs' = (fs_names fs)(p \<mapsto> h)" using assms(2) by (auto simp: open_trunc_def split: option.splits)
  show d: "fs_dirs fs' = fs_dirs fs" "fs_data fs' h = []" using assms(2) by (auto simp: open_trunc_def split: option.splits)
  show h: "fs_names fs p = Some h \<or> fs_names fs p = None \<and> h = fs_next fs"
    using assms(2) by (auto simp: open_trunc_def split: option.splits)
  show le: "h < fs_next fs'" "fs_next fs \<le> fs_next fs'"
    using assms(1) assms(2) [symmetric] unfolding open_trunc_def fs_ok_def by (cases "fs_names fs p"; fastforce)+
  show "fs_ok fs'"
    unfolding fs_ok_def n using le h assms(1) fs_ok_fresh [OF assms(1)]
    by (auto simp: fs_ok_def split: if_splits) fastforce+
  have "fs_data fs' = (fs_data fs)(h := [])" using assms(2) by (auto simp: open_trunc_def split: option.splits)
  then show "content_at fs' q = (if q = p then Some [] else content_at fs q)"
  proof (cases "q = p")
    case False
    then have "fs_names fs q \<noteq> Some h" using h fs_okD [OF assms(1), of p h q] fs_ok_fresh [OF assms(1), of q] by blast
    with False show ?thesis unfolding content_at_def n by (simp add: \<open>fs_data fs' = _\<close>)
  qed (simp add: content_at_def n \<open>fs_data fs' = _\<close>)
qed

lemma write_handle_names [simp]:
  "fs_names (write_handle h data fs) = fs_names fs" "fs_dirs (write_handle h data fs) = fs_dirs fs"
  "fs_next (write_handle h data fs) = fs_next fs" "fs_ok (write_handle h data fs) = fs_ok fs"
  by (simp_all add: write_handle_def fs_ok_def)

lemma content_write_handle:
  "content_at (write_handle h data fs) q =
    (if fs_names fs q = Some h then Some (data @ drop (length data) (fs_data fs h)) else content_at fs q)"
  by (cases "fs_names fs q") (auto simp: content_at_def write_handle_def)

lemma remove_file_facts [simp]:
  "fs_names (remove_file p fs) = (fs_names fs)(p := None)" "fs_dirs (remove_file p fs) = fs_dirs fs"
  "fs_next (remove_file p fs) = fs_next fs" "fs_ok fs \<Longrightarrow> fs_ok (remove_file p fs)"
  "content_at (remove_file p fs) q = (if q = p then None else content_at fs q)"
  by (auto simp: remove_file_def fs_ok_def content_at_def)

lemma make_dir_facts [simp]:
  "fs_names (make_dir d fs) = fs_names fs" "fs_dirs (make_dir d fs) = insert d (fs_dirs fs)"
  "fs_next (make_dir d fs) = fs_next fs" "fs_ok (make_dir d fs) = fs_ok fs"
  "content_at (make_dir d fs) = content_at fs" "fs_data (make_dir d fs) = fs_data fs"
  by (auto simp: make_dir_def fs_ok_def content_at_def)

lemma remove_dir_facts [simp]:
  "fs_names (remove_dir d fs) = (\<lambda>p. if path_dir p = d then None else fs_names fs p)"
  "fs_next (remove_dir d fs) = fs_next fs" "fs_ok fs \<Longrightarrow> fs_ok (remove_dir d fs)"
  "content_at (remove_dir d fs) q = (if path_dir q = d then None else content_at fs q)"
  by (auto simp: remove_dir_def fs_ok_def content_at_def split: if_splits)

lemma write_file_facts:
  assumes "fs_ok fs" "write_file ok p data fs = Some fs'"
  shows "fs_ok fs'" "fs_dirs fs' = fs_dirs fs" "fs_next fs \<le> fs_next fs'"
    "content_at fs' q = (if q = p then Some data else content_at fs q)"
    "q \<noteq> p \<Longrightarrow> fs_names fs' q = fs_names fs q"
    "fs_names fs' p = Some h \<Longrightarrow> fs_names fs p = Some h \<or> h = fs_next fs"
proof -
  obtain h1 fs1 where o: "open_trunc p fs = (h1, fs1)" and fs': "fs' = write_handle h1 data fs1"
    using assms(2) by (auto simp: write_file_def split: if_splits prod.splits)
  note facts = open_trunc_facts [OF assms(1) o]
  show "fs_ok fs'" "fs_dirs fs' = fs_dirs fs" "fs_next fs \<le> fs_next fs'" "q \<noteq> p \<Longrightarrow> fs_names fs' q = fs_names fs q"
    unfolding fs' using facts(1-5) by simp_all
  show "fs_names fs' p = Some h \<Longrightarrow> fs_names fs p = Some h \<or> h = fs_next fs" unfolding fs' using facts(2,7) by auto
  show "content_at fs' q = (if q = p then Some data else content_at fs q)"
    unfolding fs' content_write_handle using facts(2,6,8) fs_okD [OF facts(1), of p h1 q] by auto
qed

section \<open>Interleaved requests\<close>

text \<open>
  The stores that are between their two steps, by path. A step never touches a path that another store or
  repair is writing: the code does not ensure this, it is what the clients of a node provide.
\<close>

type_synonym running = "path \<rightharpoonup> StoreChunkRequest \<times> nat"

inductive node_step :: "(bytes \<Rightarrow> bytes) \<Rightarrow> storage_node \<times> running \<Rightarrow> storage_node \<times> running \<Rightarrow> bool" for md5 where
  Rejected: "store_begin env req s = Inr (s', outs, None) \<Longrightarrow> scr_metadata req = Some md \<Longrightarrow>
    w (chunk_path_of md) = None \<Longrightarrow> node_step md5 (s, w) (s', w)"
| Begin: "store_begin env req s = Inr (s', outs, Some h) \<Longrightarrow> scr_metadata req = Some md \<Longrightarrow>
    w (chunk_path_of md) = None \<Longrightarrow> node_step md5 (s, w) (s', w(chunk_path_of md \<mapsto> (req, h)))"
| Finish: "w p = Some (req, h) \<Longrightarrow> store_finish md5 inp req h s = Inr (s', outs) \<Longrightarrow>
    node_step md5 (s, w) (s', w(p := None))"
| Delete: "node_handleDeleteFile err fi s = Inr (s', outs) \<Longrightarrow> node_step md5 (s, w) (s', w)"
| Repair: "repairChunk md5 answer again peers f cid s = Inr (s', outs) \<Longrightarrow> w (chunkPath (path_base f) cid) = None \<Longrightarrow>
    \<forall>a. pp_checksumWritten (peers a) \<Longrightarrow> node_step md5 (s, w) (s', w)"

inductive_cases node_stepE: "node_step md5 (s, w) (s', w')"

inductive node_run :: "(bytes \<Rightarrow> bytes) \<Rightarrow> storage_node \<times> running \<Rightarrow> storage_node \<times> running \<Rightarrow> bool" for md5 where
  node_run_refl: "node_run md5 x x"
| node_run_step: "node_run md5 x y \<Longrightarrow> node_step md5 y z \<Longrightarrow> node_run md5 x z"

section \<open>The invariant\<close>

definition chunk_intact :: "(bytes \<Rightarrow> bytes) \<Rightarrow> node_fs \<Rightarrow> path \<Rightarrow> bool" where
  "chunk_intact md5 fs p \<longleftrightarrow> (\<forall>data. content_at fs p = Some data \<longrightarrow> content_at fs (checksumPath p) = Some (md5 data))"

definition handle_ok :: "node_fs \<Rightarrow> path \<Rightarrow> nat \<Rightarrow> bool" where
  "handle_ok fs p h \<longleftrightarrow> h < fs_next fs \<and> fs_data fs h = [] \<and>
     (\<forall>q. q \<noteq> p \<longrightarrow> fs_names fs q \<noteq> Some h) \<and> (fs_names fs p = None \<or> fs_names fs p = Some h)"

definition handles_distinct :: "running \<Rightarrow> bool" where
  "handles_distinct w \<longleftrightarrow> (\<forall>p q r r' h. w p = Some (r, h) \<longrightarrow> w q = Some (r', h) \<longrightarrow> p = q)"

definition node_inv :: "(bytes \<Rightarrow> bytes) \<Rightarrow> storage_node \<times> running \<Rightarrow> bool" where
  "node_inv md5 sw \<longleftrightarrow> (case sw of (s, w) \<Rightarrow>
     fs_ok (disk s) \<and> activeWrites s = dom w \<and> finite (dom w) \<and> activeRequests s = word_of_nat (card (dom w)) \<and>
     handles_distinct w \<and> (\<forall>p req h. w p = Some (req, h) \<longrightarrow> handle_ok (disk s) p h \<and>
       (\<exists>md. scr_metadata req = Some md \<and> p = chunk_path_of md)) \<and>
     (\<forall>d cid. chunkPath d cid \<notin> dom w \<longrightarrow> chunk_intact md5 (disk s) (chunkPath d cid)))"

lemma chunk_path_of_eq [simp]: "chunk_path_of md = chunkPath (path_base (ci_file_name md)) (ci_id md)"
  by (simp add: chunk_path_of_def)

lemma handle_ok_open:
  assumes "handle_ok fs p h" "fs_ok fs" "open_trunc q fs = (h', fs')" "q \<noteq> p"
  shows "handle_ok fs' p h \<and> h' \<noteq> h"
proof -
  note f = open_trunc_facts [OF assms(2,3)]
  have ne: "h' \<noteq> h"
    using f(7) assms(1,4) unfolding handle_ok_def by (metis less_irrefl_nat)
  have data: "fs_data fs' = (fs_data fs)(h' := [])" using assms(3) by (auto simp: open_trunc_def split: option.splits)
  have "fs_names fs' x = Some h \<Longrightarrow> fs_names fs x = Some h" for x using ne by (simp add: f(2) split: if_splits)
  moreover have "fs_names fs' p = fs_names fs p" using assms(4) by (simp add: f(2))
  ultimately show ?thesis using assms(1) ne f(5) unfolding handle_ok_def data by auto
qed

lemma handle_ok_write: "handle_ok fs p h \<Longrightarrow> h' \<noteq> h \<Longrightarrow> handle_ok (write_handle h' data fs) p h"
  unfolding handle_ok_def by (simp add: write_handle_def)

lemma handle_ok_remove: "handle_ok fs p h \<Longrightarrow> handle_ok (remove_file q fs) p h"
  unfolding handle_ok_def remove_file_def by (auto split: if_splits)

lemma handle_ok_make_dir: "handle_ok fs p h \<Longrightarrow> handle_ok (make_dir d fs) p h"
  unfolding handle_ok_def make_dir_def by simp

lemma handle_ok_remove_dir: "handle_ok fs p h \<Longrightarrow> handle_ok (remove_dir d fs) p h"
  unfolding handle_ok_def remove_dir_def by (auto split: if_splits)

lemma handle_ok_write_file:
  assumes "handle_ok fs p h" "fs_ok fs" "write_file ok q data fs = Some fs'" "q \<noteq> p"
  shows "handle_ok fs' p h"
proof -
  obtain h1 fs1 where o: "open_trunc q fs = (h1, fs1)" and fs': "fs' = write_handle h1 data fs1"
    using assms(3) by (auto simp: write_file_def split: if_splits prod.splits)
  show ?thesis unfolding fs' using handle_ok_open [OF assms(1,2) o assms(4)] handle_ok_write by blast
qed

lemma intact_other: "chunk_intact md5 fs p \<Longrightarrow> content_at fs' p = content_at fs p \<Longrightarrow>
    content_at fs' (checksumPath p) = content_at fs (checksumPath p) \<Longrightarrow> chunk_intact md5 fs' p"
  by (simp add: chunk_intact_def)

lemma intact_gone: "content_at fs' p = None \<Longrightarrow> chunk_intact md5 fs' p"
  by (simp add: chunk_intact_def)

text \<open>
  What a disk operation for one chunk does to the rest: other chunks and their checksum files stay, and open
  handles of other chunks stay good.
\<close>

definition only_at :: "path \<Rightarrow> node_fs \<Rightarrow> node_fs \<Rightarrow> bool" where
  "only_at p fs fs' \<longleftrightarrow> fs_ok fs' \<and>
     (\<forall>q. q \<noteq> p \<longrightarrow> q \<noteq> checksumPath p \<longrightarrow> content_at fs' q = content_at fs q) \<and>
     (\<forall>q h. q \<noteq> p \<longrightarrow> q \<noteq> checksumPath p \<longrightarrow> handle_ok fs q h \<longrightarrow> handle_ok fs' q h)"

lemma only_at_trans [trans]: "only_at p a b \<Longrightarrow> only_at p b c \<Longrightarrow> only_at p a c"
  by (simp add: only_at_def)

lemma only_at_refl: "fs_ok fs \<Longrightarrow> only_at p fs fs"
  by (simp add: only_at_def)

lemma only_at_open: "fs_ok fs \<Longrightarrow> open_trunc p fs = (h, fs') \<Longrightarrow> only_at p fs fs'"
  unfolding only_at_def using open_trunc_facts(1,6) [of fs p h fs'] handle_ok_open [of fs _ _ p h fs'] by simp

lemma only_at_remove: "fs_ok fs \<Longrightarrow> only_at p fs (remove_file p fs)"
  by (simp add: only_at_def handle_ok_remove)

lemma only_at_remove_checksum: "fs_ok fs \<Longrightarrow> only_at p fs (remove_file (checksumPath p) fs)"
  by (simp add: only_at_def handle_ok_remove)

lemma only_at_checksum: "fs_ok fs \<Longrightarrow> write_file ok (checksumPath p) data fs = Some fs' \<Longrightarrow> only_at p fs fs'"
  unfolding only_at_def using write_file_facts(1,4) [of fs ok "checksumPath p" data fs'] handle_ok_write_file [of fs _ _ ok "checksumPath p" data fs'] by auto

lemma only_at_make_dir: "fs_ok fs \<Longrightarrow> only_at p fs (make_dir d fs)"
  by (simp add: only_at_def handle_ok_make_dir)

text \<open>Writing through the handle of the path.\<close>

lemma only_at_write:
  assumes "fs_ok fs" "handle_ok fs p h" "q \<noteq> p"
  shows "content_at (write_handle h data fs) q = content_at fs q"
  using assms by (simp add: content_write_handle handle_ok_def)

lemma only_at_intact:
  assumes "only_at p fs fs'" "p = chunkPath d cid" "chunk_intact md5 fs (chunkPath d' cid')" "chunkPath d' cid' \<noteq> p"
  shows "chunk_intact md5 fs' (chunkPath d' cid')"
  by (rule intact_other [OF assms(3)]) (use assms in \<open>auto simp: only_at_def\<close>)

lemma begin_effect:
  assumes run: "store_begin env req s = Inr (s', outs, r)" and md: "scr_metadata req = Some md" and ok: "fs_ok (disk s)"
  shows "only_at (chunk_path_of md) (disk s) (disk s') \<and> (case r of
      None \<Rightarrow> content_at (disk s') = content_at (disk s) \<and> activeRequests s' = activeRequests s \<and>
        activeWrites s' \<subseteq> activeWrites s \<and> activeWrites s - {chunk_path_of md} \<subseteq> activeWrites s' \<and>
        (\<forall>q h. handle_ok (disk s) q h \<longrightarrow> handle_ok (disk s') q h)
    | Some h \<Rightarrow> fs_names (disk s') (chunk_path_of md) = Some h \<and> handle_ok (disk s') (chunk_path_of md) h \<and>
        content_at (disk s') (checksumPath (chunk_path_of md)) = content_at (disk s) (checksumPath (chunk_path_of md)) \<and>
        activeWrites s' = insert (chunk_path_of md) (activeWrites s) \<and> activeRequests s' = activeRequests s + 1 \<and>
        path_dir (chunk_path_of md) \<in> fs_dirs (disk s') \<and>
        (\<forall>q h'. q \<noteq> chunk_path_of md \<longrightarrow> handle_ok (disk s) q h' \<longrightarrow> h' \<noteq> h))"
proof (cases "se_freeSpace env < ucast (ci_size md) \<or> se_mkdirErr env \<noteq> None \<or> se_openErr env \<noteq> None")
  case True
  then show ?thesis using run md ok
    by (auto simp: store_begin_def Let_def only_at_refl only_at_make_dir handle_ok_make_dir split: if_splits option.splits)
next
  case False
  let ?p = "chunk_path_of md" and ?fs = "make_dir (path_base (ci_file_name md)) (disk s)"
  obtain h fs where o: "open_trunc ?p ?fs = (h, fs)" by (cases "open_trunc ?p ?fs") auto
  have s': "s' = s\<lparr>disk := fs, activeWrites := insert ?p (activeWrites s), activeRequests := activeRequests s + 1\<rparr>" "r = Some h"
    using run md False o by (auto simp: store_begin_def Let_def split: option.splits)
  have ok1: "fs_ok ?fs" using ok by simp
  note f = open_trunc_facts [OF ok1 o]
  have "only_at ?p (disk s) fs" using only_at_trans [OF only_at_make_dir [OF ok] only_at_open [OF ok1 o]] .
  moreover have "handle_ok fs ?p h" unfolding handle_ok_def using f(1,2,4,8) by (auto dest: fs_okD)
  moreover have "\<forall>q h'. q \<noteq> ?p \<longrightarrow> handle_ok (disk s) q h' \<longrightarrow> h' \<noteq> h"
    using handle_ok_open [OF handle_ok_make_dir ok1 o] by metis
  ultimately show ?thesis using f(2,3,6) by (simp add: s')
qed

text \<open>Writing a chunk and its checksum through a good handle.\<close>

lemma write_chunk:
  assumes ok: "fs_ok fs" and h: "handle_ok fs p h"
  shows "fs_ok (write_handle h data fs)" "q \<noteq> p \<Longrightarrow> content_at (write_handle h data fs) q = content_at fs q"
    "content_at (write_handle h data fs) p = (if fs_names fs p = Some h then Some data else None)"
    "handle_ok fs q h' \<Longrightarrow> h' \<noteq> h \<Longrightarrow> handle_ok (write_handle h data fs) q h'"
  using ok only_at_write [OF ok h] h handle_ok_write [of fs q h' h data]
  by (auto simp: content_write_handle handle_ok_def content_at_def [of fs])

lemma finish_effect:
  assumes run: "store_finish md5 inp req h s = Inr (s', outs)" and md: "scr_metadata req = Some md"
    and ok: "fs_ok (disk s)" and h: "handle_ok (disk s) (chunk_path_of md) h"
  shows "fs_ok (disk s') \<and> chunk_intact md5 (disk s') (chunk_path_of md) \<and>
    (\<forall>q. q \<noteq> chunk_path_of md \<longrightarrow> q \<noteq> checksumPath (chunk_path_of md) \<longrightarrow> content_at (disk s') q = content_at (disk s) q) \<and>
    (\<forall>q h'. q \<noteq> checksumPath (chunk_path_of md) \<longrightarrow> handle_ok (disk s) q h' \<longrightarrow> h' \<noteq> h \<longrightarrow> handle_ok (disk s') q h') \<and>
    activeWrites s' = activeWrites s - {chunk_path_of md} \<and> activeRequests s' = activeRequests s - 1"
proof -
  let ?p = "chunk_path_of md" and ?data = "take (unat (ci_size md)) (si_stream inp)"
  let ?fs = "write_handle h ?data (disk s)"
  note w = write_chunk [OF ok h, where data = ?data]
  consider (gone) "disk s' = remove_file ?p ?fs \<or> disk s' = remove_file (checksumPath ?p) (remove_file ?p ?fs)"
    | (kept) fs' where "write_file (si_checksumWritten inp) (checksumPath ?p) (md5 ?data) ?fs = Some fs'" "disk s' = fs'"
    using run md by (auto simp: store_finish_def Let_def split: if_splits option.splits)
  then have "fs_ok (disk s') \<and> chunk_intact md5 (disk s') ?p \<and>
    (\<forall>q. q \<noteq> ?p \<longrightarrow> q \<noteq> checksumPath ?p \<longrightarrow> content_at (disk s') q = content_at (disk s) q) \<and>
    (\<forall>q h'. q \<noteq> checksumPath ?p \<longrightarrow> handle_ok (disk s) q h' \<longrightarrow> h' \<noteq> h \<longrightarrow> handle_ok (disk s') q h')"
  proof cases
    case gone
    then show ?thesis using w by (auto simp: intact_gone handle_ok_remove)
  next
    case kept
    note f = write_file_facts [OF w(1) kept(1)]
    have "chunk_intact md5 fs' ?p" using f(4) w(3) by (auto simp: chunk_intact_def split: if_splits)
    then show ?thesis unfolding kept(2) using f(1,4) w(2,4) handle_ok_write_file [OF w(4) w(1) kept(1)] by auto
  qed
  moreover have "activeWrites s' = activeWrites s - {?p} \<and> activeRequests s' = activeRequests s - 1"
    using run md by (auto simp: store_finish_def Let_def split: if_splits option.splits)
  ultimately show ?thesis by simp
qed

section \<open>Repairs\<close>

lemma pull_effect:
  assumes run: "pull_from md5 p peer fs = Inr (fs', r)" and ok: "fs_ok fs" and intact: "chunk_intact md5 fs p"
    and p: "p = chunkPath d cid" and sums: "pp_checksumWritten peer"
  shows "only_at p fs fs' \<and> chunk_intact md5 fs' p"
proof (cases "fs' = fs")
  case True
  then show ?thesis using ok intact by (simp add: only_at_refl)
next
  case False
  then obtain md where md: "pull_data md5 p peer md fs = (fs', r)" and dir: "path_dir p \<in> fs_dirs fs"
    using run by (auto simp: pull_from_def and_then_eq_Inr split: if_splits option.splits)
  obtain h fs1 where o: "open_trunc p fs = (h, fs1)" by (cases "open_trunc p fs") auto
  have fs': "fs' = remove_file p (write_handle h (take (unat (ci_size md)) (pp_stream peer)) fs1) \<or>
      write_file True (checksumPath p) (md5 (take (unat (ci_size md)) (pp_stream peer)))
        (write_handle h (take (unat (ci_size md)) (pp_stream peer)) fs1) = Some fs'"
    using md sums dir open_trunc_facts(3) [OF ok o]
    by (auto simp: pull_data_def o Let_def VerifyChecksum_def write_file_def split: if_splits prod.splits)
  note f = open_trunc_facts [OF ok o]
  have h: "handle_ok fs1 p h" unfolding handle_ok_def using f(1,2,4,8) by (auto dest: fs_okD)
  let ?fs2 = "write_handle h (take (unat (ci_size md)) (pp_stream peer)) fs1"
  note w = write_chunk [OF f(1) h, where data = "take (unat (ci_size md)) (pp_stream peer)"]
  have only: "only_at p fs ?fs2"
    unfolding only_at_def using w(1,2,4) f(6) handle_ok_open [OF _ ok o] by simp metis
  from fs' show ?thesis
  proof
    assume "fs' = remove_file p ?fs2"
    then show ?thesis using only_at_trans [OF only only_at_remove [OF w(1)]] by (simp add: intact_gone)
  next
    assume wf: "write_file True (checksumPath p) (md5 (take (unat (ci_size md)) (pp_stream peer))) ?fs2 = Some fs'"
    have "chunk_intact md5 fs' p"
      using write_file_facts(4) [OF w(1) wf] w(3) f(2) by (simp add: chunk_intact_def p)
    then show ?thesis using only_at_trans [OF only only_at_checksum [OF w(1) wf]] by simp
  qed
qed

lemma pull_loop_effect:
  assumes p: "p = chunkPath d cid" and sums: "\<forall>a. pp_checksumWritten (peers a)"
  shows "pull_loop md5 p peers addrs marked fs = Inr (fs', marked', success) \<Longrightarrow> fs_ok fs \<Longrightarrow> chunk_intact md5 fs p \<Longrightarrow>
    only_at p fs fs' \<and> chunk_intact md5 fs' p"
proof (induction addrs arbitrary: marked fs)
  case (Cons addr addrs)
  obtain fs1 r where pull: "pull_from md5 p (peers addr) fs = Inr (fs1, r)"
    and rest: "fs' = fs1 \<or> pull_loop md5 p peers addrs (marked \<or> r = Failed) fs1 = Inr (fs', marked', success)"
    using Cons.prems(1) by (auto simp: and_then_eq_Inr split: if_splits)
  note e = pull_effect [OF pull Cons.prems(2,3) p sums [rule_format]]
  show ?case
  proof (cases "fs' = fs1")
    case False
    with rest have "pull_loop md5 p peers addrs (marked \<or> r = Failed) fs1 = Inr (fs', marked', success)" by simp
    from Cons.IH [OF this] e show ?thesis by (meson only_at_def only_at_trans)
  qed (use e in simp)
qed (simp add: only_at_refl)

lemma repair_effect:
  assumes run: "repairChunk md5 answer again peers f cid s = Inr (s', outs)" and ok: "fs_ok (disk s)"
    and intact: "chunk_intact md5 (disk s) (chunkPath (path_base f) cid)" and sums: "\<forall>a. pp_checksumWritten (peers a)"
  shows "only_at (chunkPath (path_base f) cid) (disk s) (disk s') \<and> chunk_intact md5 (disk s') (chunkPath (path_base f) cid) \<and>
    activeRequests s' = activeRequests s \<and> activeWrites s - {chunkPath (path_base f) cid} \<subseteq> activeWrites s' \<and>
    activeWrites s' \<subseteq> activeWrites s"
proof (cases "s' = s")
  case True
  then show ?thesis using ok intact by (auto simp: only_at_refl)
next
  case False
  let ?p = "chunkPath (path_base f) cid"
  from False run obtain w resp where w: "answer = Some (Some w)" "GetGetFileResp w = Some resp"
    by (auto simp: repairChunk_def Let_def split: option.splits)
  from False run obtain addrs fs' marked success where
    "pull_loop md5 ?p peers addrs False (disk s) = Inr (fs', marked, success)"
    "s' = s\<lparr>disk := fs', activeWrites := (if marked then activeWrites s - {?p} else activeWrites s)\<rparr>"
    by (auto simp: repairChunk_def w Let_def and_then_eq_Inr simp del: if_split split: if_splits(2))
  then show ?thesis using pull_loop_effect [OF refl sums _ ok intact] by auto
qed

section \<open>Preservation\<close>

lemma node_invI:
  assumes "fs_ok (disk s)" "activeWrites s = dom w" "finite (dom w)" "activeRequests s = word_of_nat (card (dom w))"
    "handles_distinct w" "\<And>p req h. w p = Some (req, h) \<Longrightarrow> handle_ok (disk s) p h"
    "\<And>p req h. w p = Some (req, h) \<Longrightarrow> \<exists>md. scr_metadata req = Some md \<and> p = chunk_path_of md"
    "\<And>d cid. chunkPath d cid \<notin> dom w \<Longrightarrow> chunk_intact md5 (disk s) (chunkPath d cid)"
  shows "node_inv md5 (s, w)"
  using assms unfolding node_inv_def by blast

lemma node_invD:
  assumes "node_inv md5 (s, w)"
  shows "fs_ok (disk s)" "activeWrites s = dom w" "finite (dom w)" "activeRequests s = word_of_nat (card (dom w))"
    "handles_distinct w" "\<And>p req h. w p = Some (req, h) \<Longrightarrow> handle_ok (disk s) p h"
    "\<And>p req h. w p = Some (req, h) \<Longrightarrow> \<exists>md. scr_metadata req = Some md \<and> p = chunk_path_of md"
    "\<And>d cid. chunkPath d cid \<notin> dom w \<Longrightarrow> chunk_intact md5 (disk s) (chunkPath d cid)"
  using assms unfolding node_inv_def by auto

text \<open>A running store's path is a chunk path, so it is no checksum file.\<close>

lemma running_not_checksum:
  "node_inv md5 (s, w) \<Longrightarrow> w q = Some (req, h) \<Longrightarrow> q \<noteq> checksumPath (chunkPath d cid)"
  using node_invD(7) [of md5 s w q req h] by auto

lemma begin_inv:
  assumes inv: "node_inv md5 (s, w)" and run: "store_begin env req s = Inr (s', outs, Some h)"
    and md: "scr_metadata req = Some md" and free: "w (chunk_path_of md) = None"
  shows "node_inv md5 (s', w(chunk_path_of md \<mapsto> (req, h)))"
proof -
  let ?p = "chunk_path_of md"
  note e = begin_effect [OF run md node_invD(1) [OF inv]]
  have only: "only_at ?p (disk s) (disk s')" and h: "handle_ok (disk s') ?p h"
    and new: "\<forall>q h'. q \<noteq> ?p \<longrightarrow> handle_ok (disk s) q h' \<longrightarrow> h' \<noteq> h"
    using e by simp_all
  have others: "q \<noteq> ?p \<and> handle_ok (disk s') q h' \<and> h' \<noteq> h" if "w q = Some (r, h')" for q r h'
  proof -
    have "q \<noteq> ?p" "q \<noteq> checksumPath ?p" using that free running_not_checksum [OF inv that] by auto
    with node_invD(6) [OF inv that] only new show ?thesis unfolding only_at_def by blast
  qed
  show ?thesis
  proof (rule node_invI)
    show "activeRequests s' = word_of_nat (card (dom (w(?p \<mapsto> (req, h)))))"
      using e node_invD(3,4) [OF inv] free by (simp add: card_insert_if domIff)
    show "handles_distinct (w(?p \<mapsto> (req, h)))"
      unfolding handles_distinct_def using others node_invD(5) [OF inv] unfolding handles_distinct_def by (auto split: if_splits)
    show "chunk_intact md5 (disk s') (chunkPath d cid)" if "chunkPath d cid \<notin> dom (w(?p \<mapsto> (req, h)))" for d cid
      using only_at_intact [OF only _ node_invD(8) [OF inv]] that by auto
    show "handle_ok (disk s') q h'" if "(w(?p \<mapsto> (req, h))) q = Some (r, h')" for q r h'
      using that h others by (auto split: if_splits)
    show "\<exists>md. scr_metadata r = Some md \<and> q = chunk_path_of md" if "(w(?p \<mapsto> (req, h))) q = Some (r, h')" for q r h'
      using that md node_invD(7) [OF inv, of q r h'] by (auto split: if_splits)
  qed (use e only node_invD(2,3) [OF inv] in \<open>auto simp: only_at_def\<close>)
qed

lemma finish_inv:
  assumes inv: "node_inv md5 (s, w)" and p: "w p = Some (req, h)" and run: "store_finish md5 inp req h s = Inr (s', outs)"
  shows "node_inv md5 (s', w(p := None))"
proof -
  obtain md where md: "scr_metadata req = Some md" "p = chunk_path_of md" using node_invD(7) [OF inv p] by blast
  have h: "handle_ok (disk s) (chunk_path_of md) h" using node_invD(6) [OF inv p] md(2) by simp
  note e = finish_effect [OF run md(1) node_invD(1) [OF inv] h]
  show ?thesis
  proof (rule node_invI)
    have "card (dom w) = Suc (card (dom w - {p}))"
      using p node_invD(3) [OF inv] by (intro card.remove) auto
    then show "activeRequests s' = word_of_nat (card (dom (w(p := None))))"
      using e node_invD(4) [OF inv] by simp
    show "handles_distinct (w(p := None))"
      using node_invD(5) [OF inv] unfolding handles_distinct_def by auto
    show "chunk_intact md5 (disk s') (chunkPath d cid)" if "chunkPath d cid \<notin> dom (w(p := None))" for d cid
    proof (cases "chunkPath d cid = p")
      case False
      then have "chunk_intact md5 (disk s) (chunkPath d cid)" using that node_invD(8) [OF inv] by simp
      then show ?thesis by (rule intact_other) (use e False md(2) in auto)
    qed (use e md(2) in simp)
    show "handle_ok (disk s') q h'" if "(w(p := None)) q = Some (r, h')" for q r h'
    proof -
      have q: "w q = Some (r, h')" "q \<noteq> p" using that by (auto split: if_splits)
      then have "h' \<noteq> h" using node_invD(5) [OF inv] p unfolding handles_distinct_def by blast
      then show ?thesis using e node_invD(6) [OF inv q(1)] running_not_checksum [OF inv q(1)] by simp
    qed
    show "\<exists>md. scr_metadata r = Some md \<and> q = chunk_path_of md" if "(w(p := None)) q = Some (r, h')" for q r h'
      using that node_invD(7) [OF inv, of q r h'] by (auto split: if_splits)
  qed (use e md(2) node_invD(2,3) [OF inv] in auto)
qed

text \<open>Steps that leave the set of running stores alone.\<close>

lemma same_running_inv:
  assumes inv: "node_inv md5 (s, w)" and "fs_ok (disk s')" "activeWrites s' = activeWrites s" "activeRequests s' = activeRequests s"
    "\<And>p req h. w p = Some (req, h) \<Longrightarrow> handle_ok (disk s) p h \<Longrightarrow> handle_ok (disk s') p h"
    "\<And>d cid. chunkPath d cid \<notin> dom w \<Longrightarrow> chunk_intact md5 (disk s') (chunkPath d cid)"
  shows "node_inv md5 (s', w)"
  by (rule node_invI) (use assms(2-) node_invD [OF inv] in auto)

lemma rejected_inv:
  assumes inv: "node_inv md5 (s, w)" and run: "store_begin env req s = Inr (s', outs, None)"
    and md: "scr_metadata req = Some md" and free: "w (chunk_path_of md) = None"
  shows "node_inv md5 (s', w)"
proof -
  note e = begin_effect [OF run md node_invD(1) [OF inv]]
  have "chunk_path_of md \<notin> activeWrites s" using free node_invD(2) [OF inv] by auto
  then have "activeWrites s' = activeWrites s" using e by auto
  moreover have "chunk_intact md5 (disk s') q = chunk_intact md5 (disk s) q" for q using e by (simp add: chunk_intact_def)
  ultimately show ?thesis
    by (intro same_running_inv [OF inv]) (use e node_invD(8) [OF inv] in \<open>auto simp: only_at_def\<close>)
qed

lemma delete_inv:
  assumes inv: "node_inv md5 (s, w)" and run: "node_handleDeleteFile err fi s = Inr (s', outs)"
  shows "node_inv md5 (s', w)"
proof (cases "s' = s")
  case False
  then obtain md where "fi = Some md" "err = None"
    using run by (cases fi; cases err) (auto simp: node_handleDeleteFile_def)
  then have s': "s' = s\<lparr>disk := remove_dir (path_base (fi_name md)) (disk s)\<rparr>"
    using run by (simp add: node_handleDeleteFile_def)
  show ?thesis
    by (rule same_running_inv [OF inv])
      (use node_invD(1,8) [OF inv] in \<open>auto simp: s' chunk_intact_def handle_ok_remove_dir\<close>)
qed (use inv in simp)

lemma repair_inv:
  assumes inv: "node_inv md5 (s, w)" and run: "repairChunk md5 answer again peers f cid s = Inr (s', outs)"
    and free: "w (chunkPath (path_base f) cid) = None" and sums: "\<forall>a. pp_checksumWritten (peers a)"
  shows "node_inv md5 (s', w)"
proof -
  let ?p = "chunkPath (path_base f) cid"
  have "chunk_intact md5 (disk s) ?p" using node_invD(8) [OF inv] free by auto
  note e = repair_effect [OF run node_invD(1) [OF inv] this sums]
  have "?p \<notin> activeWrites s" using free node_invD(2) [OF inv] by auto
  then have "activeWrites s' = activeWrites s" using e by auto
  moreover have "handle_ok (disk s') q h" if "w q = Some (r, h)" "handle_ok (disk s) q h" for q r h
  proof -
    have "q \<noteq> ?p" "q \<noteq> checksumPath ?p" using that(1) free running_not_checksum [OF inv that(1)] by auto
    with e that(2) show ?thesis unfolding only_at_def by blast
  qed
  moreover have "chunk_intact md5 (disk s') (chunkPath d cid')" if "chunkPath d cid' \<notin> dom w" for d cid'
  proof (cases "chunkPath d cid' = ?p")
    case False
    with e show ?thesis using only_at_intact [OF _ refl node_invD(8) [OF inv that] False] by blast
  qed (use e in simp)
  ultimately show ?thesis by (intro same_running_inv [OF inv]) (use e in \<open>auto simp: only_at_def\<close>)
qed

lemma node_step_inv: "node_step md5 (s, w) (s', w') \<Longrightarrow> node_inv md5 (s, w) \<Longrightarrow> node_inv md5 (s', w')"
  by (erule node_stepE) (auto intro: begin_inv finish_inv rejected_inv delete_inv repair_inv simp del: chunk_path_of_eq)

end
