(* ===== verification/StorageProps.thy ===== *)
theory StorageProps
  imports StoreInv
begin

text \<open>
  Properties of a storage node: what a store leaves behind, that finished chunks are never torn, what
  happens when two writers meet on one chunk or a node copies a chunk to itself, and what replication and
  repair achieve.
\<close>

section \<open>Stores\<close>

definition fresh_node :: "string \<Rightarrow> storage_node" where
  "fresh_node addr = \<lparr>myAddr = addr, disk = \<lparr>fs_dirs = {}, fs_names = Map.empty, fs_data = (\<lambda>_. []), fs_next = 0\<rparr>,
     activeWrites = {}, activeRequests = 0\<rparr>"

definition accepts :: "store_env \<Rightarrow> ChunkInfo \<Rightarrow> bool" where
  "accepts env md \<longleftrightarrow> ucast (ci_size md) \<le> se_freeSpace env \<and> se_mkdirErr env = None \<and> se_openErr env = None"

definition arrives :: "(bytes \<Rightarrow> bytes) \<Rightarrow> store_input \<Rightarrow> ChunkInfo \<Rightarrow> bool" where
  "arrives md5 inp md \<longleftrightarrow> unat (ci_size md) \<le> length (si_stream inp) \<and> \<not> si_writeFails inp \<and>
     md5 (take (unat (ci_size md)) (si_stream inp)) = ci_checksum md \<and> si_checksumWritten inp"

definition reports :: "srv_out list \<Rightarrow> wrapper list" where
  "reports outs = List.map_filter (\<lambda>out. case out of Report w \<Rightarrow> Some w | _ \<Rightarrow> None) outs"

lemma store_begin_accepts:
  assumes "scr_metadata req = Some md" "accepts env md"
  shows "\<exists>s1 h. store_begin env req s = Inr (s1, [Answer (SendResponse True ''Ready to receive chunk data'')], Some h)"
  using assms by (auto simp: store_begin_def Let_def accepts_def not_less split: prod.splits)

lemma store_begin_rejects:
  assumes "scr_metadata req = Some md" "\<not> accepts env md"
  shows "\<exists>s1 msg. store_begin env req s = Inr (s1, [Answer (SendResponse False msg), reportStatus md False s], None) \<and>
    myAddr s1 = myAddr s"
  using assms by (auto simp: store_begin_def Let_def accepts_def not_less reportStatus_def split: prod.splits option.splits)

lemma write_file_succeeds: "path_dir p \<in> fs_dirs fs \<Longrightarrow> \<exists>fs'. write_file True p data fs = Some fs'"
  by (cases "open_trunc p fs") (simp add: write_file_def)

lemma store_finish_runs: "scr_metadata req = Some md \<Longrightarrow> \<exists>s' outs. store_finish md5 inp req h s = Inr (s', outs)"
  by (cases "write_file (si_checksumWritten inp) (checksumPath (chunk_path_of md)) (md5 (take (unat (ci_size md)) (si_stream inp)))
      (write_handle h (take (unat (ci_size md)) (si_stream inp)) (disk s))") (simp_all add: store_finish_def Let_def)

text \<open>The second step, for a path that still leads to the open file.\<close>

lemma store_finish_outcome:
  assumes md: "scr_metadata req = Some md" and ok: "fs_ok (disk s)" and h: "handle_ok (disk s) (chunk_path_of md) h"
    and linked: "fs_names (disk s) (chunk_path_of md) = Some h" and dir: "path_dir (chunk_path_of md) \<in> fs_dirs (disk s)"
    and run: "store_finish md5 inp req h s = Inr (s', outs)"
  shows "content_at (disk s') (chunk_path_of md) = (if arrives md5 inp md then Some (take (unat (ci_size md)) (si_stream inp)) else None) \<and>
    (arrives md5 inp md \<longrightarrow> content_at (disk s') (checksumPath (chunk_path_of md)) = Some (ci_checksum md)) \<and>
    reports outs = [SendChunkStatusReport (path_base (ci_file_name md)) (ci_id md) (arrives md5 inp md) (myAddr s)] \<and>
    ((\<exists>job. GoManageReplication job \<in> set outs) \<longleftrightarrow> arrives md5 inp md \<and> scr_is_original req)"
proof -
  let ?p = "chunk_path_of md" and ?data = "take (unat (ci_size md)) (si_stream inp)"
  let ?fs = "write_handle h ?data (disk s)"
  note w = write_chunk [OF ok h, where data = ?data]
  show ?thesis
  proof (cases "arrives md5 inp md")
    case True
    then obtain fs' where fs': "write_file (si_checksumWritten inp) (checksumPath ?p) (md5 ?data) ?fs = Some fs'"
      using write_file_succeeds [of "checksumPath ?p" ?fs "md5 ?data"] dir True by (auto simp: arrives_def)
    have run': "s' = s\<lparr>disk := fs', activeWrites := activeWrites s - {?p}, activeRequests := activeRequests s - 1\<rparr>"
      "outs = [Answer (SendResponse True ''Chunk stored successfully''), reportStatus md True s] @
        (if scr_is_original req then [GoManageReplication \<lparr>rj_fileName = path_base (ci_file_name md), rj_chunkID = ci_id md,
           rj_size = ci_size md, rj_checksum = md5 ?data, rj_chunkPath = ?p, rj_required = node_replicationFactor - 1\<rparr>] else [])"
      using run md True fs' by (auto simp: store_finish_def Let_def arrives_def VerifyChecksum_def)
    show ?thesis
      using write_file_facts(4) [OF w(1) fs'] w(3) linked True
      by (auto simp: run' arrives_def reports_def reportStatus_def List.map_filter_def)
  next
    case False
    then show ?thesis using run md w(3) linked
      by (auto simp: store_finish_def Let_def arrives_def VerifyChecksum_def reports_def reportStatus_def List.map_filter_def
          write_file_def not_less split: if_splits option.splits prod.splits)
  qed
qed

lemma handleStoreChunk_outcome:
  assumes ok: "fs_ok (disk s)" and md: "scr_metadata req = Some md"
    and run: "handleStoreChunk md5 env inp req s = Inr (s', outs)"
  shows "content_at (disk s') (chunk_path_of md) =
      (if \<not> accepts env md then content_at (disk s) (chunk_path_of md)
       else if arrives md5 inp md then Some (take (unat (ci_size md)) (si_stream inp)) else None) \<and>
    (accepts env md \<and> arrives md5 inp md \<longrightarrow> content_at (disk s') (checksumPath (chunk_path_of md)) = Some (ci_checksum md)) \<and>
    (\<forall>q. q \<noteq> chunk_path_of md \<longrightarrow> q \<noteq> checksumPath (chunk_path_of md) \<longrightarrow> content_at (disk s') q = content_at (disk s) q) \<and>
    reports outs = [SendChunkStatusReport (path_base (ci_file_name md)) (ci_id md) (accepts env md \<and> arrives md5 inp md) (myAddr s)] \<and>
    ((\<exists>job. GoManageReplication job \<in> set outs) \<longleftrightarrow> accepts env md \<and> arrives md5 inp md \<and> scr_is_original req)"
proof (cases "accepts env md")
  case False
  then obtain s1 msg where b: "store_begin env req s = Inr (s1, [Answer (SendResponse False msg), reportStatus md False s], None)"
    using store_begin_rejects [OF md] by blast
  then have "s' = s1" "outs = [Answer (SendResponse False msg), reportStatus md False s]"
    using run by (simp_all add: handleStoreChunk_def)
  then show ?thesis using begin_effect [OF b md ok] False by (simp add: reports_def reportStatus_def List.map_filter_def)
next
  case True
  then obtain s1 h where b: "store_begin env req s = Inr (s1, [Answer (SendResponse True ''Ready to receive chunk data'')], Some h)"
    using store_begin_accepts [OF md] by blast
  then obtain outs2 where f: "store_finish md5 inp req h s1 = Inr (s', outs2)"
    and outs: "outs = Answer (SendResponse True ''Ready to receive chunk data'') # outs2"
    using run by (auto simp: handleStoreChunk_def and_then_eq_Inr)
  note e = begin_effect [OF b md ok]
  have addr: "myAddr s1 = myAddr s" using b md by (auto simp: store_begin_def Let_def split: if_splits option.splits prod.splits)
  have only: "only_at (chunk_path_of md) (disk s) (disk s1)" using e by blast
  then have ok1: "fs_ok (disk s1)" by (simp add: only_at_def)
  have h: "handle_ok (disk s1) (chunk_path_of md) h" and linked: "fs_names (disk s1) (chunk_path_of md) = Some h"
    and dir: "path_dir (chunk_path_of md) \<in> fs_dirs (disk s1)" using e by simp_all
  note o = store_finish_outcome [OF md ok1 h linked dir f]
  have "\<forall>q. q \<noteq> chunk_path_of md \<longrightarrow> q \<noteq> checksumPath (chunk_path_of md) \<longrightarrow> content_at (disk s') q = content_at (disk s) q"
    using finish_effect [OF f md ok1 h] only by (simp add: only_at_def)
  then show ?thesis using o True by (simp add: outs addr reports_def List.map_filter_def)
qed


definition demo_md :: ChunkInfo where
  "demo_md = \<lparr>ci_id = 0, ci_file_name = ''f'', ci_size = 2, ci_checksum = ''ba''\<rparr>"

definition demo_store :: StoreChunkRequest where
  "demo_store = \<lparr>scr_metadata = Some demo_md, scr_is_original = True\<rparr>"

definition demo_env :: store_env where
  "demo_env = \<lparr>se_freeSpace = 100, se_mkdirErr = None, se_openErr = None\<rparr>"

definition demo_input :: "bytes \<Rightarrow> store_input" where
  "demo_input stream = \<lparr>si_stream = stream, si_writeFails = False, si_checksumWritten = True\<rparr>"

lemmas demo_store_defs = demo_md_def demo_store_def demo_env_def demo_input_def fresh_node_def


section \<open>Interleavings\<close>

lemma node_run_inv: "node_run md5 x y \<Longrightarrow> node_inv md5 x \<Longrightarrow> node_inv md5 y"
  by (induction rule: node_run.induct) (auto intro: node_step_inv)

lemma fresh_node_inv: "node_inv md5 (fresh_node addr, Map.empty)"
  by (rule node_invI) (simp_all add: fresh_node_def fs_ok_def handles_distinct_def chunk_intact_def content_at_def)

lemma demo_stored:
  "\<exists>s. node_run rev (fresh_node ''n:1'', Map.empty) (s, Map.empty) \<and> content_at (disk s) (chunk_path_of demo_md) = Some ''ab''"
proof -
  let ?n = "fresh_node ''n:1''" and ?p = "chunk_path_of demo_md"
  obtain s1 h where b: "store_begin demo_env demo_store ?n = Inr (s1, [Answer (SendResponse True ''Ready to receive chunk data'')], Some h)"
    using store_begin_accepts [of demo_store demo_md demo_env ?n] by (auto simp: accepts_def demo_store_defs)
  have md: "scr_metadata demo_store = Some demo_md" by (simp add: demo_store_def)
  obtain s2 outs where f: "store_finish rev (demo_input ''ab'') demo_store h s1 = Inr (s2, outs)"
    using store_finish_runs [OF md] by blast
  have step1: "node_step rev (?n, Map.empty) (s1, Map.empty(?p \<mapsto> (demo_store, h)))"
    by (rule node_step.Begin [OF b md]) simp
  have step2: "node_step rev (s1, Map.empty(?p \<mapsto> (demo_store, h))) (s2, (Map.empty(?p \<mapsto> (demo_store, h)))(?p := None))"
    by (rule node_step.Finish [OF _ f]) simp
  have undo: "(Map.empty(?p \<mapsto> (demo_store, h)))(?p := None) = Map.empty" by auto
  have run: "node_run rev (?n, Map.empty) (s2, Map.empty)"
    using node_run_step [OF node_run_step [OF node_run_refl step1] step2] undo by simp
  have ok: "fs_ok (disk ?n)" by (simp add: fs_ok_def fresh_node_def)
  have "handleStoreChunk rev demo_env (demo_input ''ab'') demo_store ?n =
      Inr (s2, Answer (SendResponse True ''Ready to receive chunk data'') # outs)"
    using b f by (simp add: handleStoreChunk_def)
  from handleStoreChunk_outcome [OF ok md this] have "content_at (disk s2) ?p = Some ''ab''"
    by (simp add: accepts_def arrives_def demo_store_defs)
  with run show ?thesis by blast
qed

lemma retrieve_answer:
  assumes inv: "node_inv md5 (s, w)"
  shows "handleRetrieveChunk md5 None (Some md) s = Inr
      (if chunk_path_of md \<in> dom w then [Answer (SendRetrieveChunkResponse False ''Chunk is currently being written'' 0 [])]
       else (case content_at (disk s) (chunk_path_of md) of
          None \<Rightarrow> [Answer (SendRetrieveChunkResponse False ''Chunk corrupted'' 0 []), GoRepairChunk (ci_file_name md) (ci_id md)]
        | Some data \<Rightarrow> [Answer (SendRetrieveChunkResponse True ''Ready to send chunk data'' (word_of_nat (length data)) (md5 data)),
            RawBytes (take (unat (word_of_nat (length data) :: u32)) data)]))"
proof (cases "chunk_path_of md \<in> dom w")
  case False
  then have "chunk_intact md5 (disk s) (chunk_path_of md)" using node_invD(8) [OF inv] by simp
  then show ?thesis using False node_invD(2,4) [OF inv]
    by (auto simp: handleRetrieveChunk_def verifyChunkIntegrity_def VerifyChecksum_def chunk_intact_def split: option.splits)
qed (use node_invD(2,4) [OF inv] in \<open>simp add: handleRetrieveChunk_def\<close>)



text \<open>C38: the mark of a chunk being written is no lock. Two stores of one chunk overlap; the first is cut off and removes
  the path, under which the second is still writing. The second then answers that the chunk is stored and reports it to
  the controller, but no chunk is on disk.\<close>

theorem overlapping_stores_lose_chunk:
  assumes ok: "fs_ok (disk s)" and mdA: "scr_metadata reqA = Some mdA" and mdB: "scr_metadata reqB = Some mdB"
    and same: "chunk_path_of mdA = chunk_path_of mdB"
    and beginA: "store_begin envA reqA s = Inr (s1, outsA, Some hA)" and beginB: "store_begin envB reqB s1 = Inr (s2, outsB, Some hB)"
    and finishA: "store_finish md5 inpA reqA hA s2 = Inr (s3, outsA')" and cut: "length (si_stream inpA) < unat (ci_size mdA)"
    and finishB: "store_finish md5 inpB reqB hB s3 = Inr (s4, outsB')" and good: "arrives md5 inpB mdB"
  shows "Answer (SendResponse True ''Chunk stored successfully'') \<in> set outsB' \<and>
    Report (SendChunkStatusReport (path_base (ci_file_name mdB)) (ci_id mdB) True (myAddr s3)) \<in> set outsB' \<and>
    content_at (disk s4) (chunk_path_of mdB) = None"
proof -
  let ?p = "chunk_path_of mdB" and ?data = "take (unat (ci_size mdB)) (si_stream inpB)"
  note eA = begin_effect [OF beginA mdA ok, unfolded same]
  then have ok1: "fs_ok (disk s1)" by (simp add: only_at_def)
  note eB = begin_effect [OF beginB mdB ok1]
  then have ok2: "fs_ok (disk s2)" and dir: "path_dir ?p \<in> fs_dirs (disk s2)" by (simp_all add: only_at_def)
  have s3: "disk s3 = remove_file ?p (write_handle hA (take (unat (ci_size mdA)) (si_stream inpA)) (disk s2))"
    using finishA mdA cut same by (auto simp: store_finish_def Let_def)
  let ?fs = "write_handle hB ?data (disk s3)"
  have ok3: "fs_ok ?fs" using ok2 by (simp add: s3)
  have gone: "content_at ?fs ?p = None" by (simp add: s3 content_at_def)
  obtain fs' where wf: "write_file (si_checksumWritten inpB) (checksumPath ?p) (md5 ?data) ?fs = Some fs'"
    using write_file_succeeds [of "checksumPath ?p" ?fs "md5 ?data"] dir good by (auto simp: s3 arrives_def)
  have "outsB' = [Answer (SendResponse True ''Chunk stored successfully''), reportStatus mdB True s3] @
      (if scr_is_original reqB then [GoManageReplication \<lparr>rj_fileName = path_base (ci_file_name mdB), rj_chunkID = ci_id mdB,
         rj_size = ci_size mdB, rj_checksum = md5 ?data, rj_chunkPath = ?p, rj_required = node_replicationFactor - 1\<rparr>] else [])"
    and "disk s4 = fs'"
    using finishB mdB good wf by (auto simp: store_finish_def Let_def arrives_def VerifyChecksum_def)
  then show ?thesis using write_file_facts(4) [OF ok3 wf, of ?p] gone by (simp add: reportStatus_def)
qed

theorem overlapping_stores_lose_chunk_witness:
  "\<exists>s1 h1 s2 h2 s3 s4 outs outs'. store_begin demo_env demo_store (fresh_node ''n:1'') = Inr (s1, outs, Some h1) \<and>
     store_begin demo_env demo_store s1 = Inr (s2, outs, Some h2) \<and>
     store_finish rev (demo_input ''a'') demo_store h1 s2 = Inr (s3, outs') \<and>
     (\<exists>outs''. store_finish rev (demo_input ''ab'') demo_store h2 s3 = Inr (s4, outs'') \<and>
       Answer (SendResponse True ''Chunk stored successfully'') \<in> set outs'' \<and> content_at (disk s4) (chunk_path_of demo_md) = None)"
proof -
  let ?o = "[Answer (SendResponse True ''Ready to receive chunk data'')]"
  have md: "scr_metadata demo_store = Some demo_md" and acc: "accepts demo_env demo_md"
    by (simp_all add: demo_store_defs accepts_def)
  obtain s1 h1 where b1: "store_begin demo_env demo_store (fresh_node ''n:1'') = Inr (s1, ?o, Some h1)"
    using store_begin_accepts [OF md acc] by blast
  obtain s2 h2 where b2: "store_begin demo_env demo_store s1 = Inr (s2, ?o, Some h2)"
    using store_begin_accepts [OF md acc] by blast
  obtain s3 outs' where f1: "store_finish rev (demo_input ''a'') demo_store h1 s2 = Inr (s3, outs')"
    using store_finish_runs [OF md] by blast
  obtain s4 outs'' where f2: "store_finish rev (demo_input ''ab'') demo_store h2 s3 = Inr (s4, outs'')"
    using store_finish_runs [OF md] by blast
  have ok: "fs_ok (disk (fresh_node ''n:1''))" by (simp add: fs_ok_def fresh_node_def)
  have "arrives rev (demo_input ''ab'') demo_md" "length (si_stream (demo_input ''a'')) < unat (ci_size demo_md)"
    by (simp_all add: arrives_def demo_store_defs)
  from overlapping_stores_lose_chunk [OF ok md md refl b1 b2 f1 this(2) f2 this(1)] b1 b2 f1 f2 show ?thesis by blast
qed

section \<open>Replication\<close>

text \<open>A node that copies a chunk to itself destroys it. The controller may name the source of a chunk as a target when
  it has not yet processed the source's own report. The request that arrives at the source truncates the very file the
  copy is being read from: nothing is sent, the attempt fails, and the cut-off store removes the chunk and reports it
  as failed.\<close>

lemma self_replication_destroys_chunk:
  assumes ok: "fs_ok (disk s)" and md: "scr_metadata req = Some md" and size: "ci_size md \<noteq> 0"
    and source: "fs_names (disk s) (chunk_path_of md) = Some src"
    and start: "store_begin env req s = Inr (s1, outs, Some h)"
    and copy: "ps_content session = fs_data (disk s1) src"
    and finish: "store_finish md5 (inp\<lparr>si_stream := replicated_bytes (ci_size md) session\<rparr>) req h s1 = Inr (s2, outs2)"
  shows "\<not> replicate_chunk (ci_size md) session \<and> content_at (disk s2) (chunk_path_of md) = None \<and>
    outs2 = [Report (SendChunkStatusReport (path_base (ci_file_name md)) (ci_id md) False (myAddr s1))]"
proof -
  note e = begin_effect [OF start md ok]
  have "h = src" using start md source
    by (auto simp: store_begin_def Let_def open_trunc_def split: if_splits option.splits)
  then have empty: "ps_content session = []" using e copy by (simp add: handle_ok_def)
  have pos: "0 < unat (ci_size md)" using size by (simp add: unat_gt_0)
  have "length (si_stream (inp\<lparr>si_stream := replicated_bytes (ci_size md) session\<rparr>)) = 0"
    using empty by (simp add: replicated_bytes_def)
  then have "disk s2 = remove_file (chunk_path_of md) (write_handle h [] (disk s1)) \<and> outs2 = [reportStatus md False s1]"
    using finish md pos by (simp add: store_finish_def Let_def) auto
  then show ?thesis using empty pos by (simp add: replicate_chunk_def reportStatus_def)
qed

theorem self_replication_destroys_chunk_witness:
  "\<exists>s s1 h src s2 outs2. content_at (disk s) (chunk_path_of demo_md) = Some ''ab'' \<and>
     fs_names (disk s) (chunk_path_of demo_md) = Some src \<and>
     store_begin demo_env demo_store s = Inr (s1, [Answer (SendResponse True ''Ready to receive chunk data'')], Some h) \<and>
     store_finish rev (demo_input (fs_data (disk s1) src)) demo_store h s1 = Inr (s2, outs2) \<and>
     content_at (disk s2) (chunk_path_of demo_md) = None"
proof -
  let ?p = "chunk_path_of demo_md"
  have md: "scr_metadata demo_store = Some demo_md" and acc: "accepts demo_env demo_md"
    by (simp_all add: demo_store_defs accepts_def)
  define s where "s = (fresh_node ''n:1'')\<lparr>disk := \<lparr>fs_dirs = {''f''}, fs_names = [?p \<mapsto> 0], fs_data = (\<lambda>_. ''ab''), fs_next = 1\<rparr>\<rparr>"
  have ok: "fs_ok (disk s)" by (auto simp: s_def fs_ok_def split: if_splits)
  have src: "fs_names (disk s) ?p = Some 0" "content_at (disk s) ?p = Some ''ab''" by (simp_all add: s_def content_at_def)
  obtain s1 h where b: "store_begin demo_env demo_store s = Inr (s1, [Answer (SendResponse True ''Ready to receive chunk data'')], Some h)"
    using store_begin_accepts [OF md acc] by blast
  define session where "session = \<lparr>ps_opened = [True], ps_dialled = True, ps_requestSent = True,
    ps_ready = Some (SendResponse True []), ps_content = fs_data (disk s1) 0, ps_dataSent = True, ps_final = None\<rparr>"
  obtain s2 outs2 where f: "store_finish rev ((demo_input [])\<lparr>si_stream := replicated_bytes (ci_size demo_md) session\<rparr>) demo_store h s1 = Inr (s2, outs2)"
    using store_finish_runs [OF md] by blast
  have "ci_size demo_md \<noteq> 0" "ps_content session = fs_data (disk s1) 0" by (simp_all add: demo_md_def session_def)
  from self_replication_destroys_chunk [OF ok md this(1) src(1) b this(2) f]
  have gone: "content_at (disk s2) ?p = None" by blast
  have "fs_data (disk s1) 0 = []"
    using b md src(1) by (auto simp: store_begin_def Let_def open_trunc_def split: if_splits option.splits)
  then have "demo_input (fs_data (disk s1) 0) = (demo_input [])\<lparr>si_stream := replicated_bytes (ci_size demo_md) session\<rparr>"
    by (simp add: demo_input_def replicated_bytes_def session_def)
  with b f gone src show ?thesis by metis
qed

lemma replicate_to_count:
  "replicate_to sz peers required addrs = (left, stored) \<Longrightarrow> required \<noteq> 0 \<Longrightarrow>
    unat left + length stored = unat required \<and> (\<forall>a \<in> set stored. a \<in> set addrs \<and> replicate_chunk sz (peers a))"
proof (induction addrs arbitrary: required left stored)
  case (Cons addr addrs)
  have dec: "unat (required - 1) + 1 = unat required"
    using unat_minus_one [OF Cons.prems(2)] Cons.prems(2) unat_gt_0 [of required] by simp
  show ?case
  proof (cases "replicate_chunk sz (peers addr)")
    case False
    then show ?thesis using Cons by auto
  next
    case True
    show ?thesis
    proof (cases "required - 1 = 0")
      case True
      with \<open>replicate_chunk sz (peers addr)\<close> Cons.prems dec show ?thesis by auto
    next
      case False
      then obtain stored' where "replicate_to sz peers (required - 1) addrs = (left, stored')" "stored = addr # stored'"
        using Cons.prems(1) True by (auto split: prod.splits)
      with Cons.IH [OF this(1) False] True dec show ?thesis by auto
    qed
  qed
qed auto

text \<open>C24: replication makes as many copies as are required, no more: at every moment the number still required and the
  number of copies made add up to the number asked for. Every copy was made in a session in which the other node
  confirmed it, on a node that an answer of the controller named; and once nothing is required any more, no further
  round is run.\<close>

theorem replication_count:
  assumes "manageReplication sz required rounds = (left, stored)"
  shows "unat left + length stored = unat required \<and>
    (\<forall>a \<in> set stored. \<exists>w peers. Answered w peers \<in> set rounds \<and> a \<in> set (round_nodes w) \<and> replicate_chunk sz (peers a)) \<and>
    (left = 0 \<longrightarrow> manageReplication sz required (rounds @ later) = (left, stored))"
  using assms
proof (induction rounds arbitrary: required left stored)
  case Nil
  then show ?case by (cases later) auto
next
  case (Cons r rs)
  show ?case
  proof (cases "required = 0")
    case False
    show ?thesis
    proof (cases r)
      case NoAnswer
      then show ?thesis using Cons False by auto
    next
      case (Answered w peers)
      obtain left1 stored1 left2 stored2 where one: "replicate_to sz peers required (round_nodes w) = (left1, stored1)"
        and rest: "manageReplication sz left1 rs = (left2, stored2)"
        by (cases "replicate_to sz peers required (round_nodes w)"; cases "manageReplication sz (fst (replicate_to sz peers required (round_nodes w))) rs") auto
      then have res: "left = left2" "stored = stored1 @ stored2" using Cons.prems False Answered by simp_all
      note c = replicate_to_count [OF one False] and IH = Cons.IH [OF rest]
      have "\<forall>a \<in> set stored. \<exists>w peers. Answered w peers \<in> set (r # rs) \<and> a \<in> set (round_nodes w) \<and> replicate_chunk sz (peers a)"
      proof
        fix a assume "a \<in> set stored"
        then consider "a \<in> set stored1" | "a \<in> set stored2" by (auto simp: res)
        then show "\<exists>w peers. Answered w peers \<in> set (r # rs) \<and> a \<in> set (round_nodes w) \<and> replicate_chunk sz (peers a)"
          by cases (use c IH Answered in \<open>metis list.set_intros\<close>)+
      qed
      then show ?thesis using c IH False one by (simp add: res Answered)
    qed
  qed (use Cons.prems in auto)
qed

definition demo_session :: "string \<Rightarrow> peer_session" where
  "demo_session addr = \<lparr>ps_opened = [True], ps_dialled = (addr \<noteq> ''b''), ps_requestSent = True,
     ps_ready = Some (SendResponse True []), ps_content = ''ab'', ps_dataSent = True, ps_final = Some (SendResponse True [])\<rparr>"

definition demo_rounds :: "repl_round list" where
  "demo_rounds = [NoAnswer, Answered (SendReplicaNodesResponse True [] (MapArrayAddressesToNodeInfo [''a'', ''b''])) demo_session,
     Answered (SendReplicaNodesResponse True [] (MapArrayAddressesToNodeInfo [''c'', ''d''])) demo_session]"

theorem replication_count_witness:
  "manageReplication 2 2 demo_rounds = (0, [''a'', ''c'']) \<and> manageReplication 2 2 (demo_rounds @ demo_rounds) = (0, [''a'', ''c''])"
proof -
  have "manageReplication 2 2 demo_rounds = (0, [''a'', ''c''])"
    by (simp add: demo_rounds_def demo_session_def round_nodes_def SendReplicaNodesResponse_def GetReplicaNodesResp_def
        MapArrayAddressesToNodeInfo_def replicate_chunk_def ok_response_def GetResponse_def SendResponse_def zero_NodeInfo_def)
  from replication_count [OF this, of demo_rounds] this show ?thesis by simp
qed

lemma pull_loop_outcome:
  assumes p: "p = chunkPath d cid"
  shows "pull_loop md5 p peers addrs marked fs = Inr (fs', marked', success) \<Longrightarrow> fs_ok fs \<Longrightarrow> success \<Longrightarrow>
    \<exists>addr \<in> set addrs. \<exists>resp md. pp_answer (peers addr) = Some (Wrapper_RetrieveChunkResp resp) \<and> rcr_metadata resp = Some md \<and>
      unat (ci_size md) \<le> length (pp_stream (peers addr)) \<and>
      md5 (take (unat (ci_size md)) (pp_stream (peers addr))) = ci_checksum md \<and>
      content_at fs' p = Some (take (unat (ci_size md)) (pp_stream (peers addr)))"
proof (induction addrs arbitrary: marked fs)
  case (Cons addr addrs)
  obtain fs1 r where pull: "pull_from md5 p (peers addr) fs = Inr (fs1, r)"
    using Cons.prems(1) by (auto simp: and_then_eq_Inr)
  show ?case
  proof (cases "r = Repaired")
    case True
    then have "fs' = fs1" using Cons.prems(1) pull by simp
    obtain resp md where resp: "pp_answer (peers addr) = Some (Wrapper_RetrieveChunkResp resp)" "rcr_metadata resp = Some md"
      and data: "pull_data md5 p (peers addr) md fs = (fs1, Repaired)"
      using pull True by (auto simp: pull_from_def and_then_eq_Inr GetRetrieveChunkResp_def split: if_splits option.splits wrapper.splits)
    obtain h fs0 where o: "open_trunc p fs = (h, fs0)" by (cases "open_trunc p fs") auto
    note f = open_trunc_facts [OF Cons.prems(2) o]
    have h: "handle_ok fs0 p h" unfolding handle_ok_def using f(1,2,4,8) by (auto dest: fs_okD)
    note w = write_chunk [OF f(1) h, where data = "take (unat (ci_size md)) (pp_stream (peers addr))"]
    have "p \<noteq> checksumPath p" by (simp add: p)
    then have "content_at fs1 p = Some (take (unat (ci_size md)) (pp_stream (peers addr)))"
      using data w(3) f(2) write_file_facts(4) [OF w(1), of "pp_checksumWritten (peers addr)" "checksumPath p" "ci_checksum md" fs1 p]
      by (auto simp: pull_data_def o Let_def split: if_splits option.splits)
    then show ?thesis
      using resp data by (auto simp: \<open>fs' = fs1\<close> pull_data_def o Let_def VerifyChecksum_def split: if_splits)
  next
    case False
    then have rest: "pull_loop md5 p peers addrs (marked \<or> r = Failed) fs1 = Inr (fs', marked', success)"
      using Cons.prems(1) pull by simp
    have "fs_ok fs1"
    proof (cases "fs1 = fs")
      case changed: False
      obtain md where "pull_data md5 p (peers addr) md fs = (fs1, r)"
        using pull changed by (auto simp: pull_from_def and_then_eq_Inr split: if_splits option.splits)
      moreover obtain h fs0 where o: "open_trunc p fs = (h, fs0)" by (cases "open_trunc p fs") auto
      ultimately show ?thesis
        using open_trunc_facts(1) [OF Cons.prems(2) o] False by (auto simp: pull_data_def o Let_def split: if_splits)
    qed (use Cons.prems(2) in simp)
    from Cons.IH [OF rest this Cons.prems(3)] show ?thesis by auto
  qed
qed simp

section \<open>Repair\<close>

lemma healthy_nodes_others: "healthy_nodes me cid locs = Inr ns \<Longrightarrow> me \<notin> set ns"
  by (induction locs) (auto simp: and_then_eq_Inr split: if_splits)


definition demo_peer :: "string \<Rightarrow> peer_pull" where
  "demo_peer addr = \<lparr>pp_dialled = True, pp_answer = Some (SendRetrieveChunkResponse True [] 2 ''ba''),
     pp_stream = (if addr = ''m:1'' then ''a'' else ''ab''), pp_openFails = False, pp_writeFails = False, pp_checksumWritten = True\<rparr>"

definition demo_locations :: wrapper where
  "demo_locations = SendGetFileResponse True [] [\<lparr>cn_metadata = Some demo_md,
     cn_nodes = MapArrayAddressesToNodeInfo [''n:1'', ''m:1'', ''o:1'']\<rparr>] 2"


end
