(* ===== verification/Chunking.thy ===== *)
theory Chunking
  imports GoLib
begin

text \<open>
  How the DFS client cuts a file into chunks and puts it together again (\<open>dfs/client/client.go\<close>:
  \<open>calculateChunks\<close>, the reading loop of \<open>put\<close>, \<open>mergeChunks\<close>, the \<open>--chunk-size\<close> option of \<open>main\<close>). A file
  is its content; reading it succeeds. Sizes and offsets of files are natural numbers (the code's
  \<open>int64\<close>), chunk sizes are 32 bits wide and wrap around.
\<close>

section \<open>Chunk sizes\<close>

text \<open>
  The search for the end of a line from the last byte of a chunk on, in blocks of 4096 bytes: the number of
  bytes up to and including the newline, or to the end of the file, modulo 2 to the 32.
\<close>

function extra_bytes :: "string \<Rightarrow> u32 \<Rightarrow> u32" where
  "extra_bytes rest extraBytes =
     (let buf = take 4096 rest in
      if nl \<in> set buf then extraBytes + word_of_nat (length (takeWhile (\<lambda>c. c \<noteq> nl) buf)) + 1
      else if rest = [] then extraBytes
      else extra_bytes (drop 4096 rest) (extraBytes + word_of_nat (length buf)))"
  by auto
termination by (relation "measure (\<lambda>(rest, e). length rest)") auto

declare extra_bytes.simps [simp del]

text \<open>The loop over a text file; \<open>None\<close> when it never ends.\<close>

partial_function (option) text_chunks :: "string \<Rightarrow> u32 \<Rightarrow> nat \<Rightarrow> u32 list option" where
  "text_chunks content maxChunkSize currentOffset =
     (if currentOffset < length content then
        let remaining = length content - currentOffset in
        if remaining \<le> unat maxChunkSize then Some [word_of_nat remaining]
        else let targetOffset = currentOffset + unat maxChunkSize - 1;
                 currentChunkSize = (maxChunkSize - 1) + extra_bytes (drop targetOffset content) 0
          in Option.bind (text_chunks content maxChunkSize (currentOffset + unat currentChunkSize))
               (\<lambda>chunkSizes. Some (currentChunkSize # chunkSizes))
      else Some [])"

definition binary_chunks :: "nat \<Rightarrow> u32 \<Rightarrow> u32 list" where
  "binary_chunks fileSize maxChunkSize =
     (let numChunks = (fileSize + unat maxChunkSize - 1) div unat maxChunkSize in
      map (\<lambda>i. word_of_nat (if i = numChunks - 1 then fileSize - i * unat maxChunkSize else unat maxChunkSize))
        [0..<numChunks])"

definition calculateChunks :: "string \<Rightarrow> bool \<Rightarrow> u32 \<Rightarrow> u32 list option" where
  "calculateChunks content isText maxChunkSize =
     (if isText then text_chunks content maxChunkSize 0 else Some (binary_chunks (length content) maxChunkSize))"

text \<open>The size limit from the command line: \<open>None\<close> ends the program.\<close>

definition minChunkSize :: u32 where
  "minChunkSize = 67108864"

definition defaultChunkSize :: u32 where
  "defaultChunkSize = 134217728"

definition maxChunkSize :: u32 where
  "maxChunkSize = 268435456"

definition chunk_size_option :: "string \<Rightarrow> u32 option" where
  "chunk_size_option arg = (case parse_uint 32 arg of
      None \<Rightarrow> None
    | Some parsed \<Rightarrow> let chunkSize = (word_of_nat parsed :: u32) in
        Some (if chunkSize = 0 then defaultChunkSize
              else if chunkSize < minChunkSize then minChunkSize
              else if chunkSize > maxChunkSize then maxChunkSize
              else chunkSize))"

section \<open>Uploading and merging\<close>

text \<open>\<open>io.ReadFull\<close> into a fresh buffer per chunk: a file that has become shorter leaves zero bytes.\<close>

fun read_chunks :: "u32 list \<Rightarrow> string \<Rightarrow> string list" where
  "read_chunks [] rest = []"
| "read_chunks (expectedSize # sizes) rest =
     (take (unat expectedSize) rest @ replicate (unat expectedSize - length rest) (CHR 0x00))
       # read_chunks sizes (drop (unat expectedSize) rest)"

text \<open>The part files in the order of the locations, each removed once it is read; a missing one ends the program.\<close>

fun mergeChunks :: "(u64 \<Rightarrow> string option) \<Rightarrow> u64 list \<Rightarrow> string result" where
  "mergeChunks parts [] = Inr []"
| "mergeChunks parts (cid # cids) = (case parts cid of
      None \<Rightarrow> Inl Fatal
    | Some data \<Rightarrow> and_then (mergeChunks (parts(cid := None)) cids) (\<lambda>rest. Inr (data @ rest)))"

section \<open>The end of a line\<close>

definition line_end :: "string \<Rightarrow> nat" where
  "line_end rest = (if nl \<in> set rest then Suc (length (takeWhile (\<lambda>c. c \<noteq> nl) rest)) else length rest)"

lemma line_end_append: "nl \<notin> set xs \<Longrightarrow> line_end (xs @ ys) = length xs + line_end ys"
proof -
  assume "nl \<notin> set xs"
  then have "takeWhile (\<lambda>c. c \<noteq> nl) (xs @ ys) = xs @ takeWhile (\<lambda>c. c \<noteq> nl) ys"
    by (intro takeWhile_append2) auto
  with \<open>nl \<notin> set xs\<close> show ?thesis by (simp add: line_end_def)
qed

lemma extra_bytes_eq: "extra_bytes rest e = e + word_of_nat (line_end rest)"
proof (induction rest e rule: extra_bytes.induct)
  case (1 rest e)
  let ?buf = "take 4096 rest" and ?more = "drop 4096 rest"
  have split: "rest = ?buf @ ?more" by simp
  show ?case
  proof (cases "nl \<in> set ?buf")
    case True
    then have "takeWhile (\<lambda>c. c \<noteq> nl) rest = takeWhile (\<lambda>c. c \<noteq> nl) ?buf"
      by (subst split) (auto simp only: takeWhile_append1)
    moreover have "nl \<in> set rest" using True by (meson in_set_takeD)
    ultimately show ?thesis using True by (subst extra_bytes.simps) (simp add: line_end_def Let_def algebra_simps)
  next
    case False
    then have "line_end rest = length ?buf + line_end ?more"
      using line_end_append [of ?buf ?more] by (simp only: append_take_drop_id simp_thms)
    with False 1 show ?thesis
      by (cases "rest = []") (subst extra_bytes.simps, simp add: line_end_def Let_def)+
  qed
qed

lemma line_end_bounds: "rest \<noteq> [] \<Longrightarrow> 0 < line_end rest \<and> line_end rest \<le> length rest"
proof -
  assume ne: "rest \<noteq> []"
  have "length (takeWhile (\<lambda>c. c \<noteq> nl) rest) < length rest" if "nl \<in> set rest"
  proof -
    have "takeWhile (\<lambda>c. c \<noteq> nl) rest \<noteq> rest" using that by (metis (full_types) set_takeWhileD)
    then show ?thesis by (metis le_neq_implies_less length_takeWhile_le takeWhile_eq_take take_all_iff)
  qed
  with ne show ?thesis by (auto simp: line_end_def Suc_le_eq)
qed

lemma line_end_last: "line_end rest < length rest \<Longrightarrow> rest ! (line_end rest - 1) = nl"
  using nth_length_takeWhile [of "\<lambda>c. c \<noteq> nl" rest]
  by (auto simp: line_end_def split: if_splits)

text \<open>The reference: cut after the first newline at or past the limit.\<close>

definition cut_at :: "string \<Rightarrow> nat \<Rightarrow> nat \<Rightarrow> nat" where
  "cut_at content mx off = mx - 1 + line_end (drop (off + mx - 1) content)"

text \<open>No chunk may reach 4 GiB, or its size wraps around.\<close>

definition short_lines :: "string \<Rightarrow> nat \<Rightarrow> bool" where
  "short_lines content mx \<longleftrightarrow> (\<forall>off. off + mx < length content \<longrightarrow> cut_at content mx off < 2 ^ 32)"

lemma text_step:
  assumes "0 < unat mx" "unat mx < length content - off" "cut_at content (unat mx) off < 2 ^ 32"
  shows "unat ((mx - 1) + extra_bytes (drop (off + unat mx - 1) content) 0) = cut_at content (unat mx) off"
proof -
  have "unat (mx - 1) = unat mx - 1" using assms(1) by (intro unat_minus_one) auto
  moreover have "word_of_nat (unat (mx - 1)) = mx - 1" by simp
  ultimately have "mx - 1 = word_of_nat (unat mx - 1)" by simp
  then have "(mx - 1) + extra_bytes (drop (off + unat mx - 1) content) 0 = word_of_nat (cut_at content (unat mx) off)"
    by (simp add: extra_bytes_eq cut_at_def)
  then show ?thesis using assms(3) by (simp add: unat_of_nat)
qed

function text_cuts :: "string \<Rightarrow> nat \<Rightarrow> nat \<Rightarrow> nat list" where
  "text_cuts content mx off =
     (if off < length content \<and> 0 < mx then
        if length content - off \<le> mx then [length content - off]
        else cut_at content mx off # text_cuts content mx (off + cut_at content mx off)
      else [])"
  by auto
termination
proof (relation "measure (\<lambda>(content, mx, off). length content - off)")
  fix content :: string and mx off
  assume a: "off < length content \<and> 0 < mx" "\<not> length content - off \<le> mx"
  then have "drop (off + mx - 1) content \<noteq> []" by auto
  then have "0 < cut_at content mx off" using line_end_bounds by (simp add: cut_at_def)
  then show "((content, mx, off + cut_at content mx off), content, mx, off) \<in> measure (\<lambda>(content, mx, off). length content - off)"
    using a by simp
qed simp

declare text_cuts.simps [simp del]

lemma cut_at_bounds:
  assumes "0 < mx" "mx < length content - off"
  shows "mx \<le> cut_at content mx off" "off + cut_at content mx off \<le> length content"
    "off + cut_at content mx off < length content \<Longrightarrow> content ! (off + cut_at content mx off - 1) = nl"
proof -
  let ?rest = "drop (off + mx - 1) content"
  have ne: "?rest \<noteq> []" using assms by auto
  note b = line_end_bounds [OF ne]
  show "mx \<le> cut_at content mx off" using b assms(1) unfolding cut_at_def by linarith
  show "off + cut_at content mx off \<le> length content"
    using b assms unfolding cut_at_def length_drop by linarith
  assume "off + cut_at content mx off < length content"
  then have "line_end ?rest < length ?rest" using assms by (simp add: cut_at_def)
  then have "?rest ! (line_end ?rest - 1) = nl" by (rule line_end_last)
  moreover have "off + mx - 1 + (line_end ?rest - 1) = off + cut_at content mx off - 1"
    using b assms by (simp add: cut_at_def)
  ultimately show "content ! (off + cut_at content mx off - 1) = nl"
    using b by (subst (asm) nth_drop) (use assms in auto)
qed

text \<open>A file below 4 GiB has no line that is too long.\<close>

lemma short_lines_small: "0 < mx \<Longrightarrow> length content < 2 ^ 32 \<Longrightarrow> short_lines content mx"
proof (unfold short_lines_def, intro allI impI)
  fix off
  assume "0 < mx" "length content < 2 ^ 32" "off + mx < length content"
  then have "off + cut_at content mx off \<le> length content" by (intro cut_at_bounds(2)) auto
  with \<open>length content < 2 ^ 32\<close> show "cut_at content mx off < 2 ^ 32" by simp
qed

lemma text_chunks_cuts:
  "P = unat mx \<Longrightarrow> mx \<noteq> 0 \<Longrightarrow> short_lines content P \<Longrightarrow>
    text_chunks content mx off = Some (map word_of_nat (text_cuts content P off)) \<and>
    (\<forall>n \<in> set (text_cuts content P off). n < 2 ^ 32)"
proof (induction content P off rule: text_cuts.induct)
  case (1 content P off)
  have pos: "0 < P" using 1(2,3) by (simp add: unat_gt_0)
  have bound: "P < 2 ^ 32" using 1(2) unsigned_less [of mx, where ?'a = nat] by simp
  show ?case
  proof (cases "off < length content")
    case False
    then show ?thesis by (simp add: text_chunks.simps text_cuts.simps)
  next
    case in_file: True
    show ?thesis
    proof (cases "length content - off \<le> P")
      case True
      then have "text_cuts content P off = [length content - off]"
        using in_file pos by (subst text_cuts.simps) simp
      moreover have "text_chunks content mx off = Some [word_of_nat (length content - off)]"
        using True in_file 1(2) by (subst text_chunks.simps) (simp add: Let_def)
      ultimately show ?thesis using True bound by simp
    next
      case False
      let ?cut = "cut_at content P off"
      have cut: "?cut < 2 ^ 32" using 1(4) False by (simp add: short_lines_def)
      have size: "unat ((mx - 1) + extra_bytes (drop (off + unat mx - 1) content) 0) = ?cut"
        using text_step [of mx content off] pos cut False 1(2) by simp
      have IH: "text_chunks content mx (off + ?cut) = Some (map word_of_nat (text_cuts content P (off + ?cut))) \<and>
          (\<forall>n \<in> set (text_cuts content P (off + ?cut)). n < 2 ^ 32)"
        using 1(1) [OF _ False] in_file pos 1(2-4) by simp
      have "(mx - 1) + extra_bytes (drop (off + unat mx - 1) content) 0 = word_of_nat ?cut"
        using size by (metis of_nat_unat ucast_id unsigned_of_nat)
      then have "text_chunks content mx off = Some (word_of_nat ?cut # map word_of_nat (text_cuts content P (off + ?cut)))"
        using IH in_file False size 1(2) by (subst text_chunks.simps) (simp add: Let_def)
      moreover have "text_cuts content P off = ?cut # text_cuts content P (off + ?cut)"
        using in_file False pos by (subst text_cuts.simps) simp
      ultimately show ?thesis using IH cut by simp
    qed
  qed
qed

text \<open>Cutting a file at consecutive sizes.\<close>

fun cut_file :: "nat list \<Rightarrow> string \<Rightarrow> string list" where
  "cut_file [] rest = []"
| "cut_file (n # ns) rest = take n rest # cut_file ns (drop n rest)"

lemma concat_cut_file: "sum_list ns = length rest \<Longrightarrow> concat (cut_file ns rest) = rest"
proof (induction ns arbitrary: rest)
  case (Cons n ns)
  then have "sum_list ns = length (drop n rest)" by simp
  then show ?case using Cons.IH by simp
qed simp

lemma read_chunks_cut:
  "sum_list ns = length rest \<Longrightarrow> \<forall>n \<in> set ns. n < 2 ^ 32 \<Longrightarrow>
    read_chunks (map word_of_nat ns) rest = cut_file ns rest"
proof (induction ns arbitrary: rest)
  case (Cons n ns)
  then have "unat (word_of_nat n :: u32) = n" by (simp add: unat_of_nat)
  with Cons show ?case by simp
qed simp

lemma sum_text_cuts: "0 < mx \<Longrightarrow> off \<le> length content \<Longrightarrow> sum_list (text_cuts content mx off) = length content - off"
proof (induction content mx off rule: text_cuts.induct)
  case (1 content mx off)
  show ?case
  proof (cases "off < length content \<and> \<not> length content - off \<le> mx")
    case True
    then have "off + cut_at content mx off \<le> length content" using cut_at_bounds(2) 1(2) by simp
    with 1 True show ?thesis by (subst text_cuts.simps) simp
  next
    case False
    with 1(2,3) show ?thesis by (subst text_cuts.simps) auto
  qed
qed

section \<open>Lines are not cut\<close>

lemma lines_from_complete: "last a = nl \<Longrightarrow> a \<noteq> [] \<Longrightarrow> lines_from cur (a @ b) = lines_from cur a @ lines_from [] b"
  by (induction a arbitrary: cur) (auto split: if_splits)

lemma raw_lines_complete: "a = [] \<or> last a = nl \<Longrightarrow> raw_lines (a @ b) = raw_lines a @ raw_lines b"
  using lines_from_complete [of a "[]" b] by (cases "a = []") (simp_all add: raw_lines_def)

lemma text_cuts_lines:
  assumes "0 < mx"
  shows "off \<le> length content \<Longrightarrow>
    raw_lines (drop off content) = concat (map raw_lines (cut_file (text_cuts content mx off) (drop off content))) \<and>
    (\<forall>c \<in> set (butlast (cut_file (text_cuts content mx off) (drop off content))). last c = nl \<and> mx \<le> length c)"
  using assms
proof (induction content mx off rule: text_cuts.induct)
  case (1 content mx off)
  show ?case
  proof (cases "off < length content \<and> \<not> length content - off \<le> mx")
    case False
    with 1(2,3) show ?thesis by (subst (1 2) text_cuts.simps) auto
  next
    case True
    let ?cut = "cut_at content mx off" and ?ns = "text_cuts content mx (off + cut_at content mx off)"
    note b = cut_at_bounds [of mx content off]
    have len: "off + ?cut \<le> length content" "mx \<le> ?cut" using b True 1(3) by simp_all
    have IH: "raw_lines (drop (off + ?cut) content) = concat (map raw_lines (cut_file ?ns (drop (off + ?cut) content)))"
      "\<forall>c \<in> set (butlast (cut_file ?ns (drop (off + ?cut) content))). last c = nl \<and> mx \<le> length c"
      using 1(1) True 1(3) len by auto
    let ?c = "take ?cut (drop off content)"
    have cuts: "cut_file (text_cuts content mx off) (drop off content) = ?c # cut_file ?ns (drop (off + ?cut) content)"
      using True 1(3) by (subst text_cuts.simps) (simp add: add.commute)
    have "drop (off + ?cut) content = drop ?cut (drop off content)" by (simp add: add.commute)
    then have split: "drop off content = ?c @ drop (off + ?cut) content" by (metis append_take_drop_id)
    show ?thesis
    proof (cases "off + ?cut < length content")
      case True
      have "0 < ?cut" using len(2) 1(3) by simp
      then have c: "?c \<noteq> []" "length ?c = ?cut" using len True by auto
      have "last ?c = content ! (off + ?cut - 1)"
        using c \<open>0 < ?cut\<close> len by (subst last_conv_nth [OF c(1)]) (simp add: nth_drop)
      then have last: "last ?c = nl" using b(3) True \<open>off < length content \<and> _\<close> 1(3) by simp
      have "raw_lines (drop off content) = raw_lines ?c @ raw_lines (drop (off + ?cut) content)"
        by (subst split) (rule raw_lines_complete, simp add: last)
      then show ?thesis unfolding cuts using IH last c len by (auto split: if_splits)
    next
      case False
      then have "?ns = []" "drop (off + ?cut) content = []" by (simp_all add: text_cuts.simps)
      then show ?thesis unfolding cuts using split by simp
    qed
  qed
qed

end
