(* ===== verification/Retrieval.thy ===== *)
theory Retrieval
  imports Chunking DfsMessages
begin

text \<open>
  The DFS client beyond chunk sizes (\<open>dfs/client/client.go\<close>): which candidate node an upload of a chunk ends on, the
  order in which holders of a chunk are asked, the download of a chunk and of a file, the other commands, and
  the dispatch of the command line. What each connection brings is an input; \<open>Fatal\<close> is \<open>log.Fatal\<close>.
\<close>

section \<open>Uploading a chunk\<close>

text \<open>
  What happens with one candidate node: connecting and sending the request, the first answer, sending the
  data, the final answer. \<open>None\<close> is a receive error.
\<close>

record candidate =
  cd_dialled :: bool
  cd_requestSent :: bool
  cd_ready :: "wrapper option"
  cd_dataSent :: bool
  cd_final :: "wrapper option"

definition client_ok :: "wrapper option \<Rightarrow> bool" where
  "client_ok w = (case w of None \<Rightarrow> False | Some w \<Rightarrow>
     (case GetResponse w of None \<Rightarrow> False | Some r \<Rightarrow> resp_ok r))"

definition candidate_stores :: "candidate \<Rightarrow> bool" where
  "candidate_stores cd \<longleftrightarrow> cd_dialled cd \<and> cd_requestSent cd \<and> client_ok (cd_ready cd) \<and> cd_dataSent cd \<and> client_ok (cd_final cd)"

text \<open>The loop over the candidates; if all fail the program ends.\<close>

fun upload_chunk :: "(string \<Rightarrow> candidate) \<Rightarrow> string list \<Rightarrow> string result" where
  "upload_chunk cands [] = Inl Fatal"
| "upload_chunk cands (addr # addrs) =
     (if candidate_stores (cands addr) then Inr addr else upload_chunk cands addrs)"

definition store_request :: "(bytes \<Rightarrow> bytes) \<Rightarrow> string \<Rightarrow> u64 \<Rightarrow> bytes \<Rightarrow> wrapper" where
  "store_request md5 fileName cid data = SendStoreChunkRequest fileName cid (word_of_nat (length data)) (md5 data) True"

text \<open>
  The loop of \<open>put\<close> over the allocations: each takes as many bytes of the file as the chunk of its id has,
  padded with zero bytes past the end, and goes to one of its nodes.
\<close>

fun put_chunks ::
    "(u64 \<Rightarrow> string \<Rightarrow> candidate) \<Rightarrow> u32 list \<Rightarrow> ChunkAllocation list \<Rightarrow> string \<Rightarrow> (u64 \<times> bytes \<times> string) list result" where
  "put_chunks cands sizes [] rest = Inr []"
| "put_chunks cands sizes (alloc # allocs) rest = and_then (deref (cn_metadata alloc)) (\<lambda>md.
     if unat (ci_id md) < length sizes then
       let expectedSize = unat (sizes ! unat (ci_id md));
           data = take expectedSize rest @ replicate (expectedSize - length rest) (CHR 0x00)
       in and_then (upload_chunk (cands (ci_id md)) (map ni_address (cn_nodes alloc))) (\<lambda>addr.
          and_then (put_chunks cands sizes allocs (drop expectedSize rest)) (\<lambda>ups. Inr ((ci_id md, data, addr) # ups)))
     else Inl Panic)"

text \<open>An answer of the controller with a response that says ok; anything else ends the program.\<close>

definition checked :: "Response option \<Rightarrow> 'a \<Rightarrow> 'a result" where
  "checked resp x = (case resp of None \<Rightarrow> Inl Fatal | Some r \<Rightarrow> if resp_ok r then Inr x else Inl Fatal)"

text \<open>\<open>put\<close>: \<open>None\<close> when the chunk calculation does not end. The controller's answer is \<open>None\<close> for a receive error.\<close>

definition is_text_file :: "string \<Rightarrow> bool" where
  "is_text_file fileName = has_suffix (to_lower fileName) ''.txt''"

definition put_request :: "string \<Rightarrow> string \<Rightarrow> u32 \<Rightarrow> u32 list \<Rightarrow> wrapper" where
  "put_request fileName content chunkSize sizes =
     SendPutFileRequest (path_base fileName) (word_of_nat (length content)) chunkSize (word_of_nat (length sizes))"

definition put ::
    "string \<Rightarrow> string \<Rightarrow> u32 \<Rightarrow> (wrapper \<Rightarrow> wrapper option) \<Rightarrow> (u64 \<Rightarrow> string \<Rightarrow> candidate) \<Rightarrow> (u64 \<times> bytes \<times> string) list result option" where
  "put fileName content chunkSize controller cands =
     map_option (\<lambda>sizes. case controller (put_request fileName content chunkSize sizes) of
         None \<Rightarrow> Inl Fatal
       | Some w \<Rightarrow> (case GetPutFileResp w of
           None \<Rightarrow> Inl Fatal
         | Some resp \<Rightarrow> and_then (checked (pfr_resp resp) (pfr_allocations resp)) (\<lambda>allocs. put_chunks cands sizes allocs content)))
       (calculateChunks content (is_text_file fileName) chunkSize)"

section \<open>The order in which nodes are asked\<close>

text \<open>\<open>sort.SliceStable\<close>: each element moves left past the elements it is less than.\<close>

fun move_left :: "('a \<Rightarrow> 'a \<Rightarrow> bool) \<Rightarrow> 'a \<Rightarrow> 'a list \<Rightarrow> 'a list" where
  "move_left lt x [] = [x]"
| "move_left lt x (y # ys) = (if lt x y then y # move_left lt x ys else x # y # ys)"

definition stable_sort :: "('a \<Rightarrow> 'a \<Rightarrow> bool) \<Rightarrow> 'a list \<Rightarrow> 'a list" where
  "stable_sort lt xs = rev (fold (move_left lt) xs [])"

definition cluster_prefix :: "string \<Rightarrow> string" where
  "cluster_prefix hostname =
     (if contains_str hostname ''orion'' then ''orion'' else if contains_str hostname ''mc'' then ''mc'' else [])"

definition address_less :: "string \<Rightarrow> string \<Rightarrow> string \<Rightarrow> bool" where
  "address_less hostname addrI addrJ =
     (let localI = has_prefix addrI (hostname @ '':''); localJ = has_prefix addrJ (hostname @ '':'');
          prefix = cluster_prefix hostname;
          nearI = contains_str addrI prefix; nearJ = contains_str addrJ prefix
      in if localI \<and> \<not> localJ then True
         else if \<not> localI \<and> localJ then False
         else if prefix \<noteq> [] \<and> nearI \<and> \<not> nearJ then True
         else False)"

text \<open>\<open>None\<close> for a host name that cannot be had.\<close>

definition sortNodeAddresses :: "string option \<Rightarrow> string list \<Rightarrow> string list" where
  "sortNodeAddresses hostname addrs = (case hostname of
      None \<Rightarrow> addrs
    | Some h \<Rightarrow> stable_sort (address_less h) addrs)"

section \<open>Downloading a chunk\<close>

record holder =
  hd_dialled :: bool
  hd_requestSent :: bool
  hd_answer :: "wrapper option"
  hd_createFails :: bool
  hd_stream :: bytes
  hd_copyFails :: bool

text \<open>\<open>util.DeadlineSeconds\<close>: two seconds for every MiB, at least two.\<close>

definition DeadlineSeconds :: "u64 \<Rightarrow> u64" where
  "DeadlineSeconds sz = max (sz div 1048576) 1 * 2"

text \<open>One holder: the part it leaves, \<open>None\<close> if the next one has to be asked.\<close>

definition chunk_from :: "(bytes \<Rightarrow> bytes) \<Rightarrow> holder \<Rightarrow> bytes option result" where
  "chunk_from md5 h =
     (if \<not> hd_dialled h \<or> \<not> hd_requestSent h then Inr None
      else (case hd_answer h of
        None \<Rightarrow> Inr None
      | Some w \<Rightarrow> (case GetRetrieveChunkResp w of
          None \<Rightarrow> Inr None
        | Some resp \<Rightarrow> (case rcr_resp resp of
            None \<Rightarrow> Inr None
          | Some r \<Rightarrow>
              if \<not> resp_ok r then Inr None
              else if hd_createFails h then Inl Fatal
              else and_then (deref (rcr_metadata resp)) (\<lambda>md.
                let data = take (unat (ci_size md)) (hd_stream h) in
                if length data < unat (ci_size md) \<or> hd_copyFails h then Inr None
                else if md5 data \<noteq> ci_checksum md then Inr None
                else Inr (Some data))))))"

fun getChunk :: "(bytes \<Rightarrow> bytes) \<Rightarrow> (string \<Rightarrow> holder) \<Rightarrow> string list \<Rightarrow> bytes option result" where
  "getChunk md5 holders [] = Inr None"
| "getChunk md5 holders (addr # addrs) = and_then (chunk_from md5 (holders addr)) (\<lambda>part. case part of
      None \<Rightarrow> getChunk md5 holders addrs
    | Some data \<Rightarrow> Inr (Some data))"

text \<open>All chunks of a file; one that cannot be had ends the program.\<close>

fun get_parts ::
    "(bytes \<Rightarrow> bytes) \<Rightarrow> string option \<Rightarrow> (u64 \<Rightarrow> string \<Rightarrow> holder) \<Rightarrow> ChunkLocation list \<Rightarrow> (u64 \<rightharpoonup> bytes) result" where
  "get_parts md5 hostname holders [] = Inr Map.empty"
| "get_parts md5 hostname holders (loc # locs) = and_then (deref (cn_metadata loc)) (\<lambda>md.
     and_then (getChunk md5 (holders (ci_id md)) (sortNodeAddresses hostname (map ni_address (cn_nodes loc)))) (\<lambda>part. case part of
       None \<Rightarrow> Inl Fatal
     | Some data \<Rightarrow> and_then (get_parts md5 hostname holders locs) (\<lambda>parts. Inr (parts(ci_id md \<mapsto> data)))))"

definition mergeThreshold :: u64 where
  "mergeThreshold = 5368709120"

definition spacePadding :: u64 where
  "spacePadding = 268435456"

text \<open>The result of a download: one file, or the parts, if the user did not want a large file merged.\<close>

datatype download = Merged bytes | Parts "u64 \<rightharpoonup> bytes"

definition get ::
    "(bytes \<Rightarrow> bytes) \<Rightarrow> string option \<Rightarrow> wrapper option \<Rightarrow> u64 \<Rightarrow> string \<Rightarrow> (u64 \<Rightarrow> string \<Rightarrow> holder) \<Rightarrow> download result" where
  "get md5 hostname answer freeSpace reply holders = (case answer of
      None \<Rightarrow> Inl Fatal
    | Some w \<Rightarrow> (case GetGetFileResp w of
        None \<Rightarrow> Inl Fatal
      | Some resp \<Rightarrow> and_then (checked (gfr_resp resp) ()) (\<lambda>_. and_then (deref (gfr_metadata resp)) (\<lambda>fi.
          if freeSpace < fi_size fi + spacePadding then Inl Fatal
          else let merge = (fi_size fi \<le> mergeThreshold \<or> to_lower (trim_space reply) = ''y'') in
            and_then (get_parts md5 hostname holders (gfr_locations resp)) (\<lambda>parts.
              if merge then and_then (mergeChunks parts (map (\<lambda>loc. ci_id (the (cn_metadata loc))) (gfr_locations resp)))
                (\<lambda>data. Inr (Merged data))
              else Inr (Parts parts))))))"

section \<open>The other commands\<close>

definition client_delete :: "wrapper option \<Rightarrow> unit result" where
  "client_delete answer = (case answer of
      None \<Rightarrow> Inl Fatal
    | Some w \<Rightarrow> (case GetResponse w of None \<Rightarrow> Inl Fatal | Some r \<Rightarrow> if resp_ok r then Inr () else Inl Fatal))"

definition client_list :: "wrapper option \<Rightarrow> FileInfo list result" where
  "client_list answer = (case answer of
      Some (Wrapper_ListFilesResp resp) \<Rightarrow> checked (lfr_resp resp) (lfr_files resp)
    | _ \<Rightarrow> Inl Fatal)"

text \<open>The lines of the listing, after the heading.\<close>

definition list_lines :: "FileInfo list \<Rightarrow> string list" where
  "list_lines fs = (if fs = [] then [''no files were found.'']
     else map (\<lambda>f. dec_str (unat (fi_size f)) @ CHR '' '' # fi_name f) fs)"

definition client_nodes :: "wrapper option \<Rightarrow> (u64 \<times> u64 \<times> NodeInfo list) result" where
  "client_nodes answer = (case answer of
      Some (Wrapper_StatsResp resp) \<Rightarrow> checked (nir_resp resp) (nir_total_used resp, nir_total_free resp, nir_node_stats resp)
    | _ \<Rightarrow> Inl Fatal)"

section \<open>The command line\<close>

datatype action =
    Usage
  | InvalidChunkSize
  | DoPut string u32
  | DoGet string string
  | DoDelete string
  | DoList
  | DoNodes
  | InvalidAction string

definition client_main :: "string list \<Rightarrow> action result" where
  "client_main args =
     (if length args < 3 then Inr Usage
      else let action = to_lower (args ! 2); fileName = (if length args \<ge> 4 then args ! 3 else []) in
        if action = ''put'' then
          (if length args \<ge> 5 \<and> args ! 4 = ''--chunk-size'' then
             (if length args < 6 then Inl Panic
              else (case chunk_size_option (args ! 5) of
                None \<Rightarrow> Inr InvalidChunkSize
              | Some chunkSize \<Rightarrow> Inr (DoPut fileName chunkSize)))
           else Inr (DoPut fileName defaultChunkSize))
        else if action = ''get'' then Inr (DoGet fileName (if length args \<ge> 5 then args ! 4 else ''.''))
        else if action = ''delete'' then Inr (DoDelete fileName)
        else if action = ''list'' then Inr DoList
        else if action = ''nodes'' then Inr DoNodes
        else Inr (InvalidAction action))"

text \<open>The exit status of the cases in which nothing is asked of the controller.\<close>

definition exit_status :: "action \<Rightarrow> nat option" where
  "exit_status a = (case a of
      Usage \<Rightarrow> Some 1
    | InvalidChunkSize \<Rightarrow> Some 1
    | InvalidAction _ \<Rightarrow> Some 0
    | _ \<Rightarrow> None)"

end
