(* ===== verification/KvHeap.thy ===== *)
theory KvHeap
  imports GoLib
begin

text \<open>
  The priority queue of the k-way merges (\<open>mapreduce/util/sort.go\<close>): the binary heap of
  \<open>container/heap\<close> over a slice, with the slice operations of \<open>ScannerHeap\<close>. The interface
  \<open>priority_queue\<close> says what a merge needs of it; the heap is its interpretation.
\<close>

section \<open>The slice operations\<close>

text \<open>\<open>Swap\<close>, and the loops \<open>up\<close> and \<open>down\<close> of \<open>container/heap\<close> with \<open>Less\<close> by a key.\<close>

definition Swap :: "nat \<Rightarrow> nat \<Rightarrow> 'a list \<Rightarrow> 'a list" where
  "Swap i j h = h[i := h ! j, j := h ! i]"

definition Less :: "('a \<Rightarrow> 'k::linorder) \<Rightarrow> 'a list \<Rightarrow> nat \<Rightarrow> nat \<Rightarrow> bool" where
  "Less key h i j \<longleftrightarrow> key (h ! i) < key (h ! j)"

function heap_up :: "('a \<Rightarrow> 'k::linorder) \<Rightarrow> 'a list \<Rightarrow> nat \<Rightarrow> 'a list" where
  "heap_up key h j = (let i = (j - 1) div 2 in
     if i = j \<or> \<not> Less key h j i then h else heap_up key (Swap i j h) i)"
  by auto
termination by (relation "measure (\<lambda>(key, h, j). j)") auto

function heap_down :: "('a \<Rightarrow> 'k::linorder) \<Rightarrow> 'a list \<Rightarrow> nat \<Rightarrow> nat \<Rightarrow> 'a list" where
  "heap_down key h i n = (let j1 = 2 * i + 1 in
     if j1 \<ge> n then h
     else let j = (if j1 + 1 < n \<and> Less key h (j1 + 1) j1 then j1 + 1 else j1) in
       if \<not> Less key h j i then h else heap_down key (Swap i j h) j n)"
  by auto
termination by (relation "measure (\<lambda>(key, h, i, n). n - i)") auto

declare heap_up.simps [simp del] heap_down.simps [simp del]

definition heap_push :: "('a \<Rightarrow> 'k::linorder) \<Rightarrow> 'a \<Rightarrow> 'a list \<Rightarrow> 'a list" where
  "heap_push key x h = heap_up key (h @ [x]) (length h)"

definition heap_pop :: "('a \<Rightarrow> 'k::linorder) \<Rightarrow> 'a list \<Rightarrow> 'a \<times> 'a list" where
  "heap_pop key h = (let n = length h - 1; h' = heap_down key (Swap 0 n h) 0 n in (h' ! n, take n h'))"

section \<open>Interface: a priority queue\<close>

locale priority_queue =
  fixes key :: "'a \<Rightarrow> 'k::linorder"
    and empty :: 'q
    and push :: "'a \<Rightarrow> 'q \<Rightarrow> 'q"
    and pop :: "'q \<Rightarrow> 'a \<times> 'q"
    and elems :: "'q \<Rightarrow> 'a multiset"
    and ok :: "'q \<Rightarrow> bool"
  assumes ok_empty: "ok empty"
    and elems_empty: "elems empty = {#}"
    and ok_push: "ok q \<Longrightarrow> ok (push x q)"
    and elems_push: "ok q \<Longrightarrow> elems (push x q) = add_mset x (elems q)"
    and ok_pop: "ok q \<Longrightarrow> elems q \<noteq> {#} \<Longrightarrow> pop q = (x, q') \<Longrightarrow> ok q'"
    and elems_pop: "ok q \<Longrightarrow> elems q \<noteq> {#} \<Longrightarrow> pop q = (x, q') \<Longrightarrow> elems q = add_mset x (elems q')"
    and pop_least: "ok q \<Longrightarrow> elems q \<noteq> {#} \<Longrightarrow> pop q = (x, q') \<Longrightarrow> y \<in># elems q \<Longrightarrow> key x \<le> key y"
begin

lemma fold_push: "ok q \<Longrightarrow> ok (fold push xs q) \<and> elems (fold push xs q) = mset xs + elems q"
  by (induction xs arbitrary: q) (auto simp: ok_push elems_push)

end

section \<open>The heap order\<close>

definition heap_ordered :: "('a \<Rightarrow> 'k::linorder) \<Rightarrow> 'a list \<Rightarrow> bool" where
  "heap_ordered key h \<longleftrightarrow> (\<forall>i < length h. 0 < i \<longrightarrow> key (h ! ((i - 1) div 2)) \<le> key (h ! i))"

lemma length_Swap [simp]: "length (Swap i j h) = length h"
  by (simp add: Swap_def)

lemma nth_Swap: "i < length h \<Longrightarrow> j < length h \<Longrightarrow>
    Swap i j h ! k = (if k = j then h ! i else if k = i then h ! j else h ! k)"
  by (simp add: Swap_def nth_list_update)

lemma mset_Swap [simp]: "i < length h \<Longrightarrow> j < length h \<Longrightarrow> mset (Swap i j h) = mset h"
  by (simp add: Swap_def mset_swap)

lemma root_least:
  assumes "heap_ordered key h"
  shows "k < length h \<Longrightarrow> key (h ! 0) \<le> key (h ! k)"
proof (induction k rule: less_induct)
  case (less k)
  show ?case
  proof (cases "k = 0")
    case False
    then have "key (h ! 0) \<le> key (h ! ((k - 1) div 2))" using less by (intro less.IH) auto
    also have "\<dots> \<le> key (h ! k)" using assms less.prems False by (auto simp: heap_ordered_def)
    finally show ?thesis .
  qed simp
qed

text \<open>While an element moves up, the order may fail only between it and its parent.\<close>

definition up_inv :: "('a \<Rightarrow> 'k::linorder) \<Rightarrow> 'a list \<Rightarrow> nat \<Rightarrow> bool" where
  "up_inv key h j \<longleftrightarrow> (\<forall>i < length h. 0 < i \<longrightarrow>
     (i \<noteq> j \<longrightarrow> key (h ! ((i - 1) div 2)) \<le> key (h ! i)) \<and>
     ((i - 1) div 2 = j \<longrightarrow> 0 < j \<longrightarrow> key (h ! ((j - 1) div 2)) \<le> key (h ! i)))"

lemma heap_up_step:
  assumes inv: "up_inv key h j" and j: "j < length h" and p: "p = (j - 1) div 2" "p \<noteq> j"
    and less: "key (h ! j) < key (h ! p)"
  shows "up_inv key (Swap p j h) p"
  unfolding up_inv_def
proof (intro allI impI conjI)
  have pj: "p < j" "0 < j" using p by auto
  fix i assume i: "i < length (Swap p j h)" "0 < i"
  let ?q = "(i - 1) div 2"
  have q: "?q < i" using i by auto
  have old: "i \<noteq> j \<Longrightarrow> key (h ! ?q) \<le> key (h ! i)" "?q = j \<Longrightarrow> key (h ! p) \<le> key (h ! i)"
    using inv i pj p by (auto simp: up_inv_def)
  show "key (Swap p j h ! ?q) \<le> key (Swap p j h ! i)" if "i \<noteq> p"
    using that old less pj j i p q by (auto simp: nth_Swap)
  assume q_p: "?q = p" and p0: "0 < p"
  have "key (h ! ((p - 1) div 2)) \<le> key (h ! p)" using inv pj j p0 by (auto simp: up_inv_def)
  then show "key (Swap p j h ! ((p - 1) div 2)) \<le> key (Swap p j h ! i)"
    using old q_p less pj j i p0 by (auto simp: nth_Swap)
qed

lemma heap_up_correct:
  "j < length h \<Longrightarrow> up_inv key h j \<Longrightarrow>
    mset (heap_up key h j) = mset h \<and> heap_ordered key (heap_up key h j)"
proof (induction key h j rule: heap_up.induct)
  case (1 key h j)
  let ?p = "(j - 1) div 2"
  show ?case
  proof (cases "?p = j \<or> \<not> Less key h j ?p")
    case True
    then have "heap_ordered key h" using 1 unfolding heap_ordered_def up_inv_def Less_def
      by (metis less_le_not_le linorder_le_less_linear not_gr_zero order.trans zero_less_diff)
    with True show ?thesis by (simp add: heap_up.simps)
  next
    case False
    then have "?p < length h" using 1 by auto
    moreover have "up_inv key (Swap ?p j h) ?p"
      using heap_up_step [OF 1(3,2) refl] False by (auto simp: Less_def)
    ultimately have "mset (heap_up key (Swap ?p j h) ?p) = mset h \<and> heap_ordered key (heap_up key (Swap ?p j h) ?p)"
      using 1 False by auto
    with False show ?thesis by (subst (1 2) heap_up.simps) (simp add: Let_def)
  qed
qed

text \<open>While an element moves down, the order may fail only between it and its children.\<close>

definition down_inv :: "('a \<Rightarrow> 'k::linorder) \<Rightarrow> 'a list \<Rightarrow> nat \<Rightarrow> nat \<Rightarrow> bool" where
  "down_inv key h i n \<longleftrightarrow> (\<forall>k < n. 0 < k \<longrightarrow>
     ((k - 1) div 2 \<noteq> i \<longrightarrow> key (h ! ((k - 1) div 2)) \<le> key (h ! k)) \<and>
     ((k - 1) div 2 = i \<longrightarrow> 0 < i \<longrightarrow> key (h ! ((i - 1) div 2)) \<le> key (h ! k)))"

lemma heap_down_step:
  assumes inv: "down_inv key h i n" and n: "n \<le> length h" and j: "j < n" "(j - 1) div 2 = i" "0 < j"
    and least: "\<And>k. k < n \<Longrightarrow> 0 < k \<Longrightarrow> (k - 1) div 2 = i \<Longrightarrow> key (h ! j) \<le> key (h ! k)"
    and less: "key (h ! j) < key (h ! i)"
  shows "down_inv key (Swap i j h) j n"
  unfolding down_inv_def
proof (intro allI impI conjI)
  have ij: "i < j" using j by auto
  fix k assume k: "k < n" "0 < k"
  let ?q = "(k - 1) div 2"
  have q: "?q < k" using k by auto
  have old: "?q \<noteq> i \<Longrightarrow> key (h ! ?q) \<le> key (h ! k)" using inv k by (auto simp: down_inv_def)
  show "key (Swap i j h ! ?q) \<le> key (Swap i j h ! k)" if "?q \<noteq> j"
  proof (cases "k = i")
    case True
    then have "key (h ! ((i - 1) div 2)) \<le> key (h ! j)" using inv j k by (auto simp: down_inv_def)
    then show ?thesis using True q ij j n by (auto simp: nth_Swap)
  next
    case False
    then show ?thesis using that old least [OF k] less ij j n q k by (auto simp: nth_Swap)
  qed
  assume q_j: "?q = j" and j0: "0 < j"
  then show "key (Swap i j h ! ((j - 1) div 2)) \<le> key (Swap i j h ! k)"
    using old ij j n k q by (auto simp: nth_Swap)
qed

definition ordered_below :: "('a \<Rightarrow> 'k::linorder) \<Rightarrow> 'a list \<Rightarrow> nat \<Rightarrow> bool" where
  "ordered_below key h n \<longleftrightarrow> (\<forall>k < n. 0 < k \<longrightarrow> key (h ! ((k - 1) div 2)) \<le> key (h ! k))"

lemma down_inv_done:
  assumes "down_inv key h i n" "\<And>k. k < n \<Longrightarrow> 0 < k \<Longrightarrow> (k - 1) div 2 = i \<Longrightarrow> key (h ! i) \<le> key (h ! k)"
  shows "ordered_below key h n"
  using assms unfolding ordered_below_def down_inv_def by metis

lemma children: "(k - 1) div 2 = i \<Longrightarrow> 0 < k \<Longrightarrow> k = 2 * i + 1 \<or> k = 2 * i + 2" for k i :: nat
  by (cases k) auto

lemma heap_down_correct:
  "n \<le> length h \<Longrightarrow> down_inv key h i n \<Longrightarrow>
    mset (heap_down key h i n) = mset h \<and> (\<forall>k \<ge> n. heap_down key h i n ! k = h ! k) \<and>
    ordered_below key (heap_down key h i n) n"
proof (induction key h i n rule: heap_down.induct)
  case (1 key h i n)
  define j1 where "j1 = 2 * i + 1"
  define j where "j = (if j1 + 1 < n \<and> Less key h (j1 + 1) j1 then j1 + 1 else j1)"
  have unfold: "heap_down key h i n = (if j1 \<ge> n then h
      else if \<not> Less key h j i then h else heap_down key (Swap i j h) j n)"
    by (subst heap_down.simps) (simp add: j1_def j_def Let_def)
  have least: "key (h ! j) \<le> key (h ! k)" if "k < n" "0 < k" "(k - 1) div 2 = i" for k
    using children [OF that(3,2)] that(1) by (auto simp: j_def j1_def Less_def)
  show ?case
  proof (cases "j1 \<ge> n \<or> \<not> Less key h j i")
    case True
    have "ordered_below key h n"
    proof (rule down_inv_done [OF 1(3)])
      fix k assume k: "k < n" "0 < k" "(k - 1) div 2 = i"
      then have "\<not> j1 \<ge> n" using children [OF k(3,2)] by (auto simp: j1_def)
      with True have "key (h ! i) \<le> key (h ! j)" by (auto simp: Less_def)
      also have "\<dots> \<le> key (h ! k)" by (rule least [OF k])
      finally show "key (h ! i) \<le> key (h ! k)" .
    qed
    with True show ?thesis by (auto simp: unfold)
  next
    case False
    then have j: "j < n" "(j - 1) div 2 = i" "0 < j" "i < j" by (auto simp: j_def j1_def)
    have inv: "down_inv key (Swap i j h) j n"
      by (rule heap_down_step [OF 1(3,2) j(1-3) least]) (use False in \<open>auto simp: Less_def\<close>)
    have "mset (heap_down key (Swap i j h) j n) = mset (Swap i j h) \<and>
        (\<forall>k \<ge> n. heap_down key (Swap i j h) j n ! k = Swap i j h ! k) \<and>
        ordered_below key (heap_down key (Swap i j h) j n) n"
      by (rule 1(1) [OF j1_def _ j_def]) (use False 1(2) inv j in auto)
    with False j 1(2) show ?thesis by (auto simp: unfold nth_Swap)
  qed
qed

section \<open>The heap is a priority queue\<close>

lemma heap_push_correct:
  assumes "heap_ordered key h"
  shows "mset (heap_push key x h) = add_mset x (mset h) \<and> heap_ordered key (heap_push key x h)"
proof -
  have "up_inv key (h @ [x]) (length h)"
    using assms unfolding up_inv_def heap_ordered_def by (auto simp: nth_append)
  then show ?thesis
    using heap_up_correct [of "length h" "h @ [x]" key] by (simp add: heap_push_def)
qed

lemma heap_pop_correct:
  assumes h: "heap_ordered key h" "h \<noteq> []" and pop: "heap_pop key h = (x, h')"
  shows "mset h = add_mset x (mset h') \<and> heap_ordered key h' \<and> (\<forall>y \<in> set h. key x \<le> key y)"
proof -
  let ?n = "length h - 1"
  let ?s = "Swap 0 ?n h"
  let ?d = "heap_down key ?s 0 ?n"
  have n: "?n < length h" using h by simp
  have "down_inv key ?s 0 ?n"
    using h n unfolding down_inv_def heap_ordered_def by (auto simp: nth_Swap)
  then have d: "mset ?d = mset h" "?d ! ?n = ?s ! ?n" "ordered_below key ?d ?n"
    using heap_down_correct [of ?n ?s key 0] n h(2) by auto
  have len: "length ?d = length h" using d(1) mset_eq_length by blast
  have x: "x = h ! 0" "h' = take ?n ?d"
    using pop d(2) n h(2) by (auto simp: heap_pop_def Let_def nth_Swap)
  have "?d = take ?n ?d @ [?d ! ?n]"
    using len n by (metis Suc_pred' drop_all h(2) id_take_nth_drop le_refl length_greater_0_conv)
  then have "mset h = add_mset x (mset h')"
    using d(1,2) pop by (metis (no_types, lifting) add_mset_add_single fst_conv heap_pop_def mset.simps mset_append snd_conv)
  moreover have "heap_ordered key h'"
    using d(3) len n unfolding x(2) heap_ordered_def ordered_below_def by auto
  moreover have "\<forall>y \<in> set h. key x \<le> key y"
    using root_least [OF h(1)] x(1) by (auto simp: in_set_conv_nth)
  ultimately show ?thesis by blast
qed

interpretation kv_heap: priority_queue key "[]" "heap_push key" "heap_pop key" mset "heap_ordered key"
  for key :: "'a \<Rightarrow> 'k::linorder"
proof unfold_locales
  show "heap_ordered key []" by (simp add: heap_ordered_def)
  show "mset [] = {#}" by simp
  fix q x
  assume q: "heap_ordered key q"
  show "heap_ordered key (heap_push key x q)" "mset (heap_push key x q) = add_mset x (mset q)"
    using heap_push_correct [OF q] by simp_all
  fix q'
  assume "mset q \<noteq> {#}" and pop: "heap_pop key q = (x, q')"
  then have "q \<noteq> []" by auto
  from heap_pop_correct [OF q this pop]
  show "heap_ordered key q'" "mset q = add_mset x (mset q')" "y \<in># mset q \<Longrightarrow> key x \<le> key y" for y
    unfolding set_mset_mset by blast+
qed

text \<open>The heap operations only rearrange the slice, in whatever order it is.\<close>

lemma mset_heap_up: "j < length h \<Longrightarrow> mset (heap_up key h j) = mset h"
proof (induction key h j rule: heap_up.induct)
  case (1 key h j)
  then show ?case by (subst heap_up.simps) (auto simp: Let_def)
qed

lemma mset_heap_down: "n \<le> length h \<Longrightarrow> mset (heap_down key h i n) = mset h"
proof (induction key h i n rule: heap_down.induct)
  case (1 key h i n)
  then show ?case by (subst heap_down.simps) (auto simp: Let_def)
qed

lemma mset_heap_push [simp]: "mset (heap_push key x h) = add_mset x (mset h)"
  by (simp add: heap_push_def mset_heap_up)

lemma set_heap_push: "set (heap_push key x h) = insert x (set h)"
  using mset_heap_push [of key x h] by (simp flip: set_mset_mset del: mset_heap_push)

lemma mset_heap_pop:
  assumes "h \<noteq> []" "heap_pop key h = (x, h')"
  shows "mset h = add_mset x (mset h')"
proof -
  let ?n = "length h - 1"
  let ?d = "heap_down key (Swap 0 ?n h) 0 ?n"
  have d: "mset ?d = mset h" using assms(1) by (simp add: mset_heap_down)
  then have len: "length ?d = length h" using mset_eq_length by blast
  have "?d = take ?n ?d @ [?d ! ?n]"
    using len assms(1) by (metis One_nat_def Suc_pred le_refl length_greater_0_conv lessI take_Suc_conv_app_nth take_all)
  then show ?thesis using d assms(2)
    by (metis (no_types, lifting) add_mset_add_single fst_conv heap_pop_def mset.simps mset_append snd_conv)
qed

end
