(* ===== verification/KvSort.thy ===== *)
theory KvSort
  imports KvHeap
begin

text \<open>
  Key-value files and their k-way merge (\<open>mapreduce/util/sort.go\<close>, \<open>kv.go\<close>): the scanner over
  tab-separated lines, the merge of sorted runs through the heap, and the external sort that merges
  more than a hundred files in batches. A file is its content; \<open>None\<close> stands for one that cannot be
  opened.
\<close>

section \<open>Key-value lines\<close>

record KeyValue =
  kv_key :: bytes
  kv_value :: bytes

definition maxTokenSize :: nat where
  "maxTokenSize = 16 * 1024 * 1024"

definition enc_kv :: "KeyValue \<Rightarrow> string" where
  "enc_kv kv = kv_key kv @ tab # kv_value kv"

definition dec_kv :: "string \<Rightarrow> KeyValue option" where
  "dec_kv line = (case split2 tab line of [k, v] \<Rightarrow> Some \<lparr>kv_key = k, kv_value = v\<rparr> | _ \<Rightarrow> None)"

text \<open>The pairs a line can carry back: no separator inside the key, no line break, no final carriage return.\<close>

definition kv_ok :: "KeyValue \<Rightarrow> bool" where
  "kv_ok kv \<longleftrightarrow> tab \<notin> set (kv_key kv) \<and> nl \<notin> set (kv_key kv) \<and> nl \<notin> set (kv_value kv) \<and>
     (kv_value kv = [] \<or> last (kv_value kv) \<noteq> cr) \<and> length (kv_key kv) + length (kv_value kv) + 1 < maxTokenSize"

interpretation kv_lines: line_format enc_kv dec_kv kv_ok maxTokenSize
  by unfold_locales (auto simp: enc_kv_def dec_kv_def kv_ok_def split2_sep)

text \<open>The scanner: the lines it has not read yet and the pair it stands on. \<open>Next\<close> skips lines without a tab.\<close>

record KVScanner =
  tokens :: "string list"
  Current :: KeyValue

definition NewKVScanner :: "string \<Rightarrow> KVScanner" where
  "NewKVScanner content = \<lparr>tokens = scan_lines maxTokenSize content, Current = \<lparr>kv_key = [], kv_value = []\<rparr>\<rparr>"

fun next_pair :: "string list \<Rightarrow> (KeyValue \<times> string list) option" where
  "next_pair [] = None"
| "next_pair (line # ls) = (case split2 tab line of
      [k, v] \<Rightarrow> Some (\<lparr>kv_key = k, kv_value = v\<rparr>, ls)
    | _ \<Rightarrow> next_pair ls)"

definition Next :: "KVScanner \<Rightarrow> KVScanner option" where
  "Next s = map_option (\<lambda>(kv, ls). s\<lparr>Current := kv, tokens := ls\<rparr>) (next_pair (tokens s))"

definition ScannerHeap_key :: "KVScanner \<Rightarrow> bytes" where
  "ScannerHeap_key s = kv_key (Current s)"

lemma split2_cases: "(\<exists>p. split2 c s = [p]) \<or> (\<exists>k v. split2 c s = [k, v])"
  by (auto simp: split2_def split: list.splits)

lemma next_pair_Cons:
  "next_pair (l # ls) = (case dec_kv l of None \<Rightarrow> next_pair ls | Some kv \<Rightarrow> Some (kv, ls))"
  using split2_cases [of tab l] by (auto simp: dec_kv_def)

lemma next_pair_shorter: "next_pair ls = Some (kv, ls') \<Longrightarrow> length ls' < length ls"
  by (induction ls) (auto simp: next_pair_Cons simp del: next_pair.simps(2) split: option.splits)

lemma next_pair_None: "next_pair ls = None \<Longrightarrow> List.map_filter dec_kv ls = []"
  by (induction ls) (auto simp: next_pair_Cons List.map_filter_def simp del: next_pair.simps(2) split: option.splits)

lemma next_pair_Some:
  "next_pair ls = Some (kv, ls') \<Longrightarrow> List.map_filter dec_kv ls = kv # List.map_filter dec_kv ls'"
  by (induction ls) (auto simp: next_pair_Cons List.map_filter_def simp del: next_pair.simps(2) split: option.splits)

text \<open>The pairs a scanner will still deliver, the one it stands on included.\<close>

definition pairs_of :: "KVScanner \<Rightarrow> KeyValue list" where
  "pairs_of s = Current s # List.map_filter dec_kv (tokens s)"

lemma Next_None: "Next s = None \<Longrightarrow> pairs_of s = [Current s]"
  using next_pair_None [of "tokens s"] by (auto simp: Next_def pairs_of_def)

lemma Next_Some: "Next s = Some s' \<Longrightarrow> pairs_of s = Current s # pairs_of s'"
  using next_pair_Some [of "tokens s"] by (auto simp: Next_def pairs_of_def)

lemma Next_shorter: "Next s = Some s' \<Longrightarrow> length (tokens s') < length (tokens s)"
  using next_pair_shorter by (auto simp: Next_def)

lemma Next_new:
  "Next (NewKVScanner content) = None \<Longrightarrow> read_lines dec_kv maxTokenSize content = []"
  "Next (NewKVScanner content) = Some s \<Longrightarrow> pairs_of s = read_lines dec_kv maxTokenSize content"
  using next_pair_None [of "scan_lines maxTokenSize content"] next_pair_Some [of "scan_lines maxTokenSize content"]
  by (auto simp: Next_def NewKVScanner_def pairs_of_def read_lines_def)

section \<open>The merge loop\<close>

definition heap_size :: "KVScanner list \<Rightarrow> nat" where
  "heap_size h = (\<Sum>s \<in># mset h. Suc (length (tokens s)))"

function merge_loop :: "KVScanner list \<Rightarrow> KeyValue list" where
  "merge_loop h = (if h = [] then []
     else let (s, h') = heap_pop ScannerHeap_key h in
       Current s # merge_loop (case Next s of None \<Rightarrow> h' | Some s' \<Rightarrow> heap_push ScannerHeap_key s' h'))"
  by auto
termination
proof (relation "measure heap_size")
  fix h x s h'
  assume "h \<noteq> []" "x = heap_pop ScannerHeap_key h" "(s, h') = x"
  then have "mset h = add_mset s (mset h')" by (intro mset_heap_pop) auto
  then show "((case Next s of None \<Rightarrow> h' | Some s' \<Rightarrow> heap_push ScannerHeap_key s' h'), h) \<in> measure heap_size"
    using Next_shorter [of s] by (auto simp: heap_size_def split: option.splits)
qed simp

declare merge_loop.simps [simp del]

text \<open>
  What a merge through any priority queue delivers: all pairs of all runs, and in order of keys when
  every run is. \<open>merge\<close> is the loop, given by its equations; \<open>run\<close> is what an element still delivers.
\<close>

locale merging = priority_queue key empty push pop elems ok
  for key :: "'a \<Rightarrow> 'k::linorder" and empty :: 'q and push :: "'a \<Rightarrow> 'q \<Rightarrow> 'q" and pop :: "'q \<Rightarrow> 'a \<times> 'q"
    and elems :: "'q \<Rightarrow> 'a multiset" and ok :: "'q \<Rightarrow> bool" +
  fixes merge :: "'q \<Rightarrow> 'r list"
    and nxt :: "'a \<Rightarrow> 'a option"
    and run :: "'a \<Rightarrow> 'r list"
    and rkey :: "'r \<Rightarrow> 'k"
  assumes stop: "elems q = {#} \<Longrightarrow> merge q = []"
    and step: "elems q \<noteq> {#} \<Longrightarrow> pop q = (x, q') \<Longrightarrow>
      merge q = hd (run x) # merge (case nxt x of None \<Rightarrow> q' | Some y \<Rightarrow> push y q')"
    and last_run: "nxt x = None \<Longrightarrow> run x = [hd (run x)]"
    and next_run: "nxt x = Some y \<Longrightarrow> run x = hd (run x) # run y"
    and run_key: "key x = rkey (hd (run x))"
begin

definition advance :: "'a \<Rightarrow> 'q \<Rightarrow> 'q" where
  "advance x q = (case nxt x of None \<Rightarrow> q | Some y \<Rightarrow> push y q)"

definition total :: "'q \<Rightarrow> nat" where
  "total q = (\<Sum>x \<in># elems q. length (run x))"

lemma run_not_Nil: "run x \<noteq> []"
  using last_run [of x] next_run [of x] by (cases "nxt x") force+

lemma advance_pop:
  assumes "ok q" "elems q \<noteq> {#}" "pop q = (x, q')"
  shows "ok (advance x q')" "total (advance x q') < total q"
    and "(\<Sum>x \<in># elems q. mset (run x)) = add_mset (hd (run x)) (\<Sum>x \<in># elems (advance x q'). mset (run x))"
proof -
  have q': "ok q'" "elems q = add_mset x (elems q')"
    using ok_pop [OF assms] elems_pop [OF assms] .
  show "ok (advance x q')" using q' ok_push by (simp add: advance_def split: option.splits)
  show "total (advance x q') < total q"
  proof (cases "nxt x")
    case None
    then show ?thesis using q' run_not_Nil by (simp add: advance_def total_def)
  next
    case (Some y)
    then have "length (run x) = Suc (length (run y))" using next_run by (metis length_Cons)
    with Some q' show ?thesis by (simp add: advance_def total_def elems_push)
  qed
  show "(\<Sum>x \<in># elems q. mset (run x)) = add_mset (hd (run x)) (\<Sum>x \<in># elems (advance x q'). mset (run x))"
  proof (cases "nxt x")
    case None
    then have "mset (run x) = {#hd (run x)#}" using last_run by (metis mset_single_iff)
    with None q' show ?thesis by (simp add: advance_def)
  next
    case (Some y)
    then have "mset (run x) = add_mset (hd (run x)) (mset (run y))" using next_run by (metis mset.simps(2))
    with Some q' show ?thesis by (simp add: advance_def elems_push)
  qed
qed

lemma merge_pairs: "ok q \<Longrightarrow> mset (merge q) = (\<Sum>x \<in># elems q. mset (run x))"
proof (induction "total q" arbitrary: q rule: less_induct)
  case less
  show ?case
  proof (cases "elems q = {#}")
    case False
    obtain x q' where pop: "pop q = (x, q')" by fastforce
    note adv = advance_pop [OF less.prems False pop]
    from less.hyps [OF adv(2,1)] show ?thesis
      using step [OF False pop] adv(3) by (simp add: advance_def)
  qed (simp add: stop)
qed

lemma merge_sorted:
  "ok q \<Longrightarrow> \<forall>x \<in># elems q. sorted (map rkey (run x)) \<Longrightarrow> sorted (map rkey (merge q))"
proof (induction "total q" arbitrary: q rule: less_induct)
  case less
  show ?case
  proof (cases "elems q = {#}")
    case False
    obtain x q' where pop: "pop q = (x, q')" by fastforce
    note adv = advance_pop [OF less.prems(1) False pop]
    have q': "ok q'" "elems q = add_mset x (elems q')"
      using ok_pop [OF less.prems(1) False pop] elems_pop [OF less.prems(1) False pop] .
    have "sorted (map rkey (run y))" if "y \<in># elems (advance x q')" for y
    proof (cases "\<exists>z. nxt x = Some z \<and> y = z")
      case True
      have "sorted (map rkey (run x))" using less.prems(2) q'(2) by simp
      with True next_run [of x y] show ?thesis by (metis list.simps(9) sorted_simps(2))
    next
      case False
      with that q' less.prems(2) show ?thesis by (auto simp: advance_def elems_push split: option.splits)
    qed
    then have IH: "sorted (map rkey (merge (advance x q')))" using less.hyps [OF adv(2,1)] by blast
    have low: "rkey (hd (run x)) \<le> rkey r" if "y \<in># elems q" "r \<in> set (run y)" for y r
    proof -
      have "rkey (hd (run x)) \<le> rkey (hd (run y))"
        using pop_least [OF less.prems(1) False pop that(1)] run_key by simp
      also have "\<dots> \<le> rkey r" using less.prems(2) that run_not_Nil [of y] by (cases "run y") auto
      finally show ?thesis .
    qed
    have "rkey (hd (run x)) \<le> rkey r" if "r \<in> set (merge (advance x q'))" for r
    proof -
      have "r \<in># mset (merge q)" using that step [OF False pop] by (simp add: advance_def)
      then obtain y where "y \<in># elems q" "r \<in> set (run y)" using merge_pairs [OF less.prems(1)] by auto
      then show ?thesis by (rule low)
    qed
    with IH show ?thesis using step [OF False pop] by (simp add: advance_def)
  qed (simp add: stop)
qed

end

interpretation kv_merge: merging ScannerHeap_key "[]" "heap_push ScannerHeap_key" "heap_pop ScannerHeap_key" mset
  "heap_ordered ScannerHeap_key" merge_loop Next pairs_of kv_key
proof unfold_locales
  fix q :: "KVScanner list" and x q'
  show "mset q = {#} \<Longrightarrow> merge_loop q = []" by (simp add: merge_loop.simps)
  show "merge_loop q = hd (pairs_of x) # merge_loop (case Next x of None \<Rightarrow> q' | Some y \<Rightarrow> heap_push ScannerHeap_key y q')"
    if "mset q \<noteq> {#}" "heap_pop ScannerHeap_key q = (x, q')"
    using that by (subst merge_loop.simps) (auto simp: pairs_of_def)
next
  fix x y
  show "Next x = None \<Longrightarrow> pairs_of x = [hd (pairs_of x)]" using Next_None by (metis list.sel(1))
  show "Next x = Some y \<Longrightarrow> pairs_of x = hd (pairs_of x) # pairs_of y" using Next_Some by (metis list.sel(1))
  show "ScannerHeap_key x = kv_key (hd (pairs_of x))" by (simp add: ScannerHeap_key_def pairs_of_def)
qed

section \<open>Merging files\<close>

text \<open>The heap of the first pairs of all files, and the pairs the merge writes.\<close>

definition push_run :: "string \<Rightarrow> KVScanner list \<Rightarrow> KVScanner list" where
  "push_run content h = (case Next (NewKVScanner content) of None \<Rightarrow> h | Some s \<Rightarrow> heap_push ScannerHeap_key s h)"

definition open_runs :: "string list \<Rightarrow> KVScanner list" where
  "open_runs contents = fold push_run contents []"

definition merge_files :: "string list \<Rightarrow> KeyValue list" where
  "merge_files contents = merge_loop (open_runs contents)"

definition records :: "string \<Rightarrow> KeyValue list" where
  "records content = read_lines dec_kv maxTokenSize content"

lemma open_runs_correct:
  fixes contents :: "string list"
  defines "h' h \<equiv> fold push_run contents h"
  assumes "heap_ordered ScannerHeap_key h"
  shows "heap_ordered ScannerHeap_key (h' h) \<and>
    (\<Sum>x \<in># mset (h' h). mset (pairs_of x)) = (\<Sum>x \<in># mset h. mset (pairs_of x)) + (\<Sum>c \<in># mset contents. mset (records c)) \<and>
    (\<forall>x \<in> set (h' h). x \<in> set h \<or> (\<exists>c \<in> set contents. pairs_of x = records c))"
  using assms(2) unfolding h'_def
proof (induction contents arbitrary: h)
  case (Cons c cs)
  show ?case
  proof (cases "Next (NewKVScanner c)")
    case None
    then have "records c = []" using Next_new(1) by (simp add: records_def)
    have eq: "fold push_run (c # cs) h = fold push_run cs h" using None by (simp add: push_run_def)
    note IH = Cons.IH [OF Cons.prems]
    have "(\<Sum>c \<in># mset (c # cs). mset (records c)) = (\<Sum>c \<in># mset cs. mset (records c))"
      using \<open>records c = []\<close> by simp
    then show ?thesis unfolding eq using IH by (metis list.set_intros(2))
  next
    case (Some s)
    then have s: "pairs_of s = records c" using Next_new(2) by (simp add: records_def)
    have h: "heap_ordered ScannerHeap_key (heap_push ScannerHeap_key s h)"
      by (rule kv_heap.ok_push) (rule Cons.prems)
    have "push_run c h = heap_push ScannerHeap_key s h" using Some by (simp add: push_run_def)
    then show ?thesis using Cons.IH [OF h] s by (auto simp: add.assoc set_heap_push)
  qed
qed simp

lemma mset_merge_files: "mset (merge_files contents) = (\<Sum>c \<in># mset contents. mset (records c))"
  using open_runs_correct [of "[]" contents] kv_merge.merge_pairs [of "open_runs contents"]
  by (simp add: merge_files_def open_runs_def kv_heap.ok_empty)

lemma sorted_merge_files:
  assumes "\<forall>c \<in> set contents. sorted (map kv_key (records c))"
  shows "sorted (map kv_key (merge_files contents))"
proof -
  have o: "heap_ordered ScannerHeap_key (open_runs contents)"
    "\<forall>x \<in> set (open_runs contents). \<exists>c \<in> set contents. pairs_of x = records c"
    using open_runs_correct [of "[]" contents] by (auto simp: open_runs_def kv_heap.ok_empty)
  have "\<forall>x \<in># mset (open_runs contents). sorted (map kv_key (pairs_of x))"
    using o(2) assms by fastforce
  then show ?thesis unfolding merge_files_def using kv_merge.merge_sorted o(1) by blast
qed

lemma set_merge_files: "set (merge_files contents) = (\<Union>c \<in> set contents. set (records c))"
  using arg_cong [OF mset_merge_files [of contents], of set_mset] by simp

section \<open>External sort\<close>

text \<open>\<open>created i\<close> says whether the i-th output file can be created.\<close>

definition externalSortBatch :: "bool \<Rightarrow> string option list \<Rightarrow> string option" where
  "externalSortBatch created inputFiles =
     (if created then Some (write_lines enc_kv (merge_files (List.map_filter id inputFiles))) else None)"

function batches :: "nat \<Rightarrow> 'a list \<Rightarrow> 'a list list" where
  "batches n xs = (if xs = [] \<or> n = 0 then [] else take n xs # batches n (drop n xs))"
  by auto
termination by (relation "measure (\<lambda>(n, xs). length xs)") auto

declare batches.simps [simp del]

fun sort_batches :: "(nat \<Rightarrow> bool) \<Rightarrow> nat \<Rightarrow> string option list list \<Rightarrow> string list option" where
  "sort_batches created i [] = Some []"
| "sort_batches created i (b # bs) = (case externalSortBatch (created i) b of
      None \<Rightarrow> None
    | Some temp \<Rightarrow> map_option (Cons temp) (sort_batches created (Suc i) bs))"

definition batchSize :: nat where
  "batchSize = 100"

lemma length_batches: "length xs \<le> n * k \<Longrightarrow> length (batches n xs) \<le> k"
proof (induction n xs arbitrary: k rule: batches.induct)
  case (1 n xs)
  then show ?case by (cases k) (auto simp: batches.simps [of n xs] batches.simps [of n "[]"])
qed

lemma length_sort_batches: "sort_batches created i bs = Some temps \<Longrightarrow> length temps = length bs"
  by (induction bs arbitrary: i temps) (auto split: option.splits)

function ExternalSort :: "(nat \<Rightarrow> bool) \<Rightarrow> nat \<Rightarrow> string option list \<Rightarrow> string option" where
  "ExternalSort created i inputFiles =
     (if length inputFiles \<le> batchSize then externalSortBatch (created i) inputFiles
      else (case sort_batches created i (batches batchSize inputFiles) of
        None \<Rightarrow> None
      | Some temps \<Rightarrow> ExternalSort created (i + length temps) (map Some temps)))"
  by auto
termination
proof (relation "measure (\<lambda>(created, i, inputFiles). length inputFiles)")
  fix created :: "nat \<Rightarrow> bool" and i and inputs :: "string option list" and temps
  assume large: "\<not> length inputs \<le> batchSize" and temps: "sort_batches created i (batches batchSize inputs) = Some temps"
  have "length inputs \<le> batchSize * (length inputs - 1)" using large by (simp add: batchSize_def)
  from length_batches [OF this] length_sort_batches [OF temps] large
  show "((created, i + length temps, map Some temps), created, i, inputs) \<in> measure (\<lambda>(created, i, inputFiles). length inputFiles)"
    by (simp add: batchSize_def)
qed simp

declare ExternalSort.simps [simp del]

lemma concat_batches: "0 < n \<Longrightarrow> concat (batches n xs) = xs"
proof (induction n xs rule: batches.induct)
  case (1 n xs)
  then show ?case by (simp add: batches.simps [of n xs])
qed

text \<open>The pairs of all readable files, and what a sorted output of them is.\<close>

definition all_records :: "string option list \<Rightarrow> KeyValue multiset" where
  "all_records inputs = (\<Sum>c \<in># mset (List.map_filter id inputs). mset (records c))"

definition good_input :: "string option list \<Rightarrow> bool" where
  "good_input inputs \<longleftrightarrow> (\<forall>c. Some c \<in> set inputs \<longrightarrow> list_all kv_ok (records c) \<and> sorted (map kv_key (records c)))"

definition sorted_output :: "string \<Rightarrow> KeyValue multiset \<Rightarrow> bool" where
  "sorted_output out R \<longleftrightarrow> (\<exists>kvs. out = write_lines enc_kv kvs \<and> list_all kv_ok kvs \<and>
     sorted (map kv_key kvs) \<and> mset kvs = R)"

lemma set_map_filter_id: "set (List.map_filter id xs) = {c. Some c \<in> set xs}"
  by (induction xs) (auto simp: List.map_filter_def)

lemma map_filter_append: "List.map_filter f (xs @ ys) = List.map_filter f xs @ List.map_filter f ys"
  by (simp add: List.map_filter_def)

lemma all_records_append: "all_records (xs @ ys) = all_records xs + all_records ys"
  by (simp add: all_records_def map_filter_append)

lemma sorted_output_records: "sorted_output out R \<Longrightarrow> list_all kv_ok (records out) \<and>
    sorted (map kv_key (records out)) \<and> mset (records out) = R"
  by (auto simp: sorted_output_def records_def kv_lines.read_write)

lemma batch_sorted:
  assumes "good_input inputs"
  shows "\<exists>out. externalSortBatch True inputs = Some out \<and> sorted_output out (all_records inputs)"
proof -
  let ?cs = "List.map_filter id inputs"
  have "\<forall>c \<in> set ?cs. sorted (map kv_key (records c))" "\<forall>c \<in> set ?cs. list_all kv_ok (records c)"
    using assms by (auto simp: good_input_def set_map_filter_id)
  then have "sorted (map kv_key (merge_files ?cs))" "list_all kv_ok (merge_files ?cs)"
    using sorted_merge_files by (blast, auto simp: list_all_iff set_merge_files)
  then show ?thesis
    by (auto simp: externalSortBatch_def sorted_output_def all_records_def mset_merge_files)
qed

lemma sort_batches_sorted:
  "\<forall>b \<in> set bs. good_input b \<Longrightarrow> \<exists>temps. sort_batches (\<lambda>_. True) i bs = Some temps \<and>
    good_input (map Some temps) \<and> all_records (map Some temps) = all_records (concat bs)"
proof (induction bs arbitrary: i)
  case (Cons b bs)
  obtain out where out: "externalSortBatch True b = Some out" "sorted_output out (all_records b)"
    using batch_sorted Cons.prems by (meson list.set_intros(1))
  obtain temps where temps: "sort_batches (\<lambda>_. True) (Suc i) bs = Some temps"
    "good_input (map Some temps)" "all_records (map Some temps) = all_records (concat bs)"
    using Cons by fastforce
  have "all_records (map Some (out # temps)) = mset (records out) + all_records (map Some temps)"
    by (simp add: all_records_def List.map_filter_def)
  then show ?case
    using out temps sorted_output_records [OF out(2)]
    by (auto simp: all_records_append good_input_def)
qed (auto simp: good_input_def all_records_def List.map_filter_def)

lemma ExternalSort_sorted:
  "good_input inputs \<Longrightarrow> \<exists>out. ExternalSort (\<lambda>_. True) i inputs = Some out \<and> sorted_output out (all_records inputs)"
proof (induction "\<lambda>_ :: nat. True" i inputs rule: ExternalSort.induct)
  case (1 i inputs)
  show ?case
  proof (cases "length inputs \<le> batchSize")
    case True
    with 1(2) batch_sorted show ?thesis by (simp add: ExternalSort.simps)
  next
    case False
    have split: "concat (batches batchSize inputs) = inputs" by (rule concat_batches) (simp add: batchSize_def)
    then have "\<forall>b \<in> set (batches batchSize inputs). good_input b"
      using 1(2) unfolding good_input_def by (metis UN_I set_concat)
    then obtain temps where "sort_batches (\<lambda>_. True) i (batches batchSize inputs) = Some temps"
      "good_input (map Some temps)" "all_records (map Some temps) = all_records inputs"
      using sort_batches_sorted [of "batches batchSize inputs" i] split by auto
    with 1(1) [OF False] False show ?thesis by (subst ExternalSort.simps) simp
  qed
qed

end
