(* ===== verification/MapTask.thy ===== *)
theory MapTask
  imports KvSort
begin

text \<open>
  A map task of a worker (\<open>mapreduce/worker/worker.go\<close>, \<open>runMap\<close>, \<open>spill\<close>, \<open>mergeSpills\<close>): the emitted
  pairs are buffered, partitioned by the hash of their key, sorted and spilled, and the spills are
  merged into one intermediate file with an index of byte ranges, one per reducer. Files are their
  contents; creating and writing them succeeds. Byte offsets are natural numbers (the code's \<open>int64\<close>).
  The order in which \<open>sort.Slice\<close> leaves equal keys is not specified: the sort is an argument.
\<close>

unbundle bit_operations_syntax

section \<open>Partitioning\<close>

definition ihash :: "bytes \<Rightarrow> u32" where
  "ihash s = foldl (\<lambda>h c. h * 31 + word_of_nat (of_char c)) 0 s AND 0x7fffffff"

definition partition_of :: "u32 \<Rightarrow> u32 \<Rightarrow> KeyValue list \<Rightarrow> KeyValue list" where
  "partition_of numReducers r buffer = filter (\<lambda>kv. ihash (kv_key kv) mod numReducers = r) buffer"

text \<open>What \<open>sort.Slice\<close> by key promises.\<close>

definition sorts :: "(KeyValue list \<Rightarrow> KeyValue list) \<Rightarrow> bool" where
  "sorts srt \<longleftrightarrow> (\<forall>kvs. mset (srt kvs) = mset kvs \<and> sorted (map kv_key (srt kvs)))"

section \<open>Indexed files\<close>

text \<open>A file of consecutive parts and its index: one line \<open>part start end\<close> for each.\<close>

definition index_line :: "nat \<Rightarrow> nat \<Rightarrow> nat \<Rightarrow> string" where
  "index_line r start stop = dec_str r @ CHR '' '' # dec_str start @ CHR '' '' # dec_str stop"

fun index_lines :: "nat \<Rightarrow> nat \<Rightarrow> string list \<Rightarrow> string list" where
  "index_lines r offset [] = []"
| "index_lines r offset (d # ds) =
     index_line r offset (offset + length d) # index_lines (Suc r) (offset + length d) ds"

record indexed_file =
  file_data :: string
  file_index :: string

definition write_parts :: "string list \<Rightarrow> indexed_file" where
  "write_parts ds = \<lparr>file_data = concat ds, file_index = write_lines id (index_lines 0 0 ds)\<rparr>"

text \<open>
  \<open>fmt.Sscanf(line, "%d %d %d", \<dots>)\<close> into a 32-bit number and two offsets: the variables read before a
  mismatch are assigned, the others keep their values.
\<close>

definition sscan3 :: "string \<Rightarrow> nat \<times> nat \<times> nat \<Rightarrow> nat \<times> nat \<times> nat" where
  "sscan3 line v = (case v of (a, b, c) \<Rightarrow> (case scan_nat line of
      None \<Rightarrow> (a, b, c)
    | Some (a', l1) \<Rightarrow> if a' \<ge> 2 ^ 32 then (a, b, c) else (case l1 of
        x # l1' \<Rightarrow> if x \<noteq> CHR '' '' then (a', b, c) else (case scan_nat l1' of
            None \<Rightarrow> (a', b, c)
          | Some (b', l2) \<Rightarrow> (case l2 of
              y # l2' \<Rightarrow> if y \<noteq> CHR '' '' then (a', b', c) else (case scan_nat l2' of
                  None \<Rightarrow> (a', b', c)
                | Some (c', l3) \<Rightarrow> (a', b', c'))
            | [] \<Rightarrow> (a', b', c)))
      | [] \<Rightarrow> (a', b, c))))"

definition section_of :: "string \<Rightarrow> nat \<Rightarrow> nat \<Rightarrow> string" where
  "section_of content start stop = take (stop - start) (drop start content)"

lemma sscan3_index_line: "r < 2 ^ 32 \<Longrightarrow> sscan3 (index_line r s e) v = (r, s, e)"
proof -
  have "\<not> is_digit (CHR '' '')" by (simp add: is_digit_def)
  then have "scan_nat (dec_str n @ CHR '' '' # rest) = Some (n, rest')" if "rest' = CHR '' '' # rest" for n rest rest'
    using that by (simp add: scan_nat_dec_str)
  moreover have "scan_nat (dec_str e) = Some (e, [])" using scan_nat_dec_str [of "[]" e] by simp
  moreover assume "r < 2 ^ 32"
  ultimately show ?thesis by (cases v) (simp add: sscan3_def index_line_def)
qed

lemma index_line_no_nl: "nl \<notin> set (index_line r s e)"
  using dec_str_digits digit_not_special by (fastforce simp: index_line_def)

lemma index_line_not_Nil [simp]: "index_line r s e \<noteq> []"
  by (simp add: index_line_def)

lemma index_lines_no_nl: "l \<in> set (index_lines r off ds) \<Longrightarrow> nl \<notin> set l"
  by (induction r off ds rule: index_lines.induct) (auto simp: index_line_no_nl)

lemma split_on_lines: "\<forall>l \<in> set ls. nl \<notin> set l \<Longrightarrow> split_on nl (write_lines id ls) = ls @ [[]]"
  by (induction ls) (simp_all add: split_on_append)

lemma split_index: "split_on nl (file_index (write_parts ds)) = index_lines 0 0 ds @ [[]]"
  using index_lines_no_nl by (auto simp: write_parts_def intro: split_on_lines)

definition part_start :: "nat \<Rightarrow> string list \<Rightarrow> nat" where
  "part_start i ds = length (concat (take i ds))"

lemma section_part:
  "i < length ds \<Longrightarrow> section_of (concat ds) (part_start i ds) (part_start i ds + length (ds ! i)) = ds ! i"
proof -
  assume i: "i < length ds"
  have "concat ds = concat (take i ds) @ ds ! i @ concat (drop (Suc i) ds)"
    using i by (metis concat.simps(2) concat_append id_take_nth_drop)
  then show ?thesis by (simp add: section_of_def part_start_def)
qed

section \<open>Spilling\<close>

text \<open>With no reducers the hash is divided by zero.\<close>

definition spill :: "(KeyValue list \<Rightarrow> KeyValue list) \<Rightarrow> u32 \<Rightarrow> KeyValue list \<Rightarrow> indexed_file result" where
  "spill srt numReducers buffer =
     (if numReducers = 0 \<and> buffer \<noteq> [] then Inl Panic
      else Inr (write_parts (map (\<lambda>r. write_lines enc_kv (srt (partition_of numReducers (word_of_nat r) buffer)))
             [0..<unat numReducers])))"

definition spill_limit :: nat where
  "spill_limit = 10000"

text \<open>The range of one reducer in the index of a spill. The variables of the scan live outside the loop.\<close>

fun spill_range :: "nat \<Rightarrow> string list \<Rightarrow> nat \<times> nat \<times> nat \<Rightarrow> nat \<times> nat" where
  "spill_range r [] v = snd v"
| "spill_range r (line # ls) v =
     (if line = [] then spill_range r ls v
      else let v' = sscan3 line v in if fst v' = r then snd v' else spill_range r ls v')"

text \<open>The non-empty parts of one reducer over all spills, merged.\<close>

definition spill_sections :: "nat \<Rightarrow> indexed_file list \<Rightarrow> string list" where
  "spill_sections r spills = List.map_filter (\<lambda>f. case spill_range r (split_on nl (file_index f)) (0, 0, 0) of
     (pStart, pEnd) \<Rightarrow> if pEnd > pStart then Some (section_of (file_data f) pStart pEnd) else None) spills"

record map_output =
  map_file :: indexed_file
  reduce_data :: "u64 list"

definition mergeSpills :: "u32 \<Rightarrow> indexed_file list \<Rightarrow> map_output" where
  "mergeSpills numReducers spills =
     (let parts = map (\<lambda>r. write_lines enc_kv (merge_files (spill_sections r spills))) [0..<unat numReducers]
      in \<lparr>map_file = write_parts parts, reduce_data = map (\<lambda>d. word_of_nat (length d)) parts\<rparr>)"

section \<open>The task\<close>

fun buffer_pairs ::
    "(KeyValue list \<Rightarrow> KeyValue list) \<Rightarrow> u32 \<Rightarrow> KeyValue list \<Rightarrow> indexed_file list \<Rightarrow> KeyValue list \<Rightarrow>
      (KeyValue list \<times> indexed_file list) result" where
  "buffer_pairs srt numReducers buffer spills [] = Inr (buffer, spills)"
| "buffer_pairs srt numReducers buffer spills (kv # kvs) =
     (let b = buffer @ [kv] in
      if length b \<ge> spill_limit then
        and_then (spill srt numReducers b) (\<lambda>sp. buffer_pairs srt numReducers [] (spills @ [sp]) kvs)
      else buffer_pairs srt numReducers b spills kvs)"

definition emitted :: "(string \<Rightarrow> KeyValue list) \<Rightarrow> string \<Rightarrow> KeyValue list" where
  "emitted mapFunc content = concat (map mapFunc (scan_lines maxTokenSize content))"

definition runMap ::
    "(string \<Rightarrow> KeyValue list) \<Rightarrow> (KeyValue list \<Rightarrow> KeyValue list) \<Rightarrow> u32 \<Rightarrow> string \<Rightarrow> map_output result" where
  "runMap mapFunc srt numReducers content =
     and_then (buffer_pairs srt numReducers [] [] (emitted mapFunc content)) (\<lambda>(buffer, spills).
       if buffer \<noteq> [] then and_then (spill srt numReducers buffer) (\<lambda>sp. Inr (mergeSpills numReducers (spills @ [sp])))
       else Inr (mergeSpills numReducers spills))"

section \<open>Reading a range back\<close>

lemma spill_range_index:
  "r + length ds \<le> 2 ^ 32 \<Longrightarrow> i < length ds \<Longrightarrow>
    spill_range (r + i) (index_lines r off ds @ rest) v = (off + part_start i ds, off + part_start i ds + length (ds ! i))"
proof (induction r off ds arbitrary: i v rule: index_lines.induct)
  case (2 r off d ds)
  have scan: "sscan3 (index_line r off (off + length d)) v = (r, off, off + length d)"
    using "2.prems" by (intro sscan3_index_line) simp
  show ?case
  proof (cases i)
    case (Suc j)
    with "2.IH" [of j "(r, off, off + length d)"] "2.prems" scan show ?thesis
      by (simp add: Let_def part_start_def add.assoc)
  qed (use scan in \<open>simp add: Let_def part_start_def\<close>)
qed simp

lemma spill_section:
  assumes "length ds \<le> 2 ^ 32" "i < length ds"
  shows "spill_sections i (map write_parts (ds # dss)) =
    (if ds ! i = [] then [] else [ds ! i]) @ spill_sections i (map write_parts dss)"
  using spill_range_index [of 0 ds i 0 "[[]]" "(0, 0, 0)"] section_part [of i ds] assms
  by (simp add: spill_sections_def List.map_filter_def split_index) (simp add: write_parts_def)

lemma spill_sections_parts:
  "\<forall>ds \<in> set dss. length ds \<le> 2 ^ 32 \<and> i < length ds \<Longrightarrow>
    spill_sections i (map write_parts dss) = filter (\<lambda>d. d \<noteq> []) (map (\<lambda>ds. ds ! i) dss)"
proof (induction dss)
  case (Cons ds dss)
  then show ?case using spill_section [of ds i dss] by simp
qed (simp add: spill_sections_def List.map_filter_def)

section \<open>What a map task writes\<close>

definition spill_parts :: "(KeyValue list \<Rightarrow> KeyValue list) \<Rightarrow> u32 \<Rightarrow> KeyValue list \<Rightarrow> string list" where
  "spill_parts srt R b = map (\<lambda>r. write_lines enc_kv (srt (partition_of R (word_of_nat r) b))) [0..<unat R]"

lemma spill_eq: "R \<noteq> 0 \<Longrightarrow> spill srt R b = Inr (write_parts (spill_parts srt R b))"
  by (simp add: spill_def spill_parts_def)

lemma buffer_pairs_eq:
  "R \<noteq> 0 \<Longrightarrow> \<exists>bs buffer'. buffer_pairs srt R buffer spills kvs = Inr (buffer', spills @ map (write_parts \<circ> spill_parts srt R) bs) \<and>
    concat bs @ buffer' = buffer @ kvs"
proof (induction kvs arbitrary: buffer spills)
  case (Cons kv kvs)
  show ?case
  proof (cases "length (buffer @ [kv]) \<ge> spill_limit")
    case True
    let ?spills = "spills @ [write_parts (spill_parts srt R (buffer @ [kv]))]"
    from Cons.IH [OF Cons.prems, of "[]" ?spills]
    obtain bs buffer' where IH: "buffer_pairs srt R [] ?spills kvs = Inr (buffer', ?spills @ map (write_parts \<circ> spill_parts srt R) bs)"
      "concat bs @ buffer' = [] @ kvs"
      by blast
    show ?thesis
      by (intro exI [of _ "(buffer @ [kv]) # bs"] exI [of _ buffer'])
        (use True IH Cons.prems in \<open>simp add: spill_eq Let_def\<close>)
  next
    case False
    with Cons.IH [of "buffer @ [kv]" spills] Cons.prems show ?thesis by (simp add: Let_def)
  qed
qed (auto intro: exI [of _ "[]"])

lemma runMap_spills:
  assumes "R \<noteq> 0"
  obtains bs where "runMap mapFunc srt R content = Inr (mergeSpills R (map (write_parts \<circ> spill_parts srt R) bs))"
    "concat bs = emitted mapFunc content"
proof -
  obtain bs b where run: "buffer_pairs srt R [] [] (emitted mapFunc content) = Inr (b, map (write_parts \<circ> spill_parts srt R) bs)"
    and bs: "concat bs @ b = emitted mapFunc content"
    using buffer_pairs_eq [OF assms, of srt "[]" "[]" "emitted mapFunc content"] by auto
  show ?thesis
  proof (cases "b = []")
    case True
    with run bs show ?thesis by (intro that [of bs]) (simp_all add: runMap_def)
  next
    case False
    with run bs assms show ?thesis by (intro that [of "bs @ [b]"]) (simp_all add: runMap_def spill_eq)
  qed
qed

lemma mset_partition_concat:
  "mset (partition_of R r (concat bs)) = (\<Sum>b \<in># mset bs. mset (partition_of R r b))"
  by (induction bs) (simp_all add: partition_of_def)

lemma partition_ok: "list_all kv_ok kvs \<Longrightarrow> list_all kv_ok (partition_of R r kvs)"
  by (auto simp: partition_of_def list_all_iff)

lemma sorts_ok: "sorts srt \<Longrightarrow> list_all kv_ok kvs \<Longrightarrow> list_all kv_ok (srt kvs)"
  unfolding sorts_def list_all_iff by (metis mset_eq_setD)

lemma records_write: "list_all kv_ok kvs \<Longrightarrow> records (write_lines enc_kv kvs) = kvs"
  by (simp add: records_def kv_lines.read_write)

lemma records_Nil [simp]: "records [] = []"
  by (simp add: records_def read_lines_def scan_lines_def List.map_filter_def)

lemma sum_records_nonempty:
  "(\<Sum>d \<in># mset (filter (\<lambda>d. d \<noteq> []) ds). mset (records d)) = (\<Sum>d \<in># mset ds. mset (records d))"
  by (induction ds) auto

text \<open>Part \<open>i\<close> of the output holds the emitted pairs of reducer \<open>i\<close>, in order of their keys.\<close>

lemma runMap_parts:
  assumes srt: "sorts srt" and R: "R \<noteq> 0" and ok: "list_all kv_ok (emitted mapFunc content)"
  obtains parts where "runMap mapFunc srt R content = Inr \<lparr>map_file = write_parts (map (write_lines enc_kv) parts),
      reduce_data = map (\<lambda>kvs. word_of_nat (length (write_lines enc_kv kvs))) parts\<rparr>"
    "length parts = unat R"
    "\<forall>i < unat R. mset (parts ! i) = mset (partition_of R (word_of_nat i) (emitted mapFunc content)) \<and>
       sorted (map kv_key (parts ! i)) \<and> list_all kv_ok (parts ! i)"
proof -
  obtain bs where run: "runMap mapFunc srt R content = Inr (mergeSpills R (map write_parts (map (spill_parts srt R) bs)))"
    and bs: "concat bs = emitted mapFunc content"
    using runMap_spills [OF R] by (metis map_map)
  define parts where "parts = map (\<lambda>i. merge_files (spill_sections i (map write_parts (map (spill_parts srt R) bs)))) [0..<unat R]"
  have run': "runMap mapFunc srt R content = Inr \<lparr>map_file = write_parts (map (write_lines enc_kv) parts),
      reduce_data = map (\<lambda>kvs. word_of_nat (length (write_lines enc_kv kvs))) parts\<rparr>"
    by (simp add: run mergeSpills_def parts_def comp_def)
  have part: "mset (parts ! i) = mset (partition_of R (word_of_nat i) (emitted mapFunc content)) \<and>
      sorted (map kv_key (parts ! i)) \<and> list_all kv_ok (parts ! i)" if i: "i < unat R" for i
  proof -
    let ?p = "\<lambda>b. partition_of R (word_of_nat i) b"
    have Rb: "unat R \<le> 2 ^ 32" using unsigned_less [of R, where ?'a = nat] by simp
    let ?ds = "map (\<lambda>b. write_lines enc_kv (srt (?p b))) bs"
    have sec: "spill_sections i (map write_parts (map (spill_parts srt R) bs)) = filter (\<lambda>d. d \<noteq> []) ?ds"
      using i Rb by (subst spill_sections_parts) (auto simp: spill_parts_def comp_def)
    have b_ok: "list_all kv_ok (srt (?p b))" if "b \<in> set bs" for b
      using ok that by (intro sorts_ok [OF srt] partition_ok) (auto simp: bs [symmetric] list_all_iff)
    have rec: "records (write_lines enc_kv (srt (?p b))) = srt (?p b)" if "b \<in> set bs" for b
      by (rule records_write [OF b_ok [OF that]])
    have pi: "parts ! i = merge_files (filter (\<lambda>d. d \<noteq> []) ?ds)" using i sec by (simp add: parts_def)
    have "mset (parts ! i) = (\<Sum>b \<in># mset bs. mset (records (write_lines enc_kv (srt (?p b)))))"
      unfolding pi mset_merge_files sum_records_nonempty by (simp add: image_mset.compositionality comp_def)
    also have "\<dots> = (\<Sum>b \<in># mset bs. mset (?p b))"
      using rec srt by (intro arg_cong [where f = sum_mset] image_mset_cong) (simp add: sorts_def)
    finally have m: "mset (parts ! i) = mset (?p (emitted mapFunc content))"
      by (simp add: mset_partition_concat flip: bs)
    have "sorted (map kv_key (parts ! i))"
      unfolding pi using rec srt by (intro sorted_merge_files) (auto simp: sorts_def)
    moreover have "list_all kv_ok (parts ! i)"
      using partition_ok [OF ok] m unfolding list_all_iff by (metis mset_eq_setD)
    ultimately show ?thesis using m by blast
  qed
  show ?thesis by (rule that [OF run']) (use part in \<open>simp_all add: parts_def\<close>)
qed

end
