(* ===== verification/ReduceTask.thy ===== *)
theory ReduceTask
  imports MapTask
begin

text \<open>
  A reduce task of a worker (\<open>mapreduce/worker/worker.go\<close>, \<open>handleFetchIntermediate\<close>, \<open>shuffle\<close>,
  \<open>runReduce\<close>): the partitions of all map tasks are fetched from local disk or from the worker that ran
  the task, sorted externally, grouped by key into one line per key, and reduced line by line.
  A map task's files are \<open>None\<close> where the worker has no index of it; the network's outcomes are inputs.
\<close>

section \<open>Serving and fetching partitions\<close>

text \<open>The index lookup that \<open>handleFetchIntermediate\<close> and the local branch of \<open>shuffle\<close> share.\<close>

fun find_range :: "nat \<Rightarrow> string list \<Rightarrow> (nat \<times> nat) option" where
  "find_range r [] = None"
| "find_range r (line # ls) =
     (if line = [] then find_range r ls
      else case sscan3 line (0, 0, 0) of (rId, start, stop) \<Rightarrow>
        if rId = r then Some (start, stop) else find_range r ls)"

definition read_partition :: "nat \<Rightarrow> indexed_file \<Rightarrow> string option" where
  "read_partition r f = (case find_range r (split_on nl (file_index f)) of
      Some (pStart, pEnd) \<Rightarrow> if pEnd > pStart then Some (section_of (file_data f) pStart pEnd) else None
    | None \<Rightarrow> None)"

text \<open>The answer to a fetch request: the response's flag, and the raw bytes that follow it.\<close>

definition handleFetchIntermediate :: "nat \<Rightarrow> indexed_file option \<Rightarrow> bool \<times> string" where
  "handleFetchIntermediate r f = (case f of
      None \<Rightarrow> (False, [])
    | Some f \<Rightarrow> (True, case read_partition r f of None \<Rightarrow> [] | Some content \<Rightarrow> content))"

text \<open>
  How a partition is fetched: from this worker's own disk, or over a connection, where dialling, sending the
  request or receiving the response may fail, and copying the content may break off with an error
  or, if the other side dies, with an early end of file after some bytes.
\<close>

datatype transfer = Complete | CopyFails | EarlyEnd nat

datatype fetch_source =
    LocalDisk "indexed_file option"
  | Unreachable
  | Peer "indexed_file option" transfer

definition fetch :: "nat \<Rightarrow> fetch_source \<Rightarrow> string option" where
  "fetch r src = (case src of
      LocalDisk f \<Rightarrow> (case f of None \<Rightarrow> None | Some f \<Rightarrow> read_partition r f)
    | Unreachable \<Rightarrow> None
    | Peer f t \<Rightarrow> (case handleFetchIntermediate r f of (Ok, content) \<Rightarrow>
        if \<not> Ok then None
        else (case t of Complete \<Rightarrow> Some content | CopyFails \<Rightarrow> None | EarlyEnd n \<Rightarrow> Some (take n content))))"

section \<open>Grouping\<close>

text \<open>The loop over the sorted pairs: a change of key closes the group.\<close>

fun group_pairs :: "bytes option \<Rightarrow> bytes list \<Rightarrow> KeyValue list \<Rightarrow> (bytes \<times> bytes list) list" where
  "group_pairs currentKey values [] = (case currentKey of None \<Rightarrow> [] | Some k \<Rightarrow> [(k, values)])"
| "group_pairs currentKey values (kv # kvs) =
     (if currentKey \<noteq> None \<and> the currentKey \<noteq> kv_key kv
      then (the currentKey, values) # group_pairs (Some (kv_key kv)) [kv_value kv] kvs
      else group_pairs (Some (kv_key kv)) (values @ [kv_value kv]) kvs)"

definition merged_line :: "bytes \<times> bytes list \<Rightarrow> string" where
  "merged_line g = fst g @ tab # join_with (CHR '','') (snd g)"

text \<open>\<open>shuffle\<close>: sources that yield nothing are skipped.\<close>

definition shuffle :: "nat \<Rightarrow> fetch_source list \<Rightarrow> string option" where
  "shuffle r sources =
     (let fetchedFiles = List.map_filter (fetch r) sources in
      map_option (\<lambda>sorted. write_lines merged_line (group_pairs None [] (records sorted)))
        (ExternalSort (\<lambda>_. True) 0 (map Some fetchedFiles)))"

section \<open>Reducing\<close>

definition reduce_line :: "(bytes \<Rightarrow> bytes list \<Rightarrow> bytes) \<Rightarrow> string \<Rightarrow> string" where
  "reduce_line reduceFunc line = (case split2 tab line of
      [key, vals] \<Rightarrow> key @ '': '' @ reduceFunc key (split_on (CHR '','') vals) @ [nl]
    | _ \<Rightarrow> [])"

definition runReduce :: "(bytes \<Rightarrow> bytes list \<Rightarrow> bytes) \<Rightarrow> nat \<Rightarrow> fetch_source list \<Rightarrow> string option" where
  "runReduce reduceFunc r sources =
     map_option (\<lambda>merged. concat (map (reduce_line reduceFunc) (scan_lines maxTokenSize merged))) (shuffle r sources)"

section \<open>Lemmas\<close>

lemma find_range_index:
  "r + length ds \<le> 2 ^ 32 \<Longrightarrow> i < length ds \<Longrightarrow>
    find_range (r + i) (index_lines r off ds @ rest) = Some (off + part_start i ds, off + part_start i ds + length (ds ! i))"
proof (induction r off ds arbitrary: i rule: index_lines.induct)
  case (2 r off d ds)
  have scan: "sscan3 (index_line r off (off + length d)) (0, 0, 0) = (r, off, off + length d)"
    using "2.prems" by (intro sscan3_index_line) simp
  show ?case
  proof (cases i)
    case (Suc j)
    with "2.IH" [of j] "2.prems" scan show ?thesis
      by (simp add: Let_def part_start_def add.assoc)
  qed (use scan in \<open>simp add: Let_def part_start_def\<close>)
qed simp

lemma read_partition_parts:
  assumes "length ds \<le> 2 ^ 32" "i < length ds"
  shows "read_partition i (write_parts ds) = (if ds ! i = [] then None else Some (ds ! i))"
  using find_range_index [of 0 ds i 0 "[[]]"] section_part [of i ds] assms
  by (simp add: read_partition_def split_index) (simp add: write_parts_def)

text \<open>What a source delivers, when it delivers: the partition itself.\<close>

definition delivers :: "fetch_source \<Rightarrow> indexed_file \<Rightarrow> bool" where
  "delivers src f \<longleftrightarrow> src = LocalDisk (Some f) \<or> src = Peer (Some f) Complete"

lemma fetch_delivers:
  assumes "delivers src (write_parts ds)" "length ds \<le> 2 ^ 32" "i < length ds"
  shows "(case fetch i src of None \<Rightarrow> [] | Some c \<Rightarrow> c) = ds ! i"
  using assms read_partition_parts [of ds i]
  by (auto simp: delivers_def fetch_def handleFetchIntermediate_def)

subsection \<open>Groups\<close>

definition values_of :: "bytes \<Rightarrow> KeyValue list \<Rightarrow> bytes list" where
  "values_of k kvs = map kv_value (filter (\<lambda>kv. kv_key kv = k) kvs)"

lemma group_pairs_Some:
  "sorted (k # map kv_key kvs) \<Longrightarrow>
    group_pairs (Some k) vs kvs = (k, vs @ values_of k kvs) #
      map (\<lambda>x. (x, values_of x kvs)) (sorted_list_of_set (set (map kv_key kvs) - {k}))"
proof (induction kvs arbitrary: k vs)
  case (Cons kv kvs)
  show ?case
  proof (cases "kv_key kv = k")
    case True
    have "map (\<lambda>x. (x, values_of x (kv # kvs))) (sorted_list_of_set (set (map kv_key kvs) - {k})) =
        map (\<lambda>x. (x, values_of x kvs)) (sorted_list_of_set (set (map kv_key kvs) - {k}))"
      using True by (intro map_cong [OF refl]) (auto simp: values_of_def)
    with True Cons show ?thesis by (simp add: values_of_def)
  next
    case False
    let ?k2 = "kv_key kv" and ?S = "set (map kv_key kvs)"
    have sorted: "sorted (?k2 # map kv_key kvs)" using Cons.prems by simp
    have less: "k < ?k2" using Cons.prems False by auto
    then have notin: "k \<notin> ?S" using sorted by auto
    then have none: "values_of k (kv # kvs) = []"
      using False by (auto simp: values_of_def filter_empty_conv)
    have "set (map kv_key (kv # kvs)) - {k} = insert ?k2 ?S" using notin False by auto
    then have keys: "sorted_list_of_set (set (map kv_key (kv # kvs)) - {k}) = ?k2 # sorted_list_of_set (?S - {?k2})"
      using sorted by (simp, intro insort_is_Cons) auto
    have "map (\<lambda>x. (x, values_of x (kv # kvs))) (sorted_list_of_set (?S - {?k2})) =
        map (\<lambda>x. (x, values_of x kvs)) (sorted_list_of_set (?S - {?k2}))"
      by (intro map_cong [OF refl]) (auto simp: values_of_def)
    moreover have "values_of ?k2 (kv # kvs) = kv_value kv # values_of ?k2 kvs" by (simp add: values_of_def)
    ultimately show ?thesis
      using Cons.IH [OF sorted, of "[kv_value kv]"] False unfolding keys none by simp
  qed
qed (simp add: values_of_def)

lemma group_pairs_sorted:
  assumes "sorted (map kv_key kvs)"
  shows "group_pairs None [] kvs = map (\<lambda>k. (k, values_of k kvs)) (sorted_list_of_set (set (map kv_key kvs)))"
proof (cases kvs)
  case (Cons kv rest)
  let ?k = "kv_key kv" and ?S = "set (map kv_key rest)"
  have sorted: "sorted (?k # map kv_key rest)" using assms Cons by simp
  have keys: "sorted_list_of_set (set (map kv_key kvs)) = ?k # sorted_list_of_set (?S - {?k})"
    using sorted Cons by (simp, intro insort_is_Cons) auto
  have "map (\<lambda>x. (x, values_of x (kv # rest))) (sorted_list_of_set (?S - {?k})) =
      map (\<lambda>x. (x, values_of x rest)) (sorted_list_of_set (?S - {?k}))"
    by (intro map_cong [OF refl]) (auto simp: values_of_def)
  moreover have "values_of ?k (kv # rest) = kv_value kv # values_of ?k rest" by (simp add: values_of_def)
  ultimately show ?thesis using group_pairs_Some [OF sorted, of "[kv_value kv]"] Cons keys by simp
qed simp

subsection \<open>Reading the merged file\<close>

definition values_ok :: "bytes list \<Rightarrow> bool" where
  "values_ok vs \<longleftrightarrow> vs \<noteq> [] \<and> (\<forall>v \<in> set vs. nl \<notin> set v \<and> CHR '','' \<notin> set v \<and> (v = [] \<or> last v \<noteq> cr))"

lemma last_join: "values_ok vs \<Longrightarrow> join_with (CHR '','') vs = [] \<or> last (join_with (CHR '','') vs) \<noteq> cr"
  unfolding values_ok_def
  by (induction "CHR '',''" vs rule: join_with.induct) (auto split: if_splits)

lemma join_no_nl: "values_ok vs \<Longrightarrow> nl \<notin> set (join_with (CHR '','') vs)"
  using set_join_with [of "CHR '',''" vs] by (auto simp: values_ok_def)

lemma reduce_merged_line:
  "tab \<notin> set (fst g) \<Longrightarrow> values_ok (snd g) \<Longrightarrow>
    reduce_line reduceFunc (merged_line g) = fst g @ '': '' @ reduceFunc (fst g) (snd g) @ [nl]"
  using split_on_join [of "snd g" "CHR '',''"]
  by (simp add: reduce_line_def merged_line_def split2_sep values_ok_def)

text \<open>The lines before the first that does not fit the scanner's buffer are read as they were written.\<close>

lemma scan_merged:
  assumes "\<forall>g \<in> set gs. nl \<notin> set (fst g) \<and> values_ok (snd g)"
  shows "scan_lines maxTokenSize (write_lines merged_line gs) =
    map merged_line (takeWhile (\<lambda>g. length (merged_line g) < maxTokenSize) gs)"
  using assms
proof (induction gs)
  case (Cons g gs)
  have "nl \<notin> set (merged_line g)" using Cons.prems join_no_nl by (simp add: merged_line_def)
  moreover have "drop_cr (merged_line g) = merged_line g"
    using Cons.prems last_join [of "snd g"] by (intro drop_cr_last) (auto simp: merged_line_def)
  ultimately show ?case using Cons by (simp add: scan_lines_def raw_lines_line)
qed (simp add: scan_lines_def)

end
