(* ===== verification/Plugins.thy ===== *)
theory Plugins
  imports ReduceTask
begin

text \<open>
  The map and reduce functions of the job plugins (\<open>mapreduce/plugin/\<close>). \<open>url.Parse\<close> followed by
  \<open>Hostname\<close> is an argument of \<open>UniqueDomains_Map\<close>: \<open>None\<close> for a URL that does not parse.
\<close>

section \<open>Map\<close>

definition one :: bytes where
  "one = ''1''"

text \<open>\<open>unique_ips.go\<close> and \<open>unique_urls.go\<close>: one field of a tab-separated line.\<close>

definition UniqueIps_Map :: "string \<Rightarrow> KeyValue list" where
  "UniqueIps_Map line = (let parts = split_on tab line in
     if length parts \<ge> 3 then [\<lparr>kv_key = parts ! 2, kv_value = one\<rparr>] else [])"

definition UniqueUrls_Map :: "string \<Rightarrow> KeyValue list" where
  "UniqueUrls_Map line = (let parts = split_on tab line in
     if length parts \<ge> 4 then [\<lparr>kv_key = parts ! 3, kv_value = one\<rparr>] else [])"

definition UniqueDomains_Map :: "(bytes \<Rightarrow> bytes option) \<Rightarrow> string \<Rightarrow> KeyValue list" where
  "UniqueDomains_Map hostname line = (let parts = fields_of line in
     if length parts \<ge> 4 then
       (case hostname (parts ! 3) of
          None \<Rightarrow> []
        | Some domain \<Rightarrow> if domain \<noteq> [] then [\<lparr>kv_key = domain, kv_value = one\<rparr>] else [])
     else [])"

definition is_word_char :: "char \<Rightarrow> bool" where
  "is_word_char c \<longleftrightarrow> is_digit c \<or> c = CHR ''_'' \<or> (65 \<le> byte_of c \<and> byte_of c \<le> 90) \<or> (97 \<le> byte_of c \<and> byte_of c \<le> 122)"

definition WordCount_Map :: "string \<Rightarrow> KeyValue list" where
  "WordCount_Map line = map (\<lambda>word. \<lparr>kv_key = word, kv_value = one\<rparr>) (runs_of is_word_char [] (to_lower line))"

section \<open>Reduce\<close>

text \<open>Every plugin's \<open>Reduce\<close> is the number of values, in decimal.\<close>

definition Count_Reduce :: "bytes \<Rightarrow> bytes list \<Rightarrow> bytes" where
  "Count_Reduce key values = dec_str (length values)"

section \<open>The pairs a job may emit\<close>

text \<open>A pair survives the files of a job when the line format carries it and its value has no comma.\<close>

definition pair_ok :: "KeyValue \<Rightarrow> bool" where
  "pair_ok kv \<longleftrightarrow> kv_ok kv \<and> CHR '','' \<notin> set (kv_value kv)"

lemma lines_from_no_nl: "nl \<notin> set cur \<Longrightarrow> r \<in> set (lines_from cur s) \<Longrightarrow> nl \<notin> set r"
proof (induction s arbitrary: cur)
  case (Cons a s)
  then show ?case using Cons.IH [of "[]"] Cons.IH [of "cur @ [a]"] by (auto split: if_splits)
qed (auto split: if_splits)

lemma scan_line_facts:
  assumes "l \<in> set (scan_lines limit s)"
  shows "nl \<notin> set l" "length l < limit"
proof -
  obtain r where r: "l = drop_cr r" "r \<in> set (raw_lines s)" "length r < limit"
    using assms by (auto simp: scan_lines_def dest: set_takeWhileD)
  have "nl \<notin> set r" using r(2) lines_from_no_nl [of "[]" r s] by (simp add: raw_lines_def)
  with r show "nl \<notin> set l" "length l < limit" by (auto simp: drop_cr_def dest: in_set_butlastD)
qed

lemma split_on_facts:
  assumes "p \<in> set (split_on c s)"
  shows "c \<notin> set p" "set p \<subseteq> set s"
  using assms by (induction s arbitrary: p) (force split: if_splits list.splits)+

lemma split_on_length: "sum_list (map length (split_on c s)) + length (split_on c s) = Suc (length s)"
  by (induction s) (auto split: list.splits)

lemma field_short:
  assumes "i < length (split_on c s)" "2 \<le> length (split_on c s)"
  shows "length (split_on c s ! i) + length (split_on c s) \<le> Suc (length s)"
  using split_on_length [of c s] elem_le_sum_list [of i "map length (split_on c s)"] assms by simp

lemma field_pair_ok:
  assumes line: "l \<in> set (scan_lines maxTokenSize s)" and i: "i < length (split_on tab l)" "3 \<le> length (split_on tab l)"
  shows "pair_ok \<lparr>kv_key = split_on tab l ! i, kv_value = one\<rparr>"
proof -
  have "split_on tab l ! i \<in> set (split_on tab l)" using i by simp
  from split_on_facts [OF this] scan_line_facts [OF line] field_short [OF i(1)] i(2) show ?thesis
    by (auto simp: pair_ok_def kv_ok_def one_def)
qed

lemma UniqueIps_ok: "list_all pair_ok (emitted UniqueIps_Map s)"
  using field_pair_ok [of _ s 2] by (fastforce simp: emitted_def list_all_iff UniqueIps_Map_def Let_def)

lemma UniqueUrls_ok: "list_all pair_ok (emitted UniqueUrls_Map s)"
  using field_pair_ok [of _ s 3] by (fastforce simp: emitted_def list_all_iff UniqueUrls_Map_def Let_def)

lemma word_not_special: "is_word_char c \<Longrightarrow> c \<noteq> tab \<and> c \<noteq> nl"
  by (auto simp: is_word_char_def is_digit_def byte_of_def)

end
