(* ===== verification/JobProps.thy ===== *)
theory JobProps
  imports Plugins
begin

text \<open>
  Properties of the sort library and of whole MapReduce jobs: what the reduce tasks compute from the
  chunks the map tasks read, and the conditions under which records are lost on the way.
\<close>

section \<open>Whole jobs\<close>

text \<open>
  A job: map tasks over the chunks \<open>cs\<close> with outputs \<open>outs\<close>, and for one reducer the sources from which it
  fetches each output.
\<close>

definition job_emitted :: "(string \<Rightarrow> KeyValue list) \<Rightarrow> string list \<Rightarrow> KeyValue list" where
  "job_emitted mapFunc cs = concat (map (emitted mapFunc) cs)"

definition maps_done ::
    "(string \<Rightarrow> KeyValue list) \<Rightarrow> (KeyValue list \<Rightarrow> KeyValue list) \<Rightarrow> u32 \<Rightarrow> string list \<Rightarrow> map_output list \<Rightarrow> bool" where
  "maps_done mapFunc srt R cs outs \<longleftrightarrow> list_all2 (\<lambda>c out. runMap mapFunc srt R c = Inr out) cs outs"

definition all_delivered :: "fetch_source list \<Rightarrow> map_output list \<Rightarrow> bool" where
  "all_delivered sources outs \<longleftrightarrow> list_all2 (\<lambda>src out. delivers src (map_file out)) sources outs"

definition reducer_keys :: "u32 \<Rightarrow> nat \<Rightarrow> KeyValue list \<Rightarrow> bytes list" where
  "reducer_keys R r kvs = sorted_list_of_set {k \<in> kv_key ` set kvs. ihash k mod R = word_of_nat r}"

text \<open>The length of the line of one key in the merged file.\<close>

definition key_line_length :: "bytes \<Rightarrow> KeyValue list \<Rightarrow> nat" where
  "key_line_length k kvs = length k + sum_list (map (\<lambda>v. length v + 1) (values_of k kvs))"

lemma length_join_with: "vs \<noteq> [] \<Longrightarrow> length (join_with c vs) + 1 = sum_list (map (\<lambda>v. length v + 1) vs)"
  by (induction c vs rule: join_with.induct) auto

lemma length_merged_line:
  assumes "mset vs = mset (values_of k kvs)" "vs \<noteq> []"
  shows "length (merged_line (k, vs)) = key_line_length k kvs"
proof -
  have "mset (map (\<lambda>v. length v + 1) vs) = mset (map (\<lambda>v. length v + 1) (values_of k kvs))"
    using assms(1) by simp
  then have "sum_list (map (\<lambda>v. length v + 1) vs) = sum_list (map (\<lambda>v. length v + 1) (values_of k kvs))"
    by (metis sum_mset_sum_list)
  then show ?thesis using length_join_with [OF assms(2), of "CHR '',''"] by (simp add: merged_line_def key_line_length_def)
qed

lemma pair_ok_kv_ok: "list_all pair_ok kvs \<Longrightarrow> list_all kv_ok kvs"
  by (auto simp: list_all_iff pair_ok_def)

lemma length_values_of: "length (values_of k kvs) = count_list (map kv_key kvs) k"
  by (induction kvs) (auto simp: values_of_def)

text \<open>What is fetched for a reducer adds up to its partition of everything emitted.\<close>

lemma fetched_records:
  assumes srt: "sorts srt" and R: "R \<noteq> 0" and r: "r < unat R"
  shows "list_all pair_ok (job_emitted mapFunc cs) \<Longrightarrow> maps_done mapFunc srt R cs outs \<Longrightarrow> all_delivered sources outs \<Longrightarrow>
    good_input (map Some (List.map_filter (fetch r) sources)) \<and>
    all_records (map Some (List.map_filter (fetch r) sources)) = mset (partition_of R (word_of_nat r) (job_emitted mapFunc cs))"
proof (induction cs arbitrary: outs sources)
  case Nil
  then show ?case
    by (simp add: maps_done_def all_delivered_def job_emitted_def partition_of_def good_input_def all_records_def
        List.map_filter_def)
next
  case (Cons c cs)
  obtain out outs' where outs: "outs = out # outs'" "runMap mapFunc srt R c = Inr out" "maps_done mapFunc srt R cs outs'"
    using Cons.prems(2) by (auto simp: maps_done_def list_all2_Cons1)
  obtain src sources' where sources: "sources = src # sources'" "delivers src (map_file out)" "all_delivered sources' outs'"
    using Cons.prems(3) outs by (auto simp: all_delivered_def list_all2_Cons2)
  have ok: "list_all kv_ok (emitted mapFunc c)" "list_all pair_ok (job_emitted mapFunc cs)"
    using Cons.prems(1) pair_ok_kv_ok by (auto simp: job_emitted_def)
  obtain parts where parts: "map_file out = write_parts (map (write_lines enc_kv) parts)" "length parts = unat R"
    "\<forall>i < unat R. mset (parts ! i) = mset (partition_of R (word_of_nat i) (emitted mapFunc c)) \<and>
       sorted (map kv_key (parts ! i)) \<and> list_all kv_ok (parts ! i)"
    using runMap_parts [OF srt R ok(1)] outs(2) by (metis Inr_inject map_output.select_convs(1))
  note p = parts(3) [rule_format, OF r]
  have len: "length (map (write_lines enc_kv) parts) \<le> 2 ^ 32" "r < length (map (write_lines enc_kv) parts)"
    using parts(2) r unsigned_less [of R, where ?'a = nat] by simp_all
  have fetched: "(case fetch r src of None \<Rightarrow> [] | Some c \<Rightarrow> c) = write_lines enc_kv (parts ! r)"
    using fetch_delivers [of src "map (write_lines enc_kv) parts" r] sources(2) parts(1,2) len r by simp
  have IH: "good_input (map Some (List.map_filter (fetch r) sources'))"
    "all_records (map Some (List.map_filter (fetch r) sources')) = mset (partition_of R (word_of_nat r) (job_emitted mapFunc cs))"
    using Cons.IH [OF ok(2) outs(3) sources(3)] by simp_all
  have mset_all: "mset (partition_of R (word_of_nat r) (job_emitted mapFunc (c # cs))) =
      mset (parts ! r) + mset (partition_of R (word_of_nat r) (job_emitted mapFunc cs))"
    using p by (simp add: job_emitted_def partition_of_def)
  show ?case
  proof (cases "fetch r src")
    case None
    then have "parts ! r = []" using fetched by (cases "parts ! r") simp_all
    then show ?thesis using None IH mset_all by (simp add: sources(1) List.map_filter_def)
  next
    case (Some content)
    then have rec: "records content = parts ! r" using fetched p by (simp add: records_write)
    have "List.map_filter (fetch r) sources = content # List.map_filter (fetch r) sources'"
      using Some by (simp add: sources(1) List.map_filter_def)
    then show ?thesis
      using IH mset_all rec p by (auto simp: good_input_def all_records_def List.map_filter_def)
  qed
qed

text \<open>
  The result of a reduce task: one line for every key of its partition in order, up to the first key whose
  merged line does not fit the scanner's buffer, each with all the key's values.
\<close>

lemma runReduce_lines:
  assumes srt: "sorts srt" and R: "R \<noteq> 0" and r: "r < unat R"
    and ok: "list_all pair_ok (job_emitted mapFunc cs)"
    and maps: "maps_done mapFunc srt R cs outs" and src: "all_delivered sources outs"
  defines "kvs \<equiv> job_emitted mapFunc cs"
  shows "\<exists>vals. (\<forall>k \<in> set (reducer_keys R r kvs). mset (vals k) = mset (values_of k kvs)) \<and>
    runReduce reduceFunc r sources = Some (concat (map (\<lambda>k. k @ '': '' @ reduceFunc k (vals k) @ [nl])
       (takeWhile (\<lambda>k. key_line_length k kvs < maxTokenSize) (reducer_keys R r kvs))))"
proof -
  let ?P = "partition_of R (word_of_nat r) kvs"
  have fetched: "good_input (map Some (List.map_filter (fetch r) sources))"
    "all_records (map Some (List.map_filter (fetch r) sources)) = mset ?P"
    using fetched_records [OF srt R r ok maps src] by (simp_all add: kvs_def)
  then obtain out where out: "ExternalSort (\<lambda>_. True) 0 (map Some (List.map_filter (fetch r) sources)) = Some out"
    "sorted_output out (mset ?P)"
    using ExternalSort_sorted by metis
  let ?rs = "records out"
  have rs: "sorted (map kv_key ?rs)" "mset ?rs = mset ?P" using sorted_output_records [OF out(2)] by simp_all
  define vals where "vals k = values_of k ?rs" for k
  have "set ?rs = set ?P" using rs(2) by (rule mset_eq_setD)
  then have keys: "sorted_list_of_set (set (map kv_key ?rs)) = reducer_keys R r kvs"
    unfolding reducer_keys_def by (intro arg_cong [where f = sorted_list_of_set]) (auto simp: partition_of_def)
  have groups: "group_pairs None [] ?rs = map (\<lambda>k. (k, vals k)) (reducer_keys R r kvs)"
    using group_pairs_sorted [OF rs(1)] unfolding keys vals_def .
  have vals: "mset (vals k) = mset (values_of k kvs)" "vals k \<noteq> []" "values_ok (vals k)" "tab \<notin> set k" "nl \<notin> set k"
    if k: "k \<in> set (reducer_keys R r kvs)" for k
  proof -
    have hash: "ihash k mod R = word_of_nat r" and kin: "k \<in> kv_key ` set kvs"
      using k by (auto simp: reducer_keys_def)
    have "filter_mset (\<lambda>kv. kv_key kv = k) (mset ?rs) = filter_mset (\<lambda>kv. kv_key kv = k) (mset kvs)"
      unfolding rs(2) partition_of_def mset_filter filter_filter_mset
      by (rule filter_mset_cong) (use hash in auto)
    then show m: "mset (vals k) = mset (values_of k kvs)"
      unfolding vals_def values_of_def by (metis (mono_tags, lifting) mset_filter mset_map)
    have "values_of k kvs \<noteq> []" using kin by (auto simp: values_of_def filter_empty_conv)
    with m show ne: "vals k \<noteq> []" by auto
    have "pair_ok kv" if "kv \<in> set kvs" for kv using ok that by (simp add: kvs_def list_all_iff)
    moreover have "set (vals k) = set (values_of k kvs)" using m by (rule mset_eq_setD)
    ultimately show "values_ok (vals k)" "tab \<notin> set k" "nl \<notin> set k"
      using ne kin by (auto simp: values_ok_def values_of_def pair_ok_def kv_ok_def)
  qed
  let ?gs = "map (\<lambda>k. (k, vals k)) (reducer_keys R r kvs)"
  have "shuffle r sources = Some (write_lines merged_line ?gs)"
    using out(1) by (simp add: shuffle_def groups)
  then have "runReduce reduceFunc r sources = Some (concat (map (reduce_line reduceFunc)
      (map merged_line (takeWhile (\<lambda>g. length (merged_line g) < maxTokenSize) ?gs))))"
    using scan_merged [of ?gs] vals by (simp add: runReduce_def)
  also have "takeWhile (\<lambda>g. length (merged_line g) < maxTokenSize) ?gs =
      map (\<lambda>k. (k, vals k)) (takeWhile (\<lambda>k. key_line_length k kvs < maxTokenSize) (reducer_keys R r kvs))"
    unfolding takeWhile_map comp_def
    by (intro arg_cong [where f = "map _"] takeWhile_cong) (use vals length_merged_line in auto)
  finally have "runReduce reduceFunc r sources = Some (concat (map (\<lambda>k. reduce_line reduceFunc (merged_line (k, vals k)))
      (takeWhile (\<lambda>k. key_line_length k kvs < maxTokenSize) (reducer_keys R r kvs))))"
    by (simp add: comp_def)
  also have "map (\<lambda>k. reduce_line reduceFunc (merged_line (k, vals k))) (takeWhile (\<lambda>k. key_line_length k kvs < maxTokenSize) (reducer_keys R r kvs)) =
      map (\<lambda>k. k @ '': '' @ reduceFunc k (vals k) @ [nl]) (takeWhile (\<lambda>k. key_line_length k kvs < maxTokenSize) (reducer_keys R r kvs))"
    by (intro map_cong [OF refl]) (use vals in \<open>auto simp: reduce_merged_line dest!: set_takeWhileD\<close>)
  finally show ?thesis using vals(1) by blast
qed

text \<open>C7: a job computes what it should: a reduce task whose map outputs were all delivered, and none of whose
  merged lines outgrows the scanner's buffer, writes one line for every key of its partition, in order of the
  keys, with the reduce function applied to all values emitted for the key in all chunks, in some order.\<close>

theorem job_result:
  assumes srt: "sorts srt" and R: "R \<noteq> 0" "r < unat R"
    and ok: "list_all pair_ok (job_emitted mapFunc cs)"
    and maps: "maps_done mapFunc srt R cs outs" and src: "all_delivered sources outs"
    and fit: "\<forall>k \<in> set (reducer_keys R r (job_emitted mapFunc cs)). key_line_length k (job_emitted mapFunc cs) < maxTokenSize"
  shows "\<exists>vals. (\<forall>k \<in> set (reducer_keys R r (job_emitted mapFunc cs)).
      mset (vals k) = mset (values_of k (job_emitted mapFunc cs))) \<and>
    runReduce reduceFunc r sources = Some (concat (map (\<lambda>k. k @ '': '' @ reduceFunc k (vals k) @ [nl])
      (reducer_keys R r (job_emitted mapFunc cs))))"
proof -
  have tw: "takeWhile (\<lambda>k. key_line_length k (job_emitted mapFunc cs) < maxTokenSize) (reducer_keys R r (job_emitted mapFunc cs)) =
      reducer_keys R r (job_emitted mapFunc cs)"
    using fit by (simp add: takeWhile_eq_all_conv)
  show ?thesis using runReduce_lines [OF srt R ok maps src, of reduceFunc] unfolding tw by blast
qed

text \<open>A one-line log, its only address, and its job.\<close>

definition demo_chunk_text :: string where
  "demo_chunk_text = ''1'' @ [tab] @ ''2'' @ [tab] @ ''ip'' @ [nl]"

lemma demo_emitted: "job_emitted UniqueIps_Map [demo_chunk_text] = [\<lparr>kv_key = ''ip'', kv_value = ''1''\<rparr>]"
  by (simp add: job_emitted_def emitted_def demo_chunk_text_def scan_lines_def raw_lines_def drop_cr_def
      UniqueIps_Map_def one_def maxTokenSize_def Let_def)

lemma sorts_sort_key: "sorts (sort_key kv_key)"
  by (simp add: sorts_def)

lemma demo_keys: "reducer_keys 1 0 [\<lparr>kv_key = ''ip'', kv_value = ''1''\<rparr>] = [''ip'']"
proof -
  have "{k \<in> kv_key ` set [\<lparr>kv_key = ''ip'', kv_value = ''1''\<rparr>]. ihash k mod (1 :: u32) = word_of_nat 0} = {''ip''}"
    by auto
  then show ?thesis by (simp add: reducer_keys_def)
qed

lemma demo_map:
  obtains out where "maps_done UniqueIps_Map (sort_key kv_key) 1 [demo_chunk_text] [out]"
proof -
  obtain out where "runMap UniqueIps_Map (sort_key kv_key) 1 demo_chunk_text = Inr out"
    using runMap_spills [of 1 UniqueIps_Map "sort_key kv_key" demo_chunk_text] by auto
  then show ?thesis using that by (simp add: maps_done_def)
qed

theorem job_result_witness:
  "\<exists>out. runMap UniqueIps_Map (sort_key kv_key) 1 demo_chunk_text = Inr out \<and>
     runReduce Count_Reduce 0 [LocalDisk (Some (map_file out))] = Some (''ip: 1'' @ [nl])"
proof -
  obtain out where out: "maps_done UniqueIps_Map (sort_key kv_key) 1 [demo_chunk_text] [out]" by (rule demo_map)
  have ok: "list_all pair_ok (job_emitted UniqueIps_Map [demo_chunk_text])"
    using UniqueIps_ok [of demo_chunk_text] by (simp add: job_emitted_def)
  have src: "all_delivered [LocalDisk (Some (map_file out))] [out]" by (simp add: all_delivered_def delivers_def)
  have fit: "\<forall>k \<in> set (reducer_keys 1 0 (job_emitted UniqueIps_Map [demo_chunk_text])).
      key_line_length k (job_emitted UniqueIps_Map [demo_chunk_text]) < maxTokenSize"
    by (simp add: demo_emitted demo_keys key_line_length_def values_of_def maxTokenSize_def)
  from job_result [OF sorts_sort_key _ _ ok out src fit, of Count_Reduce]
  obtain vals where "mset (vals ''ip'') = mset [''1'']"
    "runReduce Count_Reduce 0 [LocalDisk (Some (map_file out))] = Some (''ip: '' @ Count_Reduce ''ip'' (vals ''ip'') @ [nl])"
    by (auto simp: demo_emitted demo_keys values_of_def)
  moreover from this(1) have "length (vals ''ip'') = 1" by (metis One_nat_def length_Cons list.size(3) mset_eq_length)
  ultimately show ?thesis using out by (simp add: Count_Reduce_def dec_str_one maps_done_def)
qed

text \<open>The job with the \<open>unique_ips\<close> plugin counts addresses: reducer \<open>r\<close> writes, for every third field of the
  chunks' tab-separated lines that hashes to it, the number of lines with that field. No condition on the input
  is left but the size of the merged lines.\<close>

lemma unique_ips_job:
  assumes srt: "sorts srt" and R: "R \<noteq> 0" "r < unat R"
    and maps: "maps_done UniqueIps_Map srt R cs outs" and src: "all_delivered sources outs"
    and fit: "\<forall>k \<in> set (reducer_keys R r (job_emitted UniqueIps_Map cs)). key_line_length k (job_emitted UniqueIps_Map cs) < maxTokenSize"
  shows "runReduce Count_Reduce r sources = Some (concat (map (\<lambda>ip. ip @ '': '' @
      dec_str (count_list (map kv_key (job_emitted UniqueIps_Map cs)) ip) @ [nl])
      (reducer_keys R r (job_emitted UniqueIps_Map cs))))"
proof -
  let ?kvs = "job_emitted UniqueIps_Map cs"
  have ok: "list_all pair_ok ?kvs" using UniqueIps_ok by (induction cs) (auto simp: job_emitted_def)
  have tw: "takeWhile (\<lambda>k. key_line_length k ?kvs < maxTokenSize) (reducer_keys R r ?kvs) = reducer_keys R r ?kvs"
    using fit by (simp add: takeWhile_eq_all_conv)
  obtain vals where vals: "\<forall>k \<in> set (reducer_keys R r ?kvs). mset (vals k) = mset (values_of k ?kvs)"
    and run: "runReduce Count_Reduce r sources = Some (concat (map (\<lambda>k. k @ '': '' @ Count_Reduce k (vals k) @ [nl]) (reducer_keys R r ?kvs)))"
    using runReduce_lines [OF srt R ok maps src, of Count_Reduce] unfolding tw by blast
  have "length (vals k) = count_list (map kv_key ?kvs) k" if "k \<in> set (reducer_keys R r ?kvs)" for k
  proof -
    have "length (vals k) = length (values_of k ?kvs)" using bspec [OF vals that] by (rule mset_eq_length)
    also have "\<dots> = count_list (map kv_key ?kvs) k" by (rule length_values_of)
    finally show ?thesis .
  qed
  then have eq: "map (\<lambda>k. k @ '': '' @ Count_Reduce k (vals k) @ [nl]) (reducer_keys R r ?kvs) =
      map (\<lambda>ip. ip @ '': '' @ dec_str (count_list (map kv_key ?kvs) ip) @ [nl]) (reducer_keys R r ?kvs)"
    by (intro map_cong [OF refl]) (simp add: Count_Reduce_def)
  show ?thesis unfolding run eq ..
qed

theorem unique_ips_job_witness:
  "\<exists>out. runMap UniqueIps_Map (sort_key kv_key) 1 demo_chunk_text = Inr out \<and>
     runReduce Count_Reduce 0 [Peer (Some (map_file out)) Complete] = Some (''ip: 1'' @ [nl])"
proof -
  obtain out where out: "maps_done UniqueIps_Map (sort_key kv_key) 1 [demo_chunk_text] [out]" by (rule demo_map)
  have src: "all_delivered [Peer (Some (map_file out)) Complete] [out]" by (simp add: all_delivered_def delivers_def)
  have fit: "\<forall>k \<in> set (reducer_keys 1 0 (job_emitted UniqueIps_Map [demo_chunk_text])).
      key_line_length k (job_emitted UniqueIps_Map [demo_chunk_text]) < maxTokenSize"
    by (simp add: demo_emitted demo_keys key_line_length_def values_of_def maxTokenSize_def)
  from unique_ips_job [OF sorts_sort_key _ _ out src fit] out show ?thesis
    by (simp add: demo_emitted demo_keys dec_str_one maps_done_def)
qed

section \<open>Where a job loses records\<close>

text \<open>A key with too many values takes everything after it along. When the merged line of a key does not fit
  the 16 MiB buffer of the scanner, the reduce task still succeeds, but its result has neither that key nor any
  key after it.\<close>

lemma large_key_truncates_result:
  assumes srt: "sorts srt" and R: "R \<noteq> 0" "r < unat R"
    and ok: "list_all pair_ok (job_emitted mapFunc cs)"
    and maps: "maps_done mapFunc srt R cs outs" and src: "all_delivered sources outs"
    and large: "k0 \<in> set (reducer_keys R r (job_emitted mapFunc cs))"
      "maxTokenSize \<le> key_line_length k0 (job_emitted mapFunc cs)"
  shows "\<exists>shown vals. runReduce reduceFunc r sources =
      Some (concat (map (\<lambda>k. k @ '': '' @ reduceFunc k (vals k) @ [nl]) shown)) \<and> (\<forall>k \<in> set shown. k < k0)"
proof -
  let ?keys = "reducer_keys R r (job_emitted mapFunc cs)"
  let ?shown = "takeWhile (\<lambda>k. key_line_length k (job_emitted mapFunc cs) < maxTokenSize) ?keys"
  have sorted: "sorted_wrt (<) ?keys" by (simp add: reducer_keys_def)
  obtain ys zs where keys: "?keys = ys @ k0 # zs" using large(1) by (meson split_list)
  have "?shown = takeWhile (\<lambda>k. key_line_length k (job_emitted mapFunc cs) < maxTokenSize) ys"
    unfolding keys using large(2) by (intro takeWhile_tail) simp
  then have "set ?shown \<subseteq> set ys" using set_takeWhileD by fastforce
  then have "\<forall>k \<in> set ?shown. k < k0" using sorted unfolding keys by (auto simp: sorted_wrt_append)
  then show ?thesis using runReduce_lines [OF srt R ok maps src, of reduceFunc] by blast
qed

definition demo_big_map :: "string \<Rightarrow> KeyValue list" where
  "demo_big_map line = replicate 2 \<lparr>kv_key = ''k'', kv_value = replicate (8 * 1024 * 1024) (CHR ''v'')\<rparr>"

lemma demo_big_emitted: "job_emitted demo_big_map [''x'' @ [nl]] = demo_big_map ''x''"
  by (simp add: job_emitted_def emitted_def scan_lines_def raw_lines_def drop_cr_def maxTokenSize_def demo_big_map_def)

theorem large_key_truncates_result_witness:
  "\<exists>out. runMap demo_big_map (sort_key kv_key) 1 (''x'' @ [nl]) = Inr out \<and>
     (\<exists>shown vals. runReduce Count_Reduce 0 [LocalDisk (Some (map_file out))] =
        Some (concat (map (\<lambda>k. k @ '': '' @ Count_Reduce k (vals k) @ [nl]) shown)) \<and> (\<forall>k \<in> set shown. k < ''k''))"
proof -
  obtain out where run: "runMap demo_big_map (sort_key kv_key) 1 (''x'' @ [nl]) = Inr out"
    using runMap_spills [of 1 demo_big_map "sort_key kv_key" "''x'' @ [nl]"] by auto
  have maps: "maps_done demo_big_map (sort_key kv_key) 1 [''x'' @ [nl]] [out]" using run by (simp add: maps_done_def)
  have src: "all_delivered [LocalDisk (Some (map_file out))] [out]" by (simp add: all_delivered_def delivers_def)
  have "pair_ok \<lparr>kv_key = ''k'', kv_value = replicate (8 * 1024 * 1024) (CHR ''v'')\<rparr>"
    by (simp add: pair_ok_def kv_ok_def maxTokenSize_def)
  then have ok: "list_all pair_ok (job_emitted demo_big_map [''x'' @ [nl]])"
    unfolding demo_big_emitted demo_big_map_def by (simp add: list_all_iff)
  have keys: "''k'' \<in> set (reducer_keys 1 0 (job_emitted demo_big_map [''x'' @ [nl]]))"
    unfolding demo_big_emitted by (auto simp: reducer_keys_def demo_big_map_def)
  have "maxTokenSize \<le> key_line_length ''k'' (job_emitted demo_big_map [''x'' @ [nl]])"
    unfolding demo_big_emitted
    by (simp add: key_line_length_def values_of_def demo_big_map_def maxTokenSize_def numeral_2_eq_2)
  from large_key_truncates_result [OF sorts_sort_key _ _ ok maps src keys this] run show ?thesis by simp
qed

text \<open>A reduce task does not notice missing input. A map output whose worker cannot be reached, or has no index
  of it, or whose transfer fails, is left out; one whose connection ends early is cut short; the task
  succeeds all the same and reduces what is left.\<close>

lemma missing_input_ignored:
  "runReduce reduceFunc r (xs @ src # ys) \<noteq> None \<and>
   (src \<in> {Unreachable, LocalDisk None, Peer None t, Peer f CopyFails} \<longrightarrow>
      runReduce reduceFunc r (xs @ src # ys) = runReduce reduceFunc r (xs @ ys)) \<and>
   fetch r (Peer (Some g) (EarlyEnd n)) = Some (take n (snd (handleFetchIntermediate r (Some g))))"
proof -
  have some: "ExternalSort (\<lambda>_. True) i inputs \<noteq> None" for i and inputs :: "string option list"
  proof (induction "\<lambda>_ :: nat. True" i inputs rule: ExternalSort.induct)
    case (1 i inputs)
    have "\<exists>temps. sort_batches (\<lambda>_. True) i bs = Some temps" for i bs
      by (induction bs arbitrary: i) (auto simp: externalSortBatch_def)
    then obtain temps where temps: "sort_batches (\<lambda>_. True) i (batches batchSize inputs) = Some temps" by blast
    show ?case
    proof (cases "length inputs \<le> batchSize")
      case False
      from 1 [OF False temps] False temps show ?thesis by (subst ExternalSort.simps) simp
    qed (simp add: ExternalSort.simps externalSortBatch_def)
  qed
  have "fetch r src = None" if "src \<in> {Unreachable, LocalDisk None, Peer None t, Peer f CopyFails}"
    using that by (auto simp: fetch_def handleFetchIntermediate_def split: prod.splits)
  then show ?thesis
    using some by (auto simp: runReduce_def shuffle_def map_filter_append List.map_filter_def fetch_def
        handleFetchIntermediate_def)
qed

theorem missing_input_ignored_witness:
  "runReduce Count_Reduce 0 [Unreachable] = runReduce Count_Reduce 0 []"
  using missing_input_ignored [of Count_Reduce 0 "[]" Unreachable "[]"] by simp

section \<open>Single tasks\<close>

text \<open>A worker serves every reducer exactly its partition: the pairs the map function emitted for the chunk
  whose key hashes to the reducer, each as often as it was emitted, sorted by key, in the line format; and the
  size reported to the master for the reducer is the length of those bytes, modulo 2 to the 64.\<close>

lemma partition_served:
  assumes "sorts srt" "R \<noteq> 0" "list_all kv_ok (emitted mapFunc content)"
    and run: "runMap mapFunc srt R content = Inr out" and r: "r < unat R"
  shows "\<exists>kvs. handleFetchIntermediate r (Some (map_file out)) = (True, write_lines enc_kv kvs) \<and>
    mset kvs = mset (partition_of R (word_of_nat r) (emitted mapFunc content)) \<and> sorted (map kv_key kvs) \<and>
    length (reduce_data out) = unat R \<and> reduce_data out ! r = word_of_nat (length (write_lines enc_kv kvs))"
proof -
  obtain parts where parts: "runMap mapFunc srt R content = Inr \<lparr>map_file = write_parts (map (write_lines enc_kv) parts),
      reduce_data = map (\<lambda>kvs. word_of_nat (length (write_lines enc_kv kvs))) parts\<rparr>" "length parts = unat R"
    "\<forall>i < unat R. mset (parts ! i) = mset (partition_of R (word_of_nat i) (emitted mapFunc content)) \<and>
       sorted (map kv_key (parts ! i)) \<and> list_all kv_ok (parts ! i)"
    by (rule runMap_parts [OF assms(1-3)])
  have "length (map (write_lines enc_kv) parts) \<le> 2 ^ 32"
    using parts(2) unsigned_less [of R, where ?'a = nat] by simp
  then have "handleFetchIntermediate r (Some (map_file out)) = (True, write_lines enc_kv (parts ! r))"
    using read_partition_parts [of "map (write_lines enc_kv) parts" r] parts(1,2) run r
    by (auto simp: handleFetchIntermediate_def)
  then show ?thesis using parts run r by auto
qed

theorem partition_served_witness:
  "\<exists>out. runMap UniqueIps_Map (sort_key kv_key) 1 demo_chunk_text = Inr out \<and>
     handleFetchIntermediate 0 (Some (map_file out)) = (True, ''ip'' @ [tab] @ ''1'' @ [nl])"
proof -
  have e: "emitted UniqueIps_Map demo_chunk_text = [\<lparr>kv_key = ''ip'', kv_value = ''1''\<rparr>]"
    using demo_emitted by (simp add: job_emitted_def)
  have ok: "list_all kv_ok (emitted UniqueIps_Map demo_chunk_text)"
    using pair_ok_kv_ok [OF UniqueIps_ok] .
  obtain out where run: "runMap UniqueIps_Map (sort_key kv_key) 1 demo_chunk_text = Inr out"
    using runMap_spills [of 1 UniqueIps_Map "sort_key kv_key" demo_chunk_text] by auto
  from partition_served [OF sorts_sort_key _ ok run, of 0] obtain kvs where
    "handleFetchIntermediate 0 (Some (map_file out)) = (True, write_lines enc_kv kvs)"
    "mset kvs = {#\<lparr>kv_key = ''ip'', kv_value = ''1''\<rparr>#}"
    by (auto simp: e partition_of_def)
  with run show ?thesis by (auto simp: enc_kv_def)
qed

text \<open>A map task assigned to no reducers divides by zero: it panics exactly when the map function emits
  anything at all, and otherwise completes with an empty output.\<close>

lemma map_without_reducers:
  "runMap mapFunc srt 0 content = (if emitted mapFunc content = [] then Inr (mergeSpills 0 []) else Inl Panic)"
proof -
  have "buffer_pairs srt 0 buffer [] kvs = Inl Panic \<or> buffer_pairs srt 0 buffer [] kvs = Inr (buffer @ kvs, [])" for buffer kvs
  proof (induction kvs arbitrary: buffer)
    case (Cons kv kvs)
    from Cons.IH [of "buffer @ [kv]"] show ?case by (simp add: Let_def spill_def)
  qed simp
  from this [of "[]" "emitted mapFunc content"] show ?thesis by (auto simp: runMap_def spill_def)
qed

text \<open>External sorting of any number of sorted files, in batches of a hundred where there are more, succeeds with
  one sorted file that holds every pair of every readable file exactly as often as they did; unreadable files are
  skipped.\<close>

lemma external_sort_correct:
  assumes "\<forall>c. Some c \<in> set inputs \<longrightarrow> list_all kv_ok (records c) \<and> sorted (map kv_key (records c))"
  shows "\<exists>kvs. ExternalSort (\<lambda>_. True) i inputs = Some (write_lines enc_kv kvs) \<and> sorted (map kv_key kvs) \<and>
    mset kvs = (\<Sum>c \<in># mset (List.map_filter id inputs). mset (records c))"
  using ExternalSort_sorted [of inputs i] assms by (auto simp: good_input_def sorted_output_def all_records_def)

theorem external_sort_correct_witness:
  "\<exists>kvs. ExternalSort (\<lambda>_. True) 0 (replicate 150 (Some (''k'' @ [tab] @ ''v'' @ [nl]))) = Some (write_lines enc_kv kvs) \<and>
     length kvs = 150"
proof -
  let ?kv = "\<lparr>kv_key = ''k'', kv_value = ''v''\<rparr>" and ?c = "''k'' @ [tab] @ ''v'' @ [nl]"
  have "kv_ok ?kv" by (simp add: kv_ok_def maxTokenSize_def)
  have c: "?c = write_lines enc_kv [?kv]" by (simp add: enc_kv_def)
  have rec: "records ?c = [?kv]" unfolding c by (rule records_write) (simp add: \<open>kv_ok ?kv\<close>)
  have filter: "List.map_filter id (replicate n (Some ?c)) = replicate n ?c" for n
    by (induction n) (simp_all add: List.map_filter_def)
  have sum: "(\<Sum>c \<in># mset (replicate n ?c). mset (records c)) = replicate_mset n ?kv" for n
    unfolding mset_replicate using rec by (induction n) simp_all
  have ok: "\<forall>c. Some c \<in> set (replicate 150 (Some ?c)) \<longrightarrow> list_all kv_ok (records c) \<and> sorted (map kv_key (records c))"
    using rec \<open>kv_ok ?kv\<close> by simp
  obtain kvs where "ExternalSort (\<lambda>_. True) 0 (replicate 150 (Some ?c)) = Some (write_lines enc_kv kvs)"
    "mset kvs = replicate_mset 150 ?kv"
    using external_sort_correct [OF ok, of 0] unfolding filter sum by blast
  moreover from this(2) have "length kvs = 150" by (metis size_mset size_replicate_mset)
  ultimately show ?thesis by blast
qed

end
