(* ===== verification/ChunkProps.thy ===== *)
theory ChunkProps
  imports Chunking JobProps
begin

text \<open>
  Properties of the client's chunking: a file survives the way through its chunks, text files are cut between
  lines, and a job over the chunks sees the lines of the file.
\<close>

section \<open>Lemmas\<close>

lemma binary_sizes:
  assumes m: "0 < m" and n: "n = (L + m - 1) div m"
  shows "sum_list (map (\<lambda>i. if i = n - 1 then L - i * m else m) [0..<n]) = L"
    and "\<forall>s \<in> set (map (\<lambda>i. if i = n - 1 then L - i * m else m) [0..<n]). s \<le> m"
proof -
  show "sum_list (map (\<lambda>i. if i = n - 1 then L - i * m else m) [0..<n]) = L"
  proof (cases n)
    case 0
    then have "L = 0" using n m by (cases L) (auto simp: div_eq_0_iff)
    then show ?thesis using 0 by simp
  next
    case (Suc k)
    have "k * m \<le> L"
    proof -
      have "Suc k * m \<le> L + m - 1" unfolding Suc [symmetric] n by simp
      then show ?thesis using m by simp
    qed
    moreover have "map (\<lambda>i. if i = n - 1 then L - i * m else m) [0..<n] = map (\<lambda>_. m) [0..<k] @ [L - k * m]"
      using Suc by simp
    ultimately show ?thesis by (simp add: map_replicate_const sum_list_replicate)
  qed
  have "L - (n - 1) * m \<le> m"
  proof (cases n)
    case (Suc k)
    have "L + m - 1 < m + (L + m - 1) div m * m" by (rule dividend_less_div_times [OF m])
    then have "L + m - 1 < m + Suc k * m" using n Suc by simp
    then show ?thesis using Suc by simp
  qed (use n m in \<open>cases L, auto simp: div_eq_0_iff\<close>)
  then show "\<forall>s \<in> set (map (\<lambda>i. if i = n - 1 then L - i * m else m) [0..<n]). s \<le> m" by auto
qed

text \<open>Whatever the kind of file, its chunks are consecutive pieces of it.\<close>

lemma calculateChunks_pieces:
  assumes mx: "mx \<noteq> 0" and short: "isText \<Longrightarrow> short_lines content (unat mx)"
  obtains ns where "calculateChunks content isText mx = Some (map word_of_nat ns)"
    "sum_list ns = length content" "read_chunks (map word_of_nat ns) content = cut_file ns content"
    "isText \<Longrightarrow> ns = text_cuts content (unat mx) 0"
proof -
  have pos: "0 < unat mx" using mx by (simp add: unat_gt_0)
  have bound: "unat mx < 2 ^ 32" using unsigned_less [of mx, where ?'a = nat] by simp
  show ?thesis
  proof (cases isText)
    case True
    let ?ns = "text_cuts content (unat mx) 0"
    have t: "text_chunks content mx 0 = Some (map word_of_nat ?ns)" "\<forall>n \<in> set ?ns. n < 2 ^ 32"
      using text_chunks_cuts [OF refl mx short [OF True], of 0] by simp_all
    moreover have s: "sum_list ?ns = length content" using sum_text_cuts [OF pos, of 0 content] by simp
    ultimately show ?thesis using True read_chunks_cut [OF s] by (intro that [of ?ns]) (simp_all add: calculateChunks_def)
  next
    case False
    let ?n = "(length content + unat mx - 1) div unat mx"
    let ?ns = "map (\<lambda>i. if i = ?n - 1 then length content - i * unat mx else unat mx) [0..<?n]"
    note b = binary_sizes [OF pos refl, of "length content"]
    have "\<forall>n \<in> set ?ns. n < 2 ^ 32" using b(2) bound by fastforce
    then have "read_chunks (map word_of_nat ?ns) content = cut_file ?ns content" by (rule read_chunks_cut [OF b(1)])
    with False b(1) show ?thesis
      by (intro that [of ?ns]) (simp_all add: calculateChunks_def binary_chunks_def Let_def comp_def)
  qed
qed

lemma mergeChunks_all:
  "length chunks + k \<le> 2 ^ 64 \<Longrightarrow> (\<And>i. i < length chunks \<Longrightarrow> parts (word_of_nat (k + i)) = Some (chunks ! i)) \<Longrightarrow>
    mergeChunks parts (map word_of_nat [k..<k + length chunks]) = Inr (concat chunks)"
proof (induction chunks arbitrary: k parts)
  case (Cons c cs)
  let ?rest = "parts(word_of_nat k := None)"
  have "?rest (word_of_nat (Suc k + i)) = Some (cs ! i)" if "i < length cs" for i
  proof -
    have "(word_of_nat (Suc k + i) :: u64) \<noteq> word_of_nat k"
      using that Cons.prems(1) by (subst word_of_nat_inj64) simp_all
    then show ?thesis using Cons.prems(2) [of "Suc i"] that by simp
  qed
  then have "mergeChunks ?rest (map word_of_nat [Suc k..<Suc k + length cs]) = Inr (concat cs)"
    by (intro Cons.IH) (use Cons.prems(1) in auto)
  moreover have "parts (word_of_nat k) = Some c" using Cons.prems(2) [of 0] by simp
  moreover have "[k..<k + length (c # cs)] = k # [Suc k..<k + length (c # cs)]" by (rule upt_conv_Cons) simp
  ultimately show ?case by simp
qed simp

text \<open>Cut into the calculated sizes and merged in the order of the chunk numbers, a file comes back byte for byte.\<close>

lemma merge_read_chunks:
  assumes mx: "mx \<noteq> 0" and short: "isText \<longrightarrow> short_lines content (unat mx)"
    and sizes: "calculateChunks content isText mx = Some sizes" and few: "length sizes < 2 ^ 64"
    and parts: "\<forall>i < length sizes. parts (word_of_nat i) = Some (read_chunks sizes content ! i)"
  shows "mergeChunks parts (map word_of_nat [0..<length sizes]) = Inr content"
proof -
  obtain ns where ns: "sizes = map word_of_nat ns" "sum_list ns = length content"
    "read_chunks sizes content = cut_file ns content"
    using calculateChunks_pieces [OF mx, of isText content] short sizes by (metis option.sel)
  have len: "length (cut_file ns rest) = length ns" for rest by (induction ns arbitrary: rest) auto
  have "mergeChunks parts (map word_of_nat [0..<0 + length (cut_file ns content)]) = Inr (concat (cut_file ns content))"
    by (rule mergeChunks_all) (use parts few ns len in auto)
  then show ?thesis using concat_cut_file [OF ns(2)] ns(1) by (simp add: len)
qed

section \<open>Properties\<close>

text \<open>A text file is cut between lines: every chunk but the last ends with a newline and is at least as long as
  the limit, so the lines of the file are exactly the lines of its chunks, in order.\<close>

lemma text_chunks_keep_lines:
  assumes mx: "mx \<noteq> 0" and short: "short_lines content (unat mx)"
    and sizes: "calculateChunks content True mx = Some sizes"
  shows "raw_lines content = concat (map raw_lines (read_chunks sizes content)) \<and>
    (\<forall>c \<in> set (butlast (read_chunks sizes content)). last c = nl \<and> unat mx \<le> length c)"
proof -
  have "calculateChunks content True mx = Some (map word_of_nat (text_cuts content (unat mx) 0)) \<and>
      read_chunks (map word_of_nat (text_cuts content (unat mx) 0)) content = cut_file (text_cuts content (unat mx) 0) content"
    using calculateChunks_pieces [OF mx, of True content] short by metis
  then have "read_chunks sizes content = cut_file (text_cuts content (unat mx) 0) content" using sizes by simp
  moreover have "0 < unat mx" using mx by (simp add: unat_gt_0)
  ultimately show ?thesis using text_cuts_lines [of "unat mx" 0 content] by simp
qed

definition demo_text :: string where
  "demo_text = ''abc'' @ [nl] @ ''d'' @ [nl]"

lemma demo_short: "short_lines demo_text 3"
  by (rule short_lines_small) (simp_all add: demo_text_def)

lemma demo_sizes: "calculateChunks demo_text True 3 = Some [4, 2]"
proof -
  have "cut_at demo_text 3 0 = 4" by (simp add: cut_at_def line_end_def demo_text_def)
  then have "text_cuts demo_text 3 0 = [4, 2]"
    by (simp add: text_cuts.simps [of demo_text 3 0] text_cuts.simps [of demo_text 3 4]) (simp add: demo_text_def)
  then show ?thesis using text_chunks_cuts [of 3 3 demo_text 0] demo_short by (simp add: calculateChunks_def)
qed

theorem text_chunks_keep_lines_witness:
  "read_chunks [4, 2] demo_text = [''abc'' @ [nl], ''d'' @ [nl]] \<and>
   raw_lines demo_text = concat (map raw_lines [''abc'' @ [nl], ''d'' @ [nl]])"
proof -
  have "read_chunks [4, 2] demo_text = [''abc'' @ [nl], ''d'' @ [nl]]" by (simp add: demo_text_def)
  moreover have "short_lines demo_text (unat (3 :: u32))" using demo_short by simp
  ultimately show ?thesis using text_chunks_keep_lines [OF _ _ demo_sizes] by simp
qed

text \<open>C20: a MapReduce job over the chunks of a text file sees the lines of the file: as long as every line fits the
  map task's scanner, the pairs emitted chunk by chunk are those the map function emits on the file's own lines,
  in order.\<close>

theorem job_over_chunks:
  assumes mx: "mx \<noteq> 0" and short: "short_lines content (unat mx)"
    and sizes: "calculateChunks content True mx = Some sizes"
    and lines: "\<forall>l \<in> set (raw_lines content). length l < maxTokenSize"
  shows "job_emitted mapFunc (read_chunks sizes content) = concat (map mapFunc (map drop_cr (raw_lines content)))"
proof -
  have "calculateChunks content True mx = Some (map word_of_nat (text_cuts content (unat mx) 0)) \<and>
      read_chunks (map word_of_nat (text_cuts content (unat mx) 0)) content = cut_file (text_cuts content (unat mx) 0) content"
    using calculateChunks_pieces [OF mx, of True content] short by metis
  then have "read_chunks sizes content = cut_file (text_cuts content (unat mx) 0) content" using sizes by simp
  moreover have "0 < unat mx" using mx by (simp add: unat_gt_0)
  ultimately have cut: "raw_lines content = concat (map raw_lines (read_chunks sizes content))"
    using text_cuts_lines [of "unat mx" 0 content] by simp
  have "concat (map (emitted mapFunc) cs) = concat (map mapFunc (map drop_cr (concat (map raw_lines cs))))"
    if "\<forall>l \<in> set (concat (map raw_lines cs)). length l < maxTokenSize" for cs
    using that
  proof (induction cs)
    case (Cons c cs)
    have tw: "takeWhile (\<lambda>l. length l < maxTokenSize) (raw_lines c) = raw_lines c"
      using Cons.prems by (simp add: takeWhile_eq_all_conv)
    have "emitted mapFunc c = concat (map mapFunc (map drop_cr (raw_lines c)))"
      unfolding emitted_def scan_lines_def tw ..
    with Cons show ?case by simp
  qed simp
  then show ?thesis using lines unfolding job_emitted_def cut by blast
qed

theorem job_over_chunks_witness:
  "calculateChunks demo_text True 3 = Some [4, 2] \<and>
   job_emitted (\<lambda>l. [\<lparr>kv_key = l, kv_value = one\<rparr>]) (read_chunks [4, 2] demo_text) =
     [\<lparr>kv_key = ''abc'', kv_value = one\<rparr>, \<lparr>kv_key = ''d'', kv_value = one\<rparr>]"
proof -
  have raw: "raw_lines demo_text = [''abc'', ''d'']" by (simp add: raw_lines_def demo_text_def)
  then have "\<forall>l \<in> set (raw_lines demo_text). length l < maxTokenSize" by (simp add: maxTokenSize_def)
  moreover have "short_lines demo_text (unat (3 :: u32))" using demo_short by simp
  ultimately show ?thesis
    using job_over_chunks [OF _ _ demo_sizes, of "\<lambda>l. [\<lparr>kv_key = l, kv_value = one\<rparr>]"] demo_sizes
    by (simp add: raw drop_cr_def)
qed

text \<open>The chunk calculation of a text file of 4 GiB that has no line break in it never ends. The byte counter
  wraps around, the first chunk gets size zero and the offset stays where it is.\<close>

lemma four_gigabyte_line_hangs:
  assumes "length content = 2 ^ 32" "nl \<notin> set content" "mx \<noteq> 0"
  shows "calculateChunks content True mx = None"
proof (rule ccontr)
  assume "calculateChunks content True mx \<noteq> None"
  then obtain sizes where run: "text_chunks content mx 0 = Some sizes" by (auto simp: calculateChunks_def)
  have pos: "0 < unat mx" using assms(3) by (simp add: unat_gt_0)
  have bound: "unat mx < 2 ^ 32" using unsigned_less [of mx, where ?'a = nat] by simp
  let ?size = "(mx - 1) + extra_bytes (drop (0 + unat mx - 1) content) 0"
  have "nl \<notin> set (drop (unat mx - 1) content)" using assms(2) by (meson in_set_dropD)
  then have "line_end (drop (unat mx - 1) content) = 2 ^ 32 - (unat mx - 1)"
    using assms(1) by (simp add: line_end_def)
  moreover have "mx - 1 = word_of_nat (unat mx - 1)"
    using pos unat_minus_one [of mx] assms(3) by (metis of_nat_unat ucast_id)
  ultimately have "?size = word_of_nat (unat mx - 1 + (2 ^ 32 - (unat mx - 1)))"
    by (simp add: extra_bytes_eq)
  also have "unat mx - 1 + (2 ^ 32 - (unat mx - 1)) = 2 ^ 32" using bound by simp
  also have "(word_of_nat (2 ^ 32) :: u32) = 0" by simp
  finally have size: "?size = 0" .
  have "text_chunks content mx 0 = Option.bind (text_chunks content mx 0) (\<lambda>chunkSizes. Some (0 # chunkSizes))"
    using size assms(1) bound by (subst text_chunks.simps) (simp add: Let_def)
  then have "Some sizes = Some (0 # sizes)" using run by simp
  then show False by simp
qed

theorem four_gigabyte_line_hangs_witness:
  "calculateChunks (replicate (2 ^ 32) (CHR ''x'')) True defaultChunkSize = None"
  by (rule four_gigabyte_line_hangs) (simp_all only: length_replicate set_replicate_conv_if defaultChunkSize_def, simp_all)

text \<open>Whatever number the \<open>--chunk-size\<close> option gives, the limit used is between 64 MiB and 256 MiB; a number in
  that range is used as it is, and an argument that is no 32-bit number is refused.\<close>

lemma chunk_size_clamped:
  "(chunk_size_option arg = None \<longleftrightarrow> parse_uint 32 arg = None) \<and>
   (\<forall>c. chunk_size_option arg = Some c \<longrightarrow> minChunkSize \<le> c \<and> c \<le> maxChunkSize) \<and>
   (\<forall>n. minChunkSize \<le> n \<and> n \<le> maxChunkSize \<longrightarrow> chunk_size_option (dec_str (unat n)) = Some n)"
proof (intro conjI allI impI)
  show "chunk_size_option arg = None \<longleftrightarrow> parse_uint 32 arg = None"
    by (simp add: chunk_size_option_def Let_def split: option.splits)
  fix c assume "chunk_size_option arg = Some c"
  then show "minChunkSize \<le> c" "c \<le> maxChunkSize"
    by (auto simp: chunk_size_option_def Let_def minChunkSize_def maxChunkSize_def defaultChunkSize_def
        not_less split: option.splits if_splits)
next
  fix n :: u32 assume n: "minChunkSize \<le> n \<and> n \<le> maxChunkSize"
  have "unat n < 2 ^ 32" using unsigned_less [of n, where ?'a = nat] by simp
  then have "parse_uint 32 (dec_str (unat n)) = Some (unat n)" by (rule parse_uint_dec_str)
  moreover have "n \<noteq> 0" using n by (auto simp: minChunkSize_def)
  ultimately show "chunk_size_option (dec_str (unat n)) = Some n"
    using n leD [of minChunkSize n] leD [of n maxChunkSize] by (simp add: chunk_size_option_def Let_def)
qed

theorem chunk_size_clamped_witness:
  "chunk_size_option (dec_str 67108864) = Some minChunkSize"
  using chunk_size_clamped [of "[]"] by (auto simp: minChunkSize_def maxChunkSize_def dest!: spec [of _ minChunkSize])

end
