(* ===== verification/ClientProps.thy ===== *)
theory ClientProps
  imports Retrieval ChunkProps StorageProps
begin

text \<open>
  Properties of the client: the order in which it asks nodes, where an upload of a chunk ends, which downloads
  it accepts, and the way of a whole file from the client through the storage nodes and back.
\<close>

section \<open>The order of the nodes\<close>

lemma mset_move_left [simp]: "mset (move_left lt x ys) = add_mset x (mset ys)"
  by (induction ys) auto

lemma mset_fold_move_left: "mset (fold (move_left lt) xs acc) = mset xs + mset acc"
  by (induction xs arbitrary: acc) auto

lemma mset_stable_sort: "mset (stable_sort lt xs) = mset xs"
  by (simp add: stable_sort_def mset_fold_move_left)

lemma set_move_left [simp]: "set (move_left lt x ys) = insert x (set ys)"
  by (induction ys) auto

lemma set_stable_sort [simp]: "set (stable_sort lt xs) = set xs"
  by (rule mset_eq_setD [OF mset_stable_sort])

lemma set_sortNodeAddresses [simp]: "set (sortNodeAddresses hostname addrs) = set addrs"
  by (simp add: sortNodeAddresses_def split: option.splits)

lemma filter_move_left:
  fixes f :: "'a \<Rightarrow> nat"
  shows "filter (\<lambda>y. f y = k) (move_left (\<lambda>a b. f a < f b) x ys) =
    (if f x = k then x # filter (\<lambda>y. f y = k) ys else filter (\<lambda>y. f y = k) ys)"
  by (induction ys) auto

lemma filter_fold_move_left:
  fixes f :: "'a \<Rightarrow> nat"
  shows "filter (\<lambda>y. f y = k) (fold (move_left (\<lambda>a b. f a < f b)) xs acc) =
    rev (filter (\<lambda>y. f y = k) xs) @ filter (\<lambda>y. f y = k) acc"
  by (induction xs arbitrary: acc) (simp_all add: filter_move_left)

lemma sorted_move_left:
  fixes f :: "'a \<Rightarrow> nat"
  shows "sorted_wrt (\<lambda>a b. f b \<le> f a) ys \<Longrightarrow> sorted_wrt (\<lambda>a b. f b \<le> f a) (move_left (\<lambda>a b. f a < f b) x ys)"
  by (induction ys) auto

lemma sorted_fold_move_left:
  fixes f :: "'a \<Rightarrow> nat"
  shows "sorted_wrt (\<lambda>a b. f b \<le> f a) acc \<Longrightarrow>
    sorted_wrt (\<lambda>a b. f b \<le> f a) (fold (move_left (\<lambda>a b. f a < f b)) xs acc)"
  by (induction xs arbitrary: acc) (simp_all add: sorted_move_left)

lemma stable_sort_key:
  fixes f :: "'a \<Rightarrow> nat"
  shows "stable_sort (\<lambda>a b. f a < f b) xs = sort_key f xs"
proof (rule properties_for_sort_key [symmetric])
  show "mset (stable_sort (\<lambda>a b. f a < f b) xs) = mset xs" by (rule mset_stable_sort)
  show "filter (\<lambda>x. f k = f x) (stable_sort (\<lambda>a b. f a < f b) xs) = filter (\<lambda>x. f k = f x) xs" for k
    using filter_fold_move_left [of f "f k" xs "[]"]
    by (simp add: stable_sort_def rev_filter [symmetric] eq_commute [of "f k"])
  show "sorted (map f (stable_sort (\<lambda>a b. f a < f b) xs))"
    using sorted_fold_move_left [of f "[]" xs] by (simp add: stable_sort_def sorted_map sorted_wrt_rev)
qed

text \<open>0 for a node on this host, then nodes of this cluster, then the others.\<close>

definition address_rank :: "string \<Rightarrow> string \<Rightarrow> nat" where
  "address_rank hostname addr =
     (if has_prefix addr (hostname @ '':'') then 0 else 2) +
     (if cluster_prefix hostname \<noteq> [] \<and> \<not> contains_str addr (cluster_prefix hostname) then 1 else 0)"

lemma address_less_rank: "address_less hostname a b \<longleftrightarrow> address_rank hostname a < address_rank hostname b"
  by (simp add: address_less_def address_rank_def Let_def)

text \<open>The client asks the holders of a chunk in the order of their rank - on its own host first, then in its own
  cluster, then elsewhere - and those of equal rank in the order in which the controller named them. Without a host
  name the controller's order stays.\<close>

lemma nodes_asked_in_order:
  "sortNodeAddresses hostname addrs =
     (case hostname of None \<Rightarrow> addrs | Some h \<Rightarrow> sort_key (address_rank h) addrs)"
  by (simp add: sortNodeAddresses_def stable_sort_key [symmetric] address_less_rank [abs_def] split: option.splits)

section \<open>Which download is accepted\<close>

lemma getChunk_first:
  "getChunk md5 holders addrs = Inr part \<Longrightarrow> (case part of
     None \<Rightarrow> \<forall>a \<in> set addrs. chunk_from md5 (holders a) = Inr None
   | Some data \<Rightarrow> \<exists>pre a post. addrs = pre @ a # post \<and> chunk_from md5 (holders a) = Inr (Some data) \<and>
       (\<forall>b \<in> set pre. chunk_from md5 (holders b) = Inr None))"
proof (induction addrs)
  case (Cons a addrs)
  then obtain p where p: "chunk_from md5 (holders a) = Inr p" by (auto simp: and_then_eq_Inr)
  show ?case
  proof (cases p)
    case None
    with p Cons.prems have "getChunk md5 holders addrs = Inr part" by simp
    note IH = Cons.IH [OF this]
    show ?thesis
    proof (cases part)
      case (Some data)
      with IH obtain pre b post where "addrs = pre @ b # post" "chunk_from md5 (holders b) = Inr (Some data)"
        "\<forall>b \<in> set pre. chunk_from md5 (holders b) = Inr None" by auto
      then show ?thesis using Some p None by (simp add: exI [of _ "a # pre"])
    qed (use IH p None in simp)
  next
    case (Some data)
    with p Cons.prems show ?thesis by (fastforce intro: exI [of _ "[]"])
  qed
qed simp

lemma chunk_from_data:
  assumes "chunk_from md5 h = Inr (Some data)"
  shows "\<exists>resp r md. hd_answer h = Some (Wrapper_RetrieveChunkResp resp) \<and> rcr_resp resp = Some r \<and> resp_ok r \<and>
    rcr_metadata resp = Some md \<and> data = take (unat (ci_size md)) (hd_stream h) \<and> length data = unat (ci_size md) \<and>
    md5 data = ci_checksum md"
  using assms by (auto simp: chunk_from_def GetRetrieveChunkResp_def Let_def deref_def and_then_eq_Inr
      split: if_splits option.splits wrapper.splits)

text \<open>A download of a chunk takes the first holder in the order whose answer is good. What it accepts are as many bytes as
  that holder announced, and their MD5 sum is the one it announced; every holder asked before gave nothing. It gives up
  only after all holders.\<close>

lemma download_accepts_checked:
  assumes "getChunk md5 holders addrs = Inr part"
  shows "case part of
      None \<Rightarrow> \<forall>a \<in> set addrs. chunk_from md5 (holders a) = Inr None
    | Some data \<Rightarrow> \<exists>pre a post resp r md. addrs = pre @ a # post \<and> (\<forall>b \<in> set pre. chunk_from md5 (holders b) = Inr None) \<and>
        hd_answer (holders a) = Some (Wrapper_RetrieveChunkResp resp) \<and> rcr_resp resp = Some r \<and> resp_ok r \<and>
        rcr_metadata resp = Some md \<and> data = take (unat (ci_size md)) (hd_stream (holders a)) \<and>
        length data = unat (ci_size md) \<and> md5 data = ci_checksum md"
  using getChunk_first [OF assms] chunk_from_data by (fastforce split: option.splits)

definition demo_holder :: "bytes \<Rightarrow> bytes \<Rightarrow> bytes \<Rightarrow> holder" where
  "demo_holder announced checksum stream =
     \<lparr>hd_dialled = True, hd_requestSent = True,
      hd_answer = Some (SendRetrieveChunkResponse True ''Ready'' (word_of_nat (length announced)) checksum),
      hd_createFails = False, hd_stream = stream, hd_copyFails = False\<rparr>"

theorem download_accepts_checked_witness:
  "getChunk rev (\<lambda>a. demo_holder ''ab'' ''ba'' (if a = ''n:1'' then ''xb'' else ''ab'')) [''n:1'', ''n:2''] = Inr (Some ''ab'') \<and>
   (\<exists>pre a post. [''n:1'', ''n:2''] = pre @ a # post \<and> rev ''ab'' = ''ba'')"
proof -
  have got: "getChunk rev (\<lambda>a. demo_holder ''ab'' ''ba'' (if a = ''n:1'' then ''xb'' else ''ab'')) [''n:1'', ''n:2''] = Inr (Some ''ab'')"
    by (simp add: chunk_from_def demo_holder_def SendRetrieveChunkResponse_def GetRetrieveChunkResp_def zero_ChunkInfo_def)
  from download_accepts_checked [OF got] got show ?thesis by auto
qed

section \<open>A file on its way\<close>

text \<open>What a client meets at a node: its answer, then its bytes.\<close>

definition session_with :: "srv_out list result \<Rightarrow> holder" where
  "session_with served =
     (let outs = (case served of Inl _ \<Rightarrow> [] | Inr outs \<Rightarrow> outs);
          answers = List.map_filter (\<lambda>out. case out of Answer w \<Rightarrow> Some w | _ \<Rightarrow> None) outs
      in \<lparr>hd_dialled = True, hd_requestSent = True,
          hd_answer = (case answers of [] \<Rightarrow> None | w # _ \<Rightarrow> Some w), hd_createFails = False,
          hd_stream = concat (map (\<lambda>out. case out of RawBytes bs \<Rightarrow> bs | _ \<Rightarrow> []) outs), hd_copyFails = False\<rparr>)"

text \<open>The connection on which a client asks a node for a chunk.\<close>

definition fetch_session :: "(bytes \<Rightarrow> bytes) \<Rightarrow> string \<Rightarrow> u64 \<Rightarrow> storage_node \<Rightarrow> holder" where
  "fetch_session md5 fileName cid s =
     session_with (case SendRetrieveChunkRequest (path_base fileName) cid of
       Wrapper_RetrieveChunkReq req \<Rightarrow> handleRetrieveChunk md5 None req s | _ \<Rightarrow> Inr [])"

definition holds_chunk :: "path \<Rightarrow> bytes \<Rightarrow> storage_node \<Rightarrow> bool" where
  "holds_chunk p data s \<longleftrightarrow> p \<notin> activeWrites s \<and> content_at (disk s) p = Some data"

definition may_hold_chunk :: "path \<Rightarrow> bytes \<Rightarrow> storage_node \<Rightarrow> bool" where
  "may_hold_chunk p data s \<longleftrightarrow> p \<in> activeWrites s \<or> content_at (disk s) p \<in> {None, Some data}"

lemma path_base_shape: "path_base p = ''/'' \<or> path_base p \<noteq> [] \<and> CHR ''/'' \<notin> set (path_base p)"
proof -
  let ?q = "dropWhile (\<lambda>c. c = CHR ''/'') (rev p)"
  have free: "CHR ''/'' \<notin> set (takeWhile (\<lambda>c. c \<noteq> CHR ''/'') xs)" for xs by (auto dest: set_takeWhileD)
  have "takeWhile (\<lambda>c. c \<noteq> CHR ''/'') ?q \<noteq> []" if "?q \<noteq> []"
    using hd_dropWhile [OF that] that by (cases ?q) auto
  with free [of ?q] show ?thesis by (simp add: path_base_def Let_def)
qed

lemma path_base_idem [simp]: "path_base (path_base p) = path_base p"
proof (cases "path_base p = ''/''")
  case True
  then show ?thesis by (simp add: path_base_def)
next
  case False
  then show ?thesis using path_base_shape [of p] path_base_plain by blast
qed

lemma getChunk_found:
  assumes "\<forall>a \<in> set addrs. chunk_from md5 (holders a) \<in> {Inr None, Inr (Some data)}"
    and "\<exists>a \<in> set addrs. chunk_from md5 (holders a) = Inr (Some data)"
  shows "getChunk md5 holders addrs = Inr (Some data)"
  using assms by (induction addrs) force+

lemma get_parts_found:
  assumes "\<forall>loc \<in> set locs. \<exists>md. cn_metadata loc = Some md \<and>
      getChunk md5 (holders (ci_id md)) (sortNodeAddresses hostname (map ni_address (cn_nodes loc))) = Inr (Some (chunk (ci_id md)))"
  shows "\<exists>parts. get_parts md5 hostname holders locs = Inr parts \<and>
    (\<forall>loc \<in> set locs. parts (ci_id (the (cn_metadata loc))) = Some (chunk (ci_id (the (cn_metadata loc)))))"
  using assms by (induction locs) auto

text \<open>What an upload sends: the pieces of the file, numbered.\<close>

lemma put_chunks_pieces:
  assumes "map (\<lambda>alloc. map_option ci_id (cn_metadata alloc)) allocs = map (\<lambda>i. Some (word_of_nat i)) [k..<length sizes]"
    and "put_chunks cands sizes allocs rest = Inr ups" and "length sizes < 2 ^ 64"
  shows "map (\<lambda>(cid, data, addr). (cid, data)) ups =
    zip (map word_of_nat [k..<length sizes]) (read_chunks (drop k sizes) rest)"
  using assms
proof (induction allocs arbitrary: k rest ups)
  case (Cons alloc allocs)
  then have k: "k < length sizes" by (cases "k < length sizes") auto
  then have upt: "[k..<length sizes] = k # [Suc k..<length sizes]" by (rule upt_conv_Cons)
  from Cons.prems(1) obtain md where md: "cn_metadata alloc = Some md" "ci_id md = word_of_nat k"
    and rest: "map (\<lambda>alloc. map_option ci_id (cn_metadata alloc)) allocs = map (\<lambda>i. Some (word_of_nat i)) [Suc k..<length sizes]"
    unfolding upt by auto
  have id: "unat (ci_id md) = k" using md(2) k Cons.prems(3) by (simp add: unat_of_nat)
  from Cons.prems(2) md(1) k obtain addr ups' where
    ups: "ups = (ci_id md, take (unat (sizes ! k)) rest @ replicate (unat (sizes ! k) - length rest) (CHR 0x00), addr) # ups'"
    and rec: "put_chunks cands sizes allocs (drop (unat (sizes ! k)) rest) = Inr ups'"
    by (auto simp: id Let_def and_then_eq_Inr)
  have "drop k sizes = sizes ! k # drop (Suc k) sizes" using k by (rule Cons_nth_drop_Suc [symmetric])
  then show ?case using Cons.IH [OF rest rec Cons.prems(3)] by (simp add: ups upt md(2))
qed simp

lemma length_read_chunks [simp]: "length (read_chunks sizes rest) = length sizes"
  by (induction sizes arbitrary: rest) auto

lemma read_chunks_small: "c \<in> set (read_chunks sizes rest) \<Longrightarrow> length c < 2 ^ 32"
proof (induction sizes arbitrary: rest)
  case (Cons n sizes)
  have "unat n < 2 ^ 32" using unsigned_less [of n, where ?'a = nat] by simp
  with Cons show ?case by fastforce
qed simp

text \<open>The locations name the chunks in order, each with a node that was uploaded to.\<close>

definition located :: "(u64 \<times> bytes \<times> string) list \<Rightarrow> ChunkLocation list \<Rightarrow> bool" where
  "located ups locs \<longleftrightarrow> map (\<lambda>loc. map_option ci_id (cn_metadata loc)) locs = map (Some \<circ> fst) ups \<and>
     (\<forall>i < length ups. \<exists>n \<in> set (cn_nodes (locs ! i)). ni_address n = snd (snd (ups ! i)))"

section \<open>The service of a storage node\<close>

text \<open>
  What a client needs of the nodes it downloads from: a node in good order that may hold a chunk - it holds
  just these bytes, is busy with the chunk or does not have it - gives the bytes if it holds them and nothing that is
  accepted otherwise.
\<close>

locale chunk_service =
  fixes md5 :: "bytes \<Rightarrow> bytes"
    and serve :: "u64 \<Rightarrow> 'node \<Rightarrow> holder"
    and healthy :: "'node \<Rightarrow> bool"
    and holds :: "u64 \<Rightarrow> bytes \<Rightarrow> 'node \<Rightarrow> bool"
    and may_hold :: "u64 \<Rightarrow> bytes \<Rightarrow> 'node \<Rightarrow> bool"
  assumes served: "healthy s \<Longrightarrow> may_hold cid data s \<Longrightarrow> length data < 2 ^ 32 \<Longrightarrow>
    chunk_from md5 (serve cid s) = Inr (if holds cid data s then Some data else None)"
begin

lemma chunks_arrive:
  assumes ups: "map (\<lambda>(cid, data, addr). (cid, data)) ups = zip (map word_of_nat [0..<length sizes]) (read_chunks sizes content)"
    and few: "length sizes < 2 ^ 64" and located: "located ups locs"
    and healthy: "\<And>a. healthy (node a)"
    and there: "\<forall>(cid, data, a) \<in> set ups. holds cid data (node a)"
    and others: "\<forall>(cid, data, a) \<in> set ups. \<forall>b. may_hold cid data (node b)"
  shows "\<exists>parts. get_parts md5 hostname (\<lambda>cid a. serve cid (node a)) locs = Inr parts \<and>
    map (\<lambda>loc. ci_id (the (cn_metadata loc))) locs = map word_of_nat [0..<length sizes] \<and>
    (\<forall>i < length sizes. parts (word_of_nat i) = Some (read_chunks sizes content ! i))"
proof -
  let ?n = "length sizes" and ?chunk = "\<lambda>cid :: u64. read_chunks sizes content ! unat cid"
  have n: "length ups = ?n" using arg_cong [OF ups, of length] by simp
  have up: "fst (ups ! i) = word_of_nat i" "fst (snd (ups ! i)) = read_chunks sizes content ! i" if "i < ?n" for i
    using arg_cong [OF ups, of "\<lambda>xs. xs ! i"] that n by (auto simp: case_prod_beta)
  have m: "length locs = ?n" using located n by (auto simp: located_def dest: map_eq_imp_length_eq)
  have md: "\<exists>md. cn_metadata (locs ! i) = Some md \<and> ci_id md = word_of_nat i" if "i < ?n" for i
    using located that m n up(1) by (auto simp: located_def list_eq_iff_nth_eq)
  have "\<exists>md. cn_metadata loc = Some md \<and> getChunk md5 (\<lambda>a. serve (ci_id md) (node a))
      (sortNodeAddresses hostname (map ni_address (cn_nodes loc))) = Inr (Some (?chunk (ci_id md)))" if "loc \<in> set locs" for loc
  proof -
    obtain i where i: "i < ?n" "loc = locs ! i" using \<open>loc \<in> set locs\<close> m by (metis in_set_conv_nth)
    obtain md where md: "cn_metadata loc = Some md" "ci_id md = word_of_nat i" using md i by blast
    let ?data = "read_chunks sizes content ! i"
    have at: "(ci_id md, ?data, snd (snd (ups ! i))) \<in> set ups"
      using up [OF i(1)] i(1) n md(2) by (metis nth_mem prod.collapse)
    have small: "length ?data < 2 ^ 32" by (rule read_chunks_small [OF nth_mem]) (simp add: i)
    have answer: "chunk_from md5 (serve (ci_id md) (node a)) =
        Inr (if holds (ci_id md) ?data (node a) then Some ?data else None)" for a
      by (rule served [OF healthy _ small]) (use others at in blast)
    have "unat (ci_id md) = i" using md(2) i(1) few by (simp add: unat_of_nat)
    moreover have "snd (snd (ups ! i)) \<in> ni_address ` set (cn_nodes loc)" using located i n by (force simp: located_def)
    ultimately have "getChunk md5 (\<lambda>a. serve (ci_id md) (node a))
        (sortNodeAddresses hostname (map ni_address (cn_nodes loc))) = Inr (Some (?chunk (ci_id md)))"
      by (intro getChunk_found) (use there at in \<open>auto simp: answer intro!: bexI\<close>)
    with md(1) show ?thesis by blast
  qed
  from get_parts_found [of locs, OF ballI [OF this]] obtain parts where
    parts: "get_parts md5 hostname (\<lambda>cid a. serve cid (node a)) locs = Inr parts"
    "\<forall>loc \<in> set locs. parts (ci_id (the (cn_metadata loc))) = Some (?chunk (ci_id (the (cn_metadata loc))))" by blast
  have ids: "ci_id (the (cn_metadata (locs ! i))) = word_of_nat i" if "i < ?n" for i using md [OF that] by auto
  have "parts (word_of_nat i) = Some (read_chunks sizes content ! i)" if "i < ?n" for i
  proof -
    have "unat (word_of_nat i :: u64) = i" using that few by (simp add: unat_of_nat)
    moreover have "locs ! i \<in> set locs" using that m by simp
    ultimately show ?thesis using parts(2) ids [OF that] by force
  qed
  moreover have "map (\<lambda>loc. ci_id (the (cn_metadata loc))) locs = map word_of_nat [0..<?n]"
    by (rule nth_equalityI) (use ids m in simp_all)
  ultimately show ?thesis using parts(1) by blast
qed

end

section \<open>Storage nodes as chunk services\<close>

lemma fetch_from_node:
  assumes inv: "node_inv md5 (s, w)" and may: "may_hold_chunk (chunkPath (path_base fileName) cid) data s"
    and small: "length data < 2 ^ 32"
  shows "chunk_from md5 (fetch_session md5 fileName cid s) =
    Inr (if holds_chunk (chunkPath (path_base fileName) cid) data s then Some data else None)"
proof -
  have "unat (word_of_nat (length data) :: u32) = length data" using small by (simp add: unat_of_nat)
  then show ?thesis
    using may node_invD(2) [OF inv] retrieve_answer [OF inv, of "zero_ChunkInfo\<lparr>ci_id := cid, ci_file_name := path_base fileName\<rparr>"]
    by (auto simp: fetch_session_def SendRetrieveChunkRequest_def session_with_def chunk_from_def SendRetrieveChunkResponse_def
        GetRetrieveChunkResp_def List.map_filter_def may_hold_chunk_def holds_chunk_def zero_ChunkInfo_def)
qed

interpretation storage_nodes: chunk_service md5 "fetch_session md5 fileName" "\<lambda>s. \<exists>w. node_inv md5 (s, w)"
    "\<lambda>cid. holds_chunk (chunkPath (path_base fileName) cid)" "\<lambda>cid. may_hold_chunk (chunkPath (path_base fileName) cid)"
  for md5 fileName
  by unfold_locales (blast intro: fetch_from_node)


definition demo_allocs :: "ChunkAllocation list" where
  "demo_allocs = [\<lparr>cn_metadata = Some zero_ChunkInfo, cn_nodes = MapArrayAddressesToNodeInfo [''n:1'']\<rparr>]"

definition demo_candidate :: candidate where
  "demo_candidate = \<lparr>cd_dialled = True, cd_requestSent = True, cd_ready = Some (SendResponse True []), cd_dataSent = True,
     cd_final = Some (SendResponse True [])\<rparr>"

lemma demo_put:
  "put ''f'' ''ab'' 4 (\<lambda>_. Some (SendPutFileResponse True [] demo_allocs)) (\<lambda>_ _. demo_candidate) = Some (Inr [(0, ''ab'', ''n:1'')])"
  by (simp add: put_def calculateChunks_def binary_chunks_def Let_def is_text_file_def has_suffix_def lower_def
      SendPutFileResponse_def GetPutFileResp_def checked_def demo_allocs_def zero_ChunkInfo_def MapArrayAddressesToNodeInfo_def
      demo_candidate_def candidate_stores_def client_ok_def SendResponse_def GetResponse_def)


end
