(* ===== verification/MrMessages.thy ===== *)
theory MrMessages
  imports GoLib
begin

text \<open>
  The MapReduce protocol: the messages of \<open>mapreduce/proto/mapreduce.proto\<close> as the Go code sees them, and the
  constructors \<open>Send...\<close> of \<open>mapreduce/messages/message_handler.go\<close>, each as the wrapper message it sends. Names
  that the DFS protocol has too carry the prefix \<open>Mr\<close>.
\<close>

section \<open>Messages\<close>

record MrResponse =
  mr_ok :: bool
  mr_message :: string

record JobRequest =
  jr_inputFiles :: "string list"
  jr_jobBinary :: bytes
  jr_numReducers :: u32

record JobResponse =
  jresp_resp :: "MrResponse option"
  jresp_jobId :: string

record WorkerInfo =
  wi_id :: string
  wi_address :: string
  wi_cpuLoad :: u32
  wi_memLoad :: u32
  wi_activeTasks :: u32

datatype TaskType = TaskType_MAP | TaskType_REDUCE

record TaskAssignment =
  ta_jobId :: string
  ta_taskId :: string
  ta_type :: TaskType
  ta_inputFile :: string
  ta_chunkId :: u64
  ta_jobBinary :: bytes
  ta_numReducers :: u32
  ta_reducerId :: u32
  ta_mapTaskInfo :: "string \<rightharpoonup> string"

record TaskReport =
  tr_jobId :: string
  tr_taskId :: string
  tr_success :: bool
  tr_message :: string
  tr_reduceData :: "u64 list"

record FetchIntermediateRequest =
  fr_jobId :: string
  fr_reducerId :: u32
  fr_taskId :: string

record JobProgress =
  jp_jobId :: string
  jp_phase :: string
  jp_completedTasks :: u32
  jp_totalTasks :: u32
  jp_isComplete :: bool
  jp_isError :: bool
  jp_message :: string

datatype MapReduceWrapper =
    MapReduceWrapper_Nil
  | MapReduceWrapper_Response MrResponse
  | MapReduceWrapper_JobReq JobRequest
  | MapReduceWrapper_JobResp JobResponse
  | MapReduceWrapper_Heartbeat "WorkerInfo option"
  | MapReduceWrapper_TaskAssign TaskAssignment
  | MapReduceWrapper_TaskReport TaskReport
  | MapReduceWrapper_FetchInter FetchIntermediateRequest
  | MapReduceWrapper_JobProgress JobProgress

section \<open>The convenience constructors\<close>

definition Mr_SendResponse :: "bool \<Rightarrow> string \<Rightarrow> MapReduceWrapper" where
  "Mr_SendResponse ok msg = MapReduceWrapper_Response \<lparr>mr_ok = ok, mr_message = msg\<rparr>"

definition SendJobRequest :: "string list \<Rightarrow> bytes \<Rightarrow> u32 \<Rightarrow> MapReduceWrapper" where
  "SendJobRequest inputFiles jobBinary numReducers = MapReduceWrapper_JobReq
     \<lparr>jr_inputFiles = inputFiles, jr_jobBinary = jobBinary, jr_numReducers = numReducers\<rparr>"

definition SendJobResponse :: "bool \<Rightarrow> string \<Rightarrow> string \<Rightarrow> MapReduceWrapper" where
  "SendJobResponse ok msg jobId = MapReduceWrapper_JobResp
     \<lparr>jresp_resp = Some \<lparr>mr_ok = ok, mr_message = msg\<rparr>, jresp_jobId = jobId\<rparr>"

definition SendJobProgress :: "string \<Rightarrow> string \<Rightarrow> u32 \<Rightarrow> u32 \<Rightarrow> bool \<Rightarrow> bool \<Rightarrow> string \<Rightarrow> MapReduceWrapper" where
  "SendJobProgress jobId phase completed totalTasks isComplete isError msg = MapReduceWrapper_JobProgress
     \<lparr>jp_jobId = jobId, jp_phase = phase, jp_completedTasks = completed, jp_totalTasks = totalTasks,
      jp_isComplete = isComplete, jp_isError = isError, jp_message = msg\<rparr>"

definition Mr_SendHeartbeat :: "string \<Rightarrow> string \<Rightarrow> u32 \<Rightarrow> u32 \<Rightarrow> u32 \<Rightarrow> MapReduceWrapper" where
  "Mr_SendHeartbeat wid address cpu mem active = MapReduceWrapper_Heartbeat (Some
     \<lparr>wi_id = wid, wi_address = address, wi_cpuLoad = cpu, wi_memLoad = mem, wi_activeTasks = active\<rparr>)"

definition SendTaskAssignment ::
    "string \<Rightarrow> string \<Rightarrow> TaskType \<Rightarrow> string \<Rightarrow> u64 \<Rightarrow> bytes \<Rightarrow> u32 \<Rightarrow> u32 \<Rightarrow> (string \<rightharpoonup> string) \<Rightarrow> MapReduceWrapper" where
  "SendTaskAssignment jobId taskId t inputFile chunkId jobBinary numReducers reducerId mapTaskInfo =
     MapReduceWrapper_TaskAssign \<lparr>ta_jobId = jobId, ta_taskId = taskId, ta_type = t, ta_inputFile = inputFile,
       ta_chunkId = chunkId, ta_jobBinary = jobBinary, ta_numReducers = numReducers, ta_reducerId = reducerId,
       ta_mapTaskInfo = mapTaskInfo\<rparr>"

definition SendTaskReport :: "string \<Rightarrow> string \<Rightarrow> bool \<Rightarrow> string \<Rightarrow> u64 list \<Rightarrow> MapReduceWrapper" where
  "SendTaskReport jobId taskId success msg reduceData = MapReduceWrapper_TaskReport
     \<lparr>tr_jobId = jobId, tr_taskId = taskId, tr_success = success, tr_message = msg, tr_reduceData = reduceData\<rparr>"

definition SendFetchIntermediateRequest :: "string \<Rightarrow> u32 \<Rightarrow> string \<Rightarrow> MapReduceWrapper" where
  "SendFetchIntermediateRequest jobId reducerId taskId = MapReduceWrapper_FetchInter
     \<lparr>fr_jobId = jobId, fr_reducerId = reducerId, fr_taskId = taskId\<rparr>"

section \<open>Getters of the wrapper\<close>

definition GetTaskReport :: "MapReduceWrapper \<Rightarrow> TaskReport option" where
  "GetTaskReport w = (case w of MapReduceWrapper_TaskReport r \<Rightarrow> Some r | _ \<Rightarrow> None)"

definition GetTaskAssign :: "MapReduceWrapper \<Rightarrow> TaskAssignment option" where
  "GetTaskAssign w = (case w of MapReduceWrapper_TaskAssign r \<Rightarrow> Some r | _ \<Rightarrow> None)"

definition GetFetchInter :: "MapReduceWrapper \<Rightarrow> FetchIntermediateRequest option" where
  "GetFetchInter w = (case w of MapReduceWrapper_FetchInter r \<Rightarrow> Some r | _ \<Rightarrow> None)"

definition GetJobResp :: "MapReduceWrapper \<Rightarrow> JobResponse option" where
  "GetJobResp w = (case w of MapReduceWrapper_JobResp r \<Rightarrow> Some r | _ \<Rightarrow> None)"

definition GetJobProgress :: "MapReduceWrapper \<Rightarrow> JobProgress option" where
  "GetJobProgress w = (case w of MapReduceWrapper_JobProgress r \<Rightarrow> Some r | _ \<Rightarrow> None)"

definition Mr_GetResponse :: "MapReduceWrapper \<Rightarrow> MrResponse option" where
  "Mr_GetResponse w = (case w of MapReduceWrapper_Response r \<Rightarrow> Some r | _ \<Rightarrow> None)"

end
