(* ===== verification/Scheduling.thy ===== *)
theory Scheduling
  imports DfsMessages MrMessages
begin

text \<open>
  The MapReduce master (\<open>mapreduce/master/master.go\<close>): the worker registry, the choice of a worker for a map or a
  reduce task, the attempts to have a task run, the admission of jobs and the course of a job. The clock,
  the order in which Go ranges over a map, and what each connection to a worker brings are inputs.
\<close>

section \<open>Addresses\<close>

text \<open>\<open>net.SplitHostPort\<close>: host and port, or an error.\<close>

definition split_host_port :: "string \<Rightarrow> (string \<times> string) option" where
  "split_host_port hostport =
     (if CHR '':'' \<notin> set hostport then None
      else let port = rev (takeWhile (\<lambda>c. c \<noteq> CHR '':'') (rev hostport));
               before = butlast (take (length hostport - length port) hostport) in
        if hd hostport = CHR ''['' then
          (if CHR '']'' \<notin> set hostport then None
           else let host = takeWhile (\<lambda>c. c \<noteq> CHR '']'') (tl hostport) in
             if length before \<noteq> length host + 2 then None
             else if CHR ''['' \<in> set (tl hostport) \<or> CHR '']'' \<in> set (drop (length host + 2) hostport) then None
             else Some (host, port))
        else if CHR '':'' \<in> set before then None
        else if CHR ''['' \<in> set hostport \<or> CHR '']'' \<in> set hostport then None
        else Some (before, port))"

definition host_of :: "string \<Rightarrow> string" where
  "host_of addr = (case split_host_port addr of None \<Rightarrow> addr | Some (host, port) \<Rightarrow> host)"

section \<open>State\<close>

record workerStatus =
  ws_info :: WorkerInfo
  ws_lastHeartbeat :: time

record MapTaskInfo =
  mt_fileName :: string
  mt_chunkId :: u64
  mt_nodeAddr :: string

record jobState =
  job_id :: string
  job_request :: JobRequest
  job_phase :: TaskType
  job_chunkNodes :: "string \<rightharpoonup> string list list"
  job_mapTaskList :: "MapTaskInfo list"
  job_numReducers :: u32
  job_reduceData :: "(string \<rightharpoonup> u64) list"

record master =
  workers :: "string \<rightharpoonup> workerStatus"
  jobs :: "string \<rightharpoonup> jobState"

definition newMaster :: master where
  "newMaster = \<lparr>workers = Map.empty, jobs = Map.empty\<rparr>"

definition numChunksPerReducers :: nat where
  "numChunksPerReducers = 5"

text \<open>\<open>math.Round\<close> of 0.95 * 21 * 5.\<close>

definition roundedMaxReducers :: nat where
  "roundedMaxReducers = 100"

definition cpuThreshold :: u32 where
  "cpuThreshold = 80"

definition memThreshold :: u32 where
  "memThreshold = 80"

section \<open>Worker registry\<close>

definition handleWorkerHeartbeat :: "time \<Rightarrow> WorkerInfo option \<Rightarrow> master \<Rightarrow> master result" where
  "handleWorkerHeartbeat now hb m = and_then (deref hb) (\<lambda>w.
     Inr (m\<lparr>workers := (workers m)(wi_id w \<mapsto> \<lparr>ws_info = w, ws_lastHeartbeat = now\<rparr>)\<rparr>))"

text \<open>One sweep of \<open>monitorWorkers\<close>.\<close>

definition monitorWorkers :: "time \<Rightarrow> master \<Rightarrow> master" where
  "monitorWorkers now m = m\<lparr>workers := (\<lambda>wid. case workers m wid of
      None \<Rightarrow> None
    | Some ws \<Rightarrow> if now - ws_lastHeartbeat ws > 15 * second then None else Some ws)\<rparr>"

section \<open>Choosing a worker\<close>

definition has_resources :: "workerStatus \<Rightarrow> bool" where
  "has_resources ws \<longleftrightarrow> wi_cpuLoad (ws_info ws) < cpuThreshold \<and> wi_memLoad (ws_info ws) < memThreshold"

text \<open>One range over the workers: the best one so far, and its number of tasks.\<close>

fun least_busy ::
    "(workerStatus \<Rightarrow> bool) \<Rightarrow> (string \<rightharpoonup> workerStatus) \<Rightarrow> string list \<Rightarrow> string \<times> u32 \<Rightarrow> string \<times> u32" where
  "least_busy P ws [] best = best"
| "least_busy P ws (wid # wids) (bestWorker, minTasks) = (case ws wid of
      None \<Rightarrow> least_busy P ws wids (bestWorker, minTasks)
    | Some w \<Rightarrow> if P w \<and> has_resources w \<and> wi_activeTasks (ws_info w) < minTasks
        then least_busy P ws wids (wid, wi_activeTasks (ws_info w))
        else least_busy P ws wids (bestWorker, minTasks))"

definition on_host :: "string \<Rightarrow> workerStatus \<Rightarrow> bool" where
  "on_host addr w \<longleftrightarrow> host_of addr = host_of (wi_address (ws_info w))"

text \<open>The range over the nodes that hold the chunk. \<open>ords i\<close> is the order of the i-th range over the workers.\<close>

fun local_worker ::
    "(nat \<Rightarrow> string list) \<Rightarrow> (string \<rightharpoonup> workerStatus) \<Rightarrow> nat \<Rightarrow> string list \<Rightarrow> string \<times> u32 \<Rightarrow> string \<times> u32" where
  "local_worker ords ws i [] best = best"
| "local_worker ords ws i (addr # addrs) best =
     local_worker ords ws (Suc i) addrs (least_busy (on_host addr) ws (range_keys (ords i) ws) best)"

definition selectWorker :: "(nat \<Rightarrow> string list) \<Rightarrow> (string \<rightharpoonup> workerStatus) \<Rightarrow> string list \<Rightarrow> bool \<Rightarrow> string" where
  "selectWorker ords ws ns delay =
     (if range_keys (ords 0) ws = [] then []
      else let bestWorker = fst (local_worker ords ws 0 ns ([], 0xffffffff)) in
        if bestWorker \<noteq> [] then bestWorker
        else if delay \<and> ns \<noteq> [] then []
        else fst (least_busy (\<lambda>_. True) ws (range_keys (ords (length ns)) ws) ([], 0xffffffff)))"

text \<open>The bytes of a reducer's input that map tasks left on a worker's host; sums wrap around.\<close>

definition bytes_on_host :: "string list \<Rightarrow> (string \<rightharpoonup> u64) \<Rightarrow> workerStatus \<Rightarrow> u64" where
  "bytes_on_host dord workerData w = sum_list (map (\<lambda>addr. the (workerData addr))
     (filter (\<lambda>addr. host_of addr = host_of (wi_address (ws_info w))) (range_keys dord workerData)))"

fun most_local ::
    "(workerStatus \<Rightarrow> u64) \<Rightarrow> (string \<rightharpoonup> workerStatus) \<Rightarrow> string list \<Rightarrow> (string \<times> u64) option \<Rightarrow> (string \<times> u64) option" where
  "most_local bytesOn ws [] best = best"
| "most_local bytesOn ws (wid # wids) best = (case ws wid of
      None \<Rightarrow> most_local bytesOn ws wids best
    | Some w \<Rightarrow> if has_resources w \<and> (best = None \<or> snd (the best) < bytesOn w)
        then most_local bytesOn ws wids (Some (wid, bytesOn w))
        else most_local bytesOn ws wids best)"

definition selectReduceWorker ::
    "(nat \<Rightarrow> string list) \<Rightarrow> string list \<Rightarrow> (string \<rightharpoonup> workerStatus) \<Rightarrow> (string \<rightharpoonup> u64) \<Rightarrow> bool \<Rightarrow> string" where
  "selectReduceWorker ords dord ws workerData delay =
     (if range_keys (ords 0) ws = [] then []
      else (case most_local (bytes_on_host dord workerData) ws (range_keys (ords 0) ws) None of
        Some (bestWorker, _) \<Rightarrow> bestWorker
      | None \<Rightarrow> if delay then []
          else fst (least_busy (\<lambda>_. True) ws (range_keys (ords 1) ws) ([], 0xffffffff))))"

section \<open>Having a task run\<close>

text \<open>
  One attempt: the workers when one is selected, the workers when the selected one is looked up, and what
  the connection brings. \<open>None\<close> among the messages received is an error.
\<close>

datatype conn_outcome = DialFails | SendFails | Talks "MapReduceWrapper option list"

record attempt =
  at_ords :: "nat \<Rightarrow> string list"
  at_select :: "string \<rightharpoonup> workerStatus"
  at_lookup :: "string \<rightharpoonup> workerStatus"
  at_conn :: conn_outcome

text \<open>Waiting for a report: other messages are ignored. \<open>None\<close>: still waiting; \<open>Some None\<close>: the attempt failed.\<close>

fun await_report :: "MapReduceWrapper option list \<Rightarrow> TaskReport option option" where
  "await_report [] = None"
| "await_report (None # ms) = Some None"
| "await_report (Some w # ms) = (case GetTaskReport w of
      None \<Rightarrow> await_report ms
    | Some report \<Rightarrow> if tr_success report then Some (Some report) else Some None)"

datatype assigned = Assigned string "u64 list" | GaveUp | Pending

definition retry_limit :: nat where
  "retry_limit = 5"

text \<open>
  The loop that \<open>assignMapTask\<close> and \<open>assignReduceTask\<close> share, over the attempts made. A worker that left
  between selection and lookup is a nil pointer.
\<close>

fun assign_task :: "(attempt \<Rightarrow> bool \<Rightarrow> string) \<Rightarrow> nat \<Rightarrow> attempt list \<Rightarrow> assigned result" where
  "assign_task select retry as =
     (if retry \<ge> retry_limit then Inr GaveUp
      else (case as of
        [] \<Rightarrow> Inr Pending
      | a # as' \<Rightarrow>
          let workerId = select a (retry \<le> retry_limit div 2) in
          if workerId = [] then assign_task select (Suc retry) as'
          else and_then (deref (at_lookup a workerId)) (\<lambda>ws. case at_conn a of
              DialFails \<Rightarrow> assign_task select (Suc retry) as'
            | SendFails \<Rightarrow> assign_task select (Suc retry) as'
            | Talks ms \<Rightarrow> (case await_report ms of
                None \<Rightarrow> Inr Pending
              | Some None \<Rightarrow> assign_task select (Suc retry) as'
              | Some (Some report) \<Rightarrow> Inr (Assigned (wi_address (ws_info ws)) (tr_reduceData report))))))"

declare assign_task.simps [simp del]

definition task_nodes :: "jobState \<Rightarrow> MapTaskInfo \<Rightarrow> string list result" where
  "task_nodes job t = (case job_chunkNodes job (mt_fileName t) of
      None \<Rightarrow> Inl Panic
    | Some cn \<Rightarrow> if unat (mt_chunkId t) < length cn then Inr (cn ! unat (mt_chunkId t)) else Inl Panic)"

definition assignMapTask :: "jobState \<Rightarrow> nat \<Rightarrow> attempt list \<Rightarrow> assigned result" where
  "assignMapTask job taskIndex as = and_then (task_nodes job (job_mapTaskList job ! taskIndex)) (\<lambda>ns.
     assign_task (\<lambda>a delay. selectWorker (at_ords a) (at_select a) ns delay) 0 as)"

definition assignReduceTask :: "jobState \<Rightarrow> nat \<Rightarrow> string list \<Rightarrow> attempt list \<Rightarrow> assigned result" where
  "assignReduceTask job reducerId dord as =
     assign_task (\<lambda>a delay. selectReduceWorker (at_ords a) dord (at_select a) (job_reduceData job ! reducerId) delay) 0 as"

definition map_task_id :: "MapTaskInfo \<Rightarrow> string" where
  "map_task_id t = mt_fileName t @ CHR ''-'' # dec_str (unat (mt_chunkId t))"

definition map_assignment :: "jobState \<Rightarrow> MapTaskInfo \<Rightarrow> MapReduceWrapper" where
  "map_assignment job t = SendTaskAssignment (job_id job) (map_task_id t) TaskType_MAP (mt_fileName t) (mt_chunkId t)
     (jr_jobBinary (job_request job)) (job_numReducers job) 0 Map.empty"

definition map_task_info :: "jobState \<Rightarrow> string \<rightharpoonup> string" where
  "map_task_info job = map_of (rev (map (\<lambda>t. (map_task_id t, mt_nodeAddr t)) (job_mapTaskList job)))"

definition reduce_assignment :: "jobState \<Rightarrow> u32 \<Rightarrow> MapReduceWrapper" where
  "reduce_assignment job reducerId = SendTaskAssignment (job_id job) (''reduce-'' @ dec_str (unat reducerId)) TaskType_REDUCE
     [] 0 (jr_jobBinary (job_request job)) (job_numReducers job) reducerId (map_task_info job)"

section \<open>Admission of a job\<close>

text \<open>
  \<open>getChunkInfoFromDFS\<close>: an error text if the DFS cannot be asked or refuses, else the addresses of each
  chunk's nodes. The locations are placed by chunk id.
\<close>

fun place_locations :: "string list list \<Rightarrow> ChunkLocation list \<Rightarrow> string list list result" where
  "place_locations cn [] = Inr cn"
| "place_locations cn (loc # locs) = and_then (deref (cn_metadata loc)) (\<lambda>md.
     if unat (ci_id md) < length cn
     then place_locations (cn[unat (ci_id md) := map ni_address (cn_nodes loc)]) locs
     else Inl Panic)"

definition getChunkInfoFromDFS :: "string + wrapper \<Rightarrow> (string + string list list \<times> nat) result" where
  "getChunkInfoFromDFS answer = (case answer of
      Inl err \<Rightarrow> Inr (Inl err)
    | Inr w \<Rightarrow> (case GetGetFileResp w of
        None \<Rightarrow> Inr (Inl ''DFS error: '')
      | Some resp \<Rightarrow> and_then (deref (gfr_resp resp)) (\<lambda>r.
          if \<not> resp_ok r then Inr (Inl (''DFS error: '' @ resp_message r))
          else and_then (place_locations (replicate (length (gfr_locations resp)) []) (gfr_locations resp))
            (\<lambda>cn. Inr (Inr (cn, length (gfr_locations resp)))))))"

definition num_reducers :: "u32 \<Rightarrow> nat \<Rightarrow> u32" where
  "num_reducers requested numTasks = (if requested \<noteq> 0 then requested
     else word_of_nat (max 1 (min ((numTasks + numChunksPerReducers - 1) div numChunksPerReducers) roundedMaxReducers)))"

text \<open>The loop over the input files; the left result is the refusal.\<close>

fun collect_inputs ::
    "(string \<Rightarrow> string + wrapper) \<Rightarrow> string list \<Rightarrow> (string \<rightharpoonup> string list list) \<Rightarrow> MapTaskInfo list \<Rightarrow>
      (string + (string \<rightharpoonup> string list list) \<times> MapTaskInfo list) result" where
  "collect_inputs dfs [] chunkNodes tasks = Inr (Inr (chunkNodes, tasks))"
| "collect_inputs dfs (inputFile # fs) chunkNodes tasks = and_then (getChunkInfoFromDFS (dfs inputFile)) (\<lambda>r. case r of
      Inl err \<Rightarrow> Inr (Inl (''Failed to get chunk info from DFS for '' @ inputFile @ '': '' @ err))
    | Inr (cn, numChunks) \<Rightarrow> collect_inputs dfs fs (chunkNodes(inputFile \<mapsto> cn))
        (tasks @ map (\<lambda>i. \<lparr>mt_fileName = inputFile, mt_chunkId = word_of_nat i, mt_nodeAddr = []\<rparr>) [0..<numChunks]))"

definition new_job :: "string \<Rightarrow> JobRequest \<Rightarrow> (string \<rightharpoonup> string list list) \<Rightarrow> MapTaskInfo list \<Rightarrow> jobState" where
  "new_job jobId req chunkNodes tasks =
     (let R = num_reducers (jr_numReducers req) (length tasks) in
      \<lparr>job_id = jobId, job_request = req, job_phase = TaskType_MAP, job_chunkNodes = chunkNodes,
       job_mapTaskList = tasks, job_numReducers = R, job_reduceData = replicate (unat R) Map.empty\<rparr>)"

text \<open>The new state, the answer, and the job whose \<open>runJob\<close> is started. The job id is the time in nanoseconds.\<close>

definition handleJobSubmission ::
    "string \<Rightarrow> (string \<Rightarrow> string + wrapper) \<Rightarrow> JobRequest \<Rightarrow> master \<Rightarrow> (master \<times> MapReduceWrapper \<times> jobState option) result" where
  "handleJobSubmission jobId dfs req m = and_then (collect_inputs dfs (jr_inputFiles req) Map.empty []) (\<lambda>r. case r of
      Inl msg \<Rightarrow> Inr (m, SendJobResponse False msg [], None)
    | Inr (chunkNodes, tasks) \<Rightarrow>
        let job = new_job jobId req chunkNodes tasks in
        Inr (m\<lparr>jobs := (jobs m)(jobId \<mapsto> job)\<rparr>, SendJobResponse True ''Job accepted'' jobId, Some job))"

section \<open>Running a job\<close>

text \<open>
  A task goroutine's end is one step: it records the outcome and sends the progress. Outcomes come in the order in
  which the tasks finish. A success without any sizes is taken for an error there, and its nil error is used.
\<close>

definition add_bytes :: "string \<Rightarrow> u64 \<Rightarrow> (string \<rightharpoonup> u64) \<Rightarrow> string \<rightharpoonup> u64" where
  "add_bytes addr b d = d(addr \<mapsto> (case d addr of None \<Rightarrow> 0 | Some n \<Rightarrow> n) + b)"

fun add_reduce_data :: "string \<Rightarrow> nat \<Rightarrow> u64 list \<Rightarrow> (string \<rightharpoonup> u64) list \<Rightarrow> (string \<rightharpoonup> u64) list result" where
  "add_reduce_data addr rId [] rd = Inr rd"
| "add_reduce_data addr rId (b # bs) rd =
     (if rId < length rd then add_reduce_data addr (Suc rId) bs (rd[rId := add_bytes addr b (rd ! rId)]) else Inl Panic)"

definition failed_assignment :: string where
  "failed_assignment = ''failed to assign map task''"

definition map_progress :: "jobState \<Rightarrow> u32 \<Rightarrow> bool \<Rightarrow> string \<Rightarrow> MapReduceWrapper" where
  "map_progress job completed isError msg =
     SendJobProgress (job_id job) ''MAP'' completed (word_of_nat (length (job_mapTaskList job))) False isError msg"

text \<open>A map task that is over: \<open>None\<close> if it was given up, else its worker and the sizes it reported.\<close>

type_synonym map_outcome = "nat \<times> (string \<times> u64 list) option"

definition map_task_done :: "map_outcome \<Rightarrow> jobState \<times> u32 \<Rightarrow> (jobState \<times> u32 \<times> MapReduceWrapper) result" where
  "map_task_done out st = (case out of (i, r) \<Rightarrow> case st of (job, completed) \<Rightarrow> (case r of
      None \<Rightarrow> Inr (job, completed, map_progress job completed True failed_assignment)
    | Some (workerAddr, sizes) \<Rightarrow>
        if sizes = [] then Inl Panic
        else and_then (add_reduce_data workerAddr 0 sizes (job_reduceData job)) (\<lambda>rd.
          let job' = job\<lparr>job_mapTaskList := (job_mapTaskList job)[i := (job_mapTaskList job ! i)\<lparr>mt_nodeAddr := workerAddr\<rparr>],
                         job_reduceData := rd\<rparr>
          in Inr (job', completed + 1, map_progress job' (completed + 1) False []))))"

fun map_phase :: "map_outcome list \<Rightarrow> jobState \<times> u32 \<Rightarrow> (jobState \<times> u32 \<times> MapReduceWrapper list) result" where
  "map_phase [] st = Inr (fst st, snd st, [])"
| "map_phase (out # outs) st = and_then (map_task_done out st) (\<lambda>(job, completed, p).
     and_then (map_phase outs (job, completed)) (\<lambda>(job', completed', ps). Inr (job', completed', p # ps)))"

text \<open>The reduce tasks that end, in order: whether each succeeded. A failure is announced with the counters of the map phase.\<close>

fun reduce_phase :: "jobState \<Rightarrow> u32 \<Rightarrow> bool list \<Rightarrow> u32 \<Rightarrow> MapReduceWrapper list" where
  "reduce_phase job mapCompleted [] completed = []"
| "reduce_phase job mapCompleted (ok # oks) completed =
     (if ok then SendJobProgress (job_id job) ''REDUCE'' (completed + 1) (job_numReducers job) False False []
          # reduce_phase job mapCompleted oks (completed + 1)
      else map_progress job mapCompleted True failed_assignment # reduce_phase job mapCompleted oks completed)"

text \<open>
  \<open>runJob\<close>, given how all its tasks end: the messages to the client, the job as the reduce tasks see it, and
  the master without the job.
\<close>

definition runJob :: "jobState \<Rightarrow> map_outcome list \<Rightarrow> bool list \<Rightarrow> master \<Rightarrow> (master \<times> jobState \<times> MapReduceWrapper list) result" where
  "runJob job maps reduces m = and_then (map_phase maps (job, 0)) (\<lambda>(job1, mapCompleted, ps).
     let job2 = job1\<lparr>job_phase := TaskType_REDUCE\<rparr> in
     Inr (m\<lparr>jobs := (jobs m)(job_id job := None)\<rparr>, job2,
       map_progress job 0 False [] # ps @
       SendJobProgress (job_id job) ''REDUCE'' 0 (job_numReducers job) False False [] #
       reduce_phase job2 mapCompleted reduces 0 @
       [SendJobProgress (job_id job) ''COMPLETED'' 0 0 True False ''Job completed successfully'']))"

section \<open>Dispatch\<close>

text \<open>One message received on a connection; other messages are ignored.\<close>

definition master_handleConnection ::
    "time \<Rightarrow> string \<Rightarrow> (string \<Rightarrow> string + wrapper) \<Rightarrow> MapReduceWrapper \<Rightarrow> master \<Rightarrow> (master \<times> MapReduceWrapper list \<times> jobState option) result" where
  "master_handleConnection now jobId dfs w m = (case w of
      MapReduceWrapper_Heartbeat hb \<Rightarrow> and_then (handleWorkerHeartbeat now hb m) (\<lambda>m'. Inr (m', [], None))
    | MapReduceWrapper_JobReq req \<Rightarrow> and_then (handleJobSubmission jobId dfs req m) (\<lambda>(m', answer, job). Inr (m', [answer], job))
    | _ \<Rightarrow> Inr (m, [], None))"

end
