(* ===== verification/SchedulingProps.thy ===== *)
theory SchedulingProps
  imports Scheduling
begin

text \<open>
  Properties of the MapReduce master: which worker a task goes to, how often it is tried, what a job's bookkeeping
  holds after the map phase, and what the client is told.
\<close>

section \<open>Choosing a worker\<close>

abbreviation active_tasks :: "workerStatus \<Rightarrow> u32" where
  "active_tasks w \<equiv> wi_activeTasks (ws_info w)"

text \<open>The workers that may be chosen: those with resources that satisfy a condition.\<close>

definition usable :: "(workerStatus \<Rightarrow> bool) \<Rightarrow> (string \<rightharpoonup> workerStatus) \<Rightarrow> string \<Rightarrow> workerStatus \<Rightarrow> bool" where
  "usable P ws k w \<longleftrightarrow> ws k = Some w \<and> has_resources w \<and> P w"

text \<open>A choice over a set of workers: the start value, or a usable worker with fewer tasks than every other one.\<close>

definition good_choice ::
    "(workerStatus \<Rightarrow> bool) \<Rightarrow> (string \<rightharpoonup> workerStatus) \<Rightarrow> string set \<Rightarrow> string \<times> u32 \<Rightarrow> string \<times> u32 \<Rightarrow> bool" where
  "good_choice P ws K start best \<longleftrightarrow> snd best \<le> snd start \<and>
     (\<forall>k \<in> K. \<forall>w. usable P ws k w \<longrightarrow> snd best \<le> active_tasks w) \<and>
     (best = start \<or> (\<exists>w. fst best \<in> K \<and> usable P ws (fst best) w \<and> active_tasks w = snd best \<and> snd best < snd start))"

lemma least_busy_choice: "good_choice P ws (set ks) start (least_busy P ws ks start)"
proof (induction P ws ks start rule: least_busy.induct)
  case (2 P ws wid wids bestWorker minTasks)
  show ?case
  proof (cases "ws wid")
    case None
    then show ?thesis using 2(1) by (auto simp: good_choice_def usable_def)
  next
    case (Some w)
    show ?thesis
    proof (cases "P w \<and> has_resources w \<and> active_tasks w < minTasks")
      case True
      note IH = 2(2) [OF Some True]
      show ?thesis
        using IH Some True unfolding good_choice_def usable_def by (auto intro: order.trans)
    next
      case False
      note IH = 2(3) [OF Some False]
      have "\<forall>w'. usable P ws wid w' \<longrightarrow> minTasks \<le> active_tasks w'" using Some False by (auto simp: usable_def)
      then show ?thesis
        using IH Some False unfolding good_choice_def by (auto intro: order.trans)
    qed
  qed
qed (simp add: good_choice_def)

lemma good_choice_trans:
  assumes "good_choice P ws K start mid" "good_choice Q ws K mid best"
  shows "good_choice (\<lambda>w. P w \<or> Q w) ws K start best"
  using assms unfolding good_choice_def usable_def
  by (auto intro: order.trans order.strict_trans2)

lemma local_worker_choice:
  assumes "\<And>i. covers (ords i) ws"
  shows "good_choice (\<lambda>w. \<exists>addr \<in> set addrs. on_host addr w) ws (dom ws) start (local_worker ords ws i addrs start)"
proof (induction addrs arbitrary: i start)
  case (Cons addr addrs)
  let ?mid = "least_busy (on_host addr) ws (range_keys (ords i) ws) start"
  have "good_choice (on_host addr) ws (dom ws) start ?mid"
    using least_busy_choice [of "on_host addr" ws "range_keys (ords i) ws" start] assms by simp
  from good_choice_trans [OF this Cons.IH] show ?case by simp
qed (simp add: good_choice_def usable_def)

lemma u32_max: "x \<le> (0xffffffff :: u32)"
  using unsigned_less [of x, where ?'a = nat] by (simp add: word_le_nat_alt)

lemma choice_found:
  assumes c: "good_choice P ws (dom ws) ([], 0xffffffff) best" and k: "usable P ws k w" "active_tasks w \<noteq> 0xffffffff"
    and none: "ws [] = None"
  shows "fst best \<noteq> [] \<and> (\<exists>w. usable P ws (fst best) w \<and> (\<forall>k' w'. usable P ws k' w' \<longrightarrow> active_tasks w \<le> active_tasks w'))"
proof -
  have dom: "usable P ws k' w' \<Longrightarrow> k' \<in> dom ws" for k' w' by (auto simp: usable_def)
  have "snd best \<le> active_tasks w" using c k(1) dom unfolding good_choice_def by blast
  moreover have "active_tasks w < 0xffffffff"
    using k(2) u32_max [of "active_tasks w"] by (simp add: order_less_le)
  ultimately have "best \<noteq> ([], 0xffffffff)" by auto
  then obtain w' where w': "usable P ws (fst best) w'" "active_tasks w' = snd best" using c unfolding good_choice_def by blast
  moreover have "fst best \<noteq> []" using w'(1) none by (auto simp: usable_def)
  ultimately show ?thesis using c dom unfolding good_choice_def by metis
qed

lemma choice_none:
  assumes "good_choice P ws K ([], 0xffffffff) best" "\<nexists>k w. usable P ws k w"
  shows "fst best = []"
  using assms unfolding good_choice_def by auto

text \<open>C27: a map task goes to the least busy worker with resources on a host that holds its chunk, if there is one. If there is
  none, an attempt that waits for locality selects nobody, and a later attempt, or one for a chunk without
  locations, takes the least busy worker with resources of all, or nobody if there is none.\<close>

theorem select_worker:
  assumes cov: "\<And>i. covers (ords i) ws" and named: "ws [] = None" and busy: "\<forall>w \<in> ran ws. active_tasks w \<noteq> 0xffffffff"
    and loc: "loc = (\<lambda>w. \<exists>addr \<in> set ns. on_host addr w)"
  shows "if \<exists>k w. usable loc ws k w
    then \<exists>w. usable loc ws (selectWorker ords ws ns delay) w \<and> (\<forall>k' w'. usable loc ws k' w' \<longrightarrow> active_tasks w \<le> active_tasks w')
    else if (delay \<and> ns \<noteq> []) \<or> (\<nexists>k w. usable (\<lambda>_. True) ws k w) then selectWorker ords ws ns delay = []
    else \<exists>w. usable (\<lambda>_. True) ws (selectWorker ords ws ns delay) w \<and>
      (\<forall>k' w'. usable (\<lambda>_. True) ws k' w' \<longrightarrow> active_tasks w \<le> active_tasks w')"
proof -
  let ?local = "local_worker ords ws 0 ns ([], 0xffffffff)"
  let ?any = "least_busy (\<lambda>_. True) ws (range_keys (ords (length ns)) ws) ([], 0xffffffff)"
  have l: "good_choice loc ws (dom ws) ([], 0xffffffff) ?local" unfolding loc by (rule local_worker_choice [OF cov])
  have a: "good_choice (\<lambda>_. True) ws (dom ws) ([], 0xffffffff) ?any"
    using least_busy_choice [of "\<lambda>_. True" ws "range_keys (ords (length ns)) ws" "([], 0xffffffff)"] cov by simp
  have ne: "usable P ws k w \<Longrightarrow> range_keys (ords 0) ws \<noteq> [] \<and> active_tasks w \<noteq> 0xffffffff" for P k w
    using set_range_keys_covers [OF cov [of 0]] busy by (auto simp: usable_def ran_def simp del: set_range_keys_covers)
  show ?thesis
  proof (cases "\<exists>k w. usable loc ws k w")
    case True
    then obtain k w where k: "usable loc ws k w" by blast
    note f = choice_found [OF l k _ named]
    have "selectWorker ords ws ns delay = fst ?local" using f ne [OF k] by (simp add: selectWorker_def)
    then show ?thesis using True f ne [OF k] by simp
  next
    case False
    then have "fst ?local = []" using choice_none [OF l] by blast
    then have sel: "selectWorker ords ws ns delay =
        (if range_keys (ords 0) ws = [] \<or> delay \<and> ns \<noteq> [] then [] else fst ?any)"
      by (auto simp: selectWorker_def)
    show ?thesis
    proof (cases "\<exists>k w. usable (\<lambda>_. True) ws k w")
      case any: True
      then obtain k w where k: "usable (\<lambda>_. True) ws k w" by blast
      show ?thesis unfolding sel using False any choice_found [OF a k _ named] ne [OF k] by auto
    next
      case none: False
      then have "fst ?any = []" using choice_none [OF a] by blast
      then show ?thesis unfolding sel using False none by auto
    qed
  qed
qed

definition demo_worker :: "string \<Rightarrow> u32 \<Rightarrow> u32 \<Rightarrow> workerStatus" where
  "demo_worker addr cpu active = \<lparr>ws_info = \<lparr>wi_id = addr, wi_address = addr, wi_cpuLoad = cpu, wi_memLoad = 10,
     wi_activeTasks = active\<rparr>, ws_lastHeartbeat = 0\<rparr>"

definition demo_workers :: "string \<rightharpoonup> workerStatus" where
  "demo_workers = [''a'' \<mapsto> demo_worker ''h1:7'' 20 3, ''b'' \<mapsto> demo_worker ''h2:7'' 20 1, ''c'' \<mapsto> demo_worker ''h1:8'' 90 0]"

lemma demo_workers_facts:
  "covers [''a'', ''b'', ''c''] demo_workers" "demo_workers [] = None"
  "\<forall>w \<in> ran demo_workers. active_tasks w \<noteq> 0xffffffff"
  by (auto simp: covers_def demo_workers_def demo_worker_def ran_def split: if_splits)

theorem select_worker_witness:
  "selectWorker (\<lambda>_. [''a'', ''b'', ''c'']) demo_workers [''h1:9''] True = ''a''"
proof -
  let ?loc = "\<lambda>w. \<exists>addr \<in> set [''h1:9'']. on_host addr w"
  have "usable ?loc demo_workers ''a'' (demo_worker ''h1:7'' 20 3)"
    by (simp add: usable_def demo_workers_def demo_worker_def has_resources_def cpuThreshold_def memThreshold_def on_host_def
        host_of_def split_host_port_def)
  moreover from this obtain w where "usable ?loc demo_workers (selectWorker (\<lambda>_. [''a'', ''b'', ''c'']) demo_workers [''h1:9''] True) w"
    using select_worker [OF demo_workers_facts refl, of "[''h1:9'']" True] by (auto split: if_splits)
  ultimately show ?thesis
    by (auto simp: usable_def demo_workers_def demo_worker_def has_resources_def cpuThreshold_def memThreshold_def on_host_def
        host_of_def split_host_port_def split: if_splits)
qed

lemma most_local_Some:
  "most_local b ws ks (Some (k0, n0)) = Some (k, n) \<Longrightarrow> n0 \<le> n \<and> (\<forall>k' \<in> set ks. \<forall>w'. usable (\<lambda>_. True) ws k' w' \<longrightarrow> b w' \<le> n) \<and>
     ((k, n) = (k0, n0) \<or> (\<exists>w. k \<in> set ks \<and> usable (\<lambda>_. True) ws k w \<and> b w = n))"
proof (induction ks arbitrary: k0 n0)
  case (Cons wid wids)
  show ?case
  proof (cases "\<exists>w. ws wid = Some w \<and> has_resources w \<and> n0 < b w")
    case True
    then obtain w where w: "ws wid = Some w" "has_resources w" "n0 < b w" by blast
    then have "most_local b ws wids (Some (wid, b w)) = Some (k, n)" using Cons.prems by simp
    from Cons.IH [OF this] w show ?thesis by (fastforce simp: usable_def)
  next
    case False
    then have "most_local b ws wids (Some (k0, n0)) = Some (k, n)" using Cons.prems by (auto split: option.splits if_splits)
    note IH = Cons.IH [OF this]
    have "usable (\<lambda>_. True) ws wid w' \<Longrightarrow> b w' \<le> n" for w' using False IH by (fastforce simp: usable_def not_less)
    with IH show ?thesis by auto
  qed
qed simp

lemma most_local_Some_ex: "\<exists>k n. most_local b ws ks (Some best) = Some (k, n)"
  by (induction ks arbitrary: best) (auto split: option.splits)

lemma most_local_choice:
  "(\<exists>k n w. most_local b ws ks None = Some (k, n) \<and> usable (\<lambda>_. True) ws k w \<and> b w = n \<and>
     (\<forall>k' \<in> set ks. \<forall>w'. usable (\<lambda>_. True) ws k' w' \<longrightarrow> b w' \<le> n)) \<or>
   most_local b ws ks None = None \<and> (\<forall>k \<in> set ks. \<forall>w. \<not> usable (\<lambda>_. True) ws k w)"
proof (induction ks)
  case (Cons wid wids)
  show ?case
  proof (cases "\<exists>w. usable (\<lambda>_. True) ws wid w")
    case True
    then obtain w where w: "ws wid = Some w" "has_resources w" by (auto simp: usable_def)
    obtain k n where kn: "most_local b ws wids (Some (wid, b w)) = Some (k, n)" using most_local_Some_ex by blast
    note m = most_local_Some [OF kn]
    have here: "usable (\<lambda>_. True) ws wid w" using w by (simp add: usable_def)
    have "usable (\<lambda>_. True) ws wid w' \<Longrightarrow> b w' \<le> n" for w' using w m by (simp add: usable_def)
    then have "\<forall>k' \<in> set (wid # wids). \<forall>w'. usable (\<lambda>_. True) ws k' w' \<longrightarrow> b w' \<le> n" using m by simp
    moreover have "\<exists>w. usable (\<lambda>_. True) ws k w \<and> b w = n" using m here by blast
    moreover have "most_local b ws (wid # wids) None = Some (k, n)" using kn w by simp
    ultimately show ?thesis by blast
  next
    case False
    then have "most_local b ws (wid # wids) None = most_local b ws wids None" by (auto simp: usable_def split: option.splits)
    with Cons.IH False show ?thesis by auto
  qed
qed simp

text \<open>A reduce task goes to a worker with resources on whose host the most bytes of its input lie (sums modulo 2 to
  the 64). Nobody is selected exactly when no worker has resources, in the attempts that wait for locality as in
  the later ones: the fallback on the least busy worker, which asks for the same resources, never selects anyone.\<close>

lemma select_reduce_worker:
  assumes cov: "\<And>i. covers (ords i) ws" and named: "ws [] = None"
  shows "selectReduceWorker ords dord ws workerData delay = selectReduceWorker ords dord ws workerData False \<and>
    (if \<exists>k w. usable (\<lambda>_. True) ws k w
     then \<exists>w. usable (\<lambda>_. True) ws (selectReduceWorker ords dord ws workerData delay) w \<and>
       (\<forall>k' w'. usable (\<lambda>_. True) ws k' w' \<longrightarrow> bytes_on_host dord workerData w' \<le> bytes_on_host dord workerData w)
     else selectReduceWorker ords dord ws workerData delay = [])"
proof -
  let ?b = "bytes_on_host dord workerData"
  note m = most_local_choice [of ?b ws "range_keys (ords 0) ws"]
  have dom: "usable (\<lambda>_. True) ws k w \<Longrightarrow> k \<in> set (range_keys (ords 0) ws)" for k w using cov by (auto simp: usable_def)
  show ?thesis
  proof (cases "\<exists>k w. usable (\<lambda>_. True) ws k w")
    case True
    then obtain k n w where kn: "most_local ?b ws (range_keys (ords 0) ws) None = Some (k, n)" "usable (\<lambda>_. True) ws k w" "?b w = n"
      "\<forall>k' \<in> set (range_keys (ords 0) ws). \<forall>w'. usable (\<lambda>_. True) ws k' w' \<longrightarrow> ?b w' \<le> n"
      using m dom by blast
    moreover have "range_keys (ords 0) ws \<noteq> []" using True dom by fastforce
    ultimately have "selectReduceWorker ords dord ws workerData d = k" for d by (simp add: selectReduceWorker_def)
    moreover have "\<forall>k' w'. usable (\<lambda>_. True) ws k' w' \<longrightarrow> ?b w' \<le> ?b w" using kn dom by blast
    ultimately show ?thesis using True kn(2) by auto
  next
    case False
    then have none: "most_local ?b ws (range_keys (ords 0) ws) None = None"
      using m by blast
    have "fst (least_busy (\<lambda>_. True) ws (range_keys (ords 1) ws) ([], 0xffffffff)) = []"
      by (rule choice_none [OF least_busy_choice]) (use False in blast)
    then have "selectReduceWorker ords dord ws workerData d = []" for d by (simp add: selectReduceWorker_def none)
    then show ?thesis using False by simp
  qed
qed

theorem select_reduce_worker_witness:
  "selectReduceWorker (\<lambda>_. [''a'', ''b'', ''c'']) [''h2:7'', ''h1:7''] demo_workers [''h1:7'' \<mapsto> 5, ''h2:7'' \<mapsto> 9] True = ''b''"
proof -
  let ?wd = "[''h1:7'' \<mapsto> 5, ''h2:7'' \<mapsto> 9] :: string \<rightharpoonup> u64" and ?o = "\<lambda>_. [''a'', ''b'', ''c'']"
  note defs = usable_def demo_workers_def demo_worker_def has_resources_def cpuThreshold_def memThreshold_def
  have a: "usable (\<lambda>_. True) demo_workers ''b'' (demo_worker ''h2:7'' 20 1)" by (simp add: defs)
  then obtain w where w: "usable (\<lambda>_. True) demo_workers (selectReduceWorker ?o [''h2:7'', ''h1:7''] demo_workers ?wd True) w"
    "bytes_on_host [''h2:7'', ''h1:7''] ?wd (demo_worker ''h2:7'' 20 1) \<le> bytes_on_host [''h2:7'', ''h1:7''] ?wd w"
    using select_reduce_worker [OF demo_workers_facts(1,2), of "[''h2:7'', ''h1:7'']" ?wd True] by (auto split: if_splits)
  have "bytes_on_host [''h2:7'', ''h1:7''] ?wd (demo_worker ''h2:7'' 20 1) = 9" "bytes_on_host [''h2:7'', ''h1:7''] ?wd (demo_worker ''h1:7'' 20 3) = 5"
    by (simp_all add: bytes_on_host_def range_keys_def demo_worker_def host_of_def split_host_port_def)
  with w show ?thesis by (auto simp: defs split: if_splits)
qed

section \<open>Attempts\<close>

text \<open>An attempt that ends without a success: nobody selected, no connection, an error or a failure report.\<close>

definition attempt_fails :: "(attempt \<Rightarrow> bool \<Rightarrow> string) \<Rightarrow> attempt \<Rightarrow> nat \<Rightarrow> bool" where
  "attempt_fails select a retry \<longleftrightarrow> (let workerId = select a (retry \<le> 2) in
     workerId = [] \<or> (at_lookup a workerId \<noteq> None \<and> (case at_conn a of
       DialFails \<Rightarrow> True | SendFails \<Rightarrow> True | Talks ms \<Rightarrow> await_report ms = Some None)))"

definition silent :: "attempt \<Rightarrow> bool" where
  "silent a \<longleftrightarrow> (\<exists>ms. at_conn a = Talks ms \<and> await_report ms = None)"

lemma assign_task_end: "retry \<ge> 5 \<Longrightarrow> assign_task select retry as = Inr GaveUp"
  by (subst assign_task.simps) (simp add: retry_limit_def)

lemma assign_task_fails:
  "retry < 5 \<Longrightarrow> attempt_fails select a retry \<Longrightarrow> assign_task select retry (a # as) = assign_task select (Suc retry) as"
  by (subst assign_task.simps)
    (auto simp: retry_limit_def attempt_fails_def Let_def split: conn_outcome.splits)

text \<open>An attempt that does not fail decides the outcome.\<close>

lemma assign_task_decides:
  "retry < 5 \<Longrightarrow> \<not> attempt_fails select a retry \<Longrightarrow> assign_task select retry (a # as) = assign_task select retry [a] \<and>
    assign_task select retry [a] \<noteq> Inr GaveUp \<and> (assign_task select retry [a] = Inr Pending \<longrightarrow> silent a)"
  by (subst (1 2 3 4) assign_task.simps)
    (auto simp: retry_limit_def attempt_fails_def Let_def silent_def deref_def and_then_def split: conn_outcome.splits option.splits)

lemma assign_task_bound:
  "n + retry = 5 \<Longrightarrow> n \<le> length as \<Longrightarrow> assign_task select retry as = assign_task select retry (take n as) \<and>
    (assign_task select retry as = Inr GaveUp \<longleftrightarrow> (\<forall>i < n. attempt_fails select (as ! i) (retry + i))) \<and>
    (assign_task select retry as = Inr Pending \<longrightarrow> (\<exists>i < n. silent (as ! i)))"
proof (induction n arbitrary: retry as)
  case 0
  then show ?case by (simp add: assign_task_end)
next
  case (Suc n)
  then obtain a as' where as: "as = a # as'" "n \<le> length as'" by (cases as) auto
  have r: "retry < 5" using Suc.prems by simp
  show ?case
  proof (cases "attempt_fails select a retry")
    case True
    have "n + Suc retry = 5" using Suc.prems(1) by simp
    note IH = Suc.IH [OF this as(2)]
    have "(\<forall>i < Suc n. attempt_fails select ((a # as') ! i) (retry + i)) \<longleftrightarrow> (\<forall>i < n. attempt_fails select (as' ! i) (Suc retry + i))"
      using True by (auto simp: less_Suc_eq_0_disj)
    moreover have "(\<exists>i < n. silent (as' ! i)) \<longrightarrow> (\<exists>i < Suc n. silent ((a # as') ! i))" by auto
    ultimately show ?thesis
      unfolding as take_Suc_Cons assign_task_fails [OF r True] using IH by blast
  next
    case False
    note d = assign_task_decides [OF r False]
    have "\<not> (\<forall>i < Suc n. attempt_fails select ((a # as') ! i) (retry + i))" using False by (auto intro!: exI [of _ 0])
    moreover have "silent a \<longrightarrow> (\<exists>i < Suc n. silent ((a # as') ! i))" by auto
    ultimately show ?thesis using d [of as'] d [of "take n as'"] by (simp add: as)
  qed
qed

text \<open>C32: a map task is tried at most five times: whatever would happen later is irrelevant. It is given up exactly when all five
  attempts fail: nobody could be selected, the connection failed, or the worker reported a failure or hung up. The loop
  stays open after that many attempts only on a worker that neither reports nor hangs up: there is no
  deadline on the report.\<close>

theorem five_attempts:
  assumes "task_nodes job (job_mapTaskList job ! taskIndex) = Inr ns" and "5 \<le> length as"
  shows "assignMapTask job taskIndex as = assignMapTask job taskIndex (take 5 as) \<and>
    (assignMapTask job taskIndex as = Inr GaveUp \<longleftrightarrow>
      (\<forall>i < 5. attempt_fails (\<lambda>a delay. selectWorker (at_ords a) (at_select a) ns delay) (as ! i) i)) \<and>
    (assignMapTask job taskIndex as = Inr Pending \<longrightarrow> (\<exists>i < 5. silent (as ! i)))"
proof -
  have eq: "assignMapTask job taskIndex as = assign_task (\<lambda>a delay. selectWorker (at_ords a) (at_select a) ns delay) 0 as" for as
    using assms(1) by (simp add: assignMapTask_def)
  show ?thesis unfolding eq
    by (rule assign_task_bound [OF add_0_right assms(2), where select = "\<lambda>a delay. selectWorker (at_ords a) (at_select a) ns delay", unfolded add_0])
qed

definition demo_job :: jobState where
  "demo_job = new_job ''1'' \<lparr>jr_inputFiles = [''f''], jr_jobBinary = ''x'', jr_numReducers = 2\<rparr> [''f'' \<mapsto> [[''h1:9''], [''h1:9'']]]
     [\<lparr>mt_fileName = ''f'', mt_chunkId = 0, mt_nodeAddr = []\<rparr>, \<lparr>mt_fileName = ''f'', mt_chunkId = 1, mt_nodeAddr = []\<rparr>]"

lemma demo_nodes: "task_nodes demo_job (job_mapTaskList demo_job ! 0) = Inr [''h1:9'']"
  by (simp add: demo_job_def new_job_def Let_def task_nodes_def)

definition no_workers :: attempt where
  "no_workers = \<lparr>at_ords = (\<lambda>_. []), at_select = Map.empty, at_lookup = Map.empty, at_conn = DialFails\<rparr>"

theorem five_attempts_witness:
  "assignMapTask demo_job 0 (replicate 5 no_workers) = Inr GaveUp \<and>
   assignMapTask demo_job 0 (replicate 6 no_workers) = Inr GaveUp"
proof -
  have "attempt_fails (\<lambda>a delay. selectWorker (at_ords a) (at_select a) [''h1:9''] delay) no_workers i" for i
    by (simp add: attempt_fails_def selectWorker_def no_workers_def range_keys_def Let_def)
  then have "assignMapTask demo_job 0 (replicate n no_workers) = Inr GaveUp" if "5 \<le> n" for n
    using five_attempts [OF demo_nodes, of "replicate n no_workers"] that by auto
  from this [of 5] this [of 6] show ?thesis by simp
qed

text \<open>The master crashes when a worker leaves at the wrong moment. A worker whose last heartbeat is more than fifteen seconds
  old is still selected until the next sweep; if that sweep comes between the selection and the lookup of the
  worker, the lookup yields nil and the master panics.\<close>

lemma vanished_worker_panics:
  assumes nodes: "task_nodes job (job_mapTaskList job ! taskIndex) = Inr ns"
    and chosen: "selectWorker (at_ords a) (workers m) ns True = wid" "workers m wid = Some ws" "wid \<noteq> []"
    and old: "15 * second < now - ws_lastHeartbeat ws"
    and race: "at_select a = workers m" "at_lookup a = workers (monitorWorkers now m)"
  shows "assignMapTask job taskIndex (a # as) = Inl Panic"
proof -
  have "at_lookup a wid = None" using race(2) chosen(2) old by (simp add: monitorWorkers_def)
  then show ?thesis
    using nodes chosen race(1) by (simp add: assignMapTask_def assign_task.simps [of _ 0] retry_limit_def)
qed

theorem vanished_worker_panics_witness:
  "assignMapTask demo_job 0 [\<lparr>at_ords = (\<lambda>_. [''a'', ''b'', ''c'']), at_select = demo_workers,
     at_lookup = workers (monitorWorkers (16 * second) \<lparr>workers = demo_workers, jobs = Map.empty\<rparr>), at_conn = DialFails\<rparr>] = Inl Panic"
  by (rule vanished_worker_panics [OF demo_nodes, where wid = "''a''" and ws = "demo_worker ''h1:7'' 20 3" and m = "\<lparr>workers = demo_workers, jobs = Map.empty\<rparr>"])
    (simp_all add: selectWorker_def range_keys_def demo_workers_def demo_worker_def has_resources_def cpuThreshold_def memThreshold_def
      on_host_def host_of_def split_host_port_def second_def Let_def)

section \<open>The course of a job\<close>

text \<open>All tasks end, each once; a success names a size for every reducer.\<close>

definition all_tasks_end :: "jobState \<Rightarrow> map_outcome list \<Rightarrow> bool list \<Rightarrow> bool" where
  "all_tasks_end job maps reduces \<longleftrightarrow> mset (map fst maps) = mset [0..<length (job_mapTaskList job)] \<and>
     length reduces = unat (job_numReducers job) \<and> job_numReducers job \<noteq> 0 \<and> length (job_reduceData job) = unat (job_numReducers job) \<and>
     (\<forall>i addr sizes. (i, Some (addr, sizes)) \<in> set maps \<longrightarrow> length sizes = unat (job_numReducers job))"

text \<open>The sizes for one reducer that tasks on one worker reported.\<close>

definition contributions :: "nat \<Rightarrow> string \<Rightarrow> map_outcome list \<Rightarrow> u64 list" where
  "contributions r addr maps = List.map_filter (\<lambda>(i, out). case out of
     None \<Rightarrow> None | Some (a, sizes) \<Rightarrow> if a = addr then Some (sizes ! r) else None) maps"

lemma add_reduce_data_eq:
  "rId + length bs \<le> length rd \<Longrightarrow> add_reduce_data addr rId bs rd =
    Inr (map (\<lambda>r. if rId \<le> r \<and> r < rId + length bs then add_bytes addr (bs ! (r - rId)) (rd ! r) else rd ! r) [0..<length rd])"
proof (induction bs arbitrary: rId rd)
  case Nil
  have "map (\<lambda>r. if rId \<le> r \<and> r < rId + length ([] :: u64 list) then add_bytes addr ([] ! (r - rId)) (rd ! r) else rd ! r) [0..<length rd] = rd"
    by (rule nth_equalityI) auto
  then show ?case by simp
next
  case (Cons b bs)
  have "add_reduce_data addr (Suc rId) bs (rd[rId := add_bytes addr b (rd ! rId)]) =
      Inr (map (\<lambda>r. if Suc rId \<le> r \<and> r < Suc rId + length bs then add_bytes addr (bs ! (r - Suc rId)) (rd[rId := add_bytes addr b (rd ! rId)] ! r)
        else rd[rId := add_bytes addr b (rd ! rId)] ! r) [0..<length rd])"
    using Cons.IH [of "Suc rId" "rd[rId := add_bytes addr b (rd ! rId)]"] Cons.prems by simp
  moreover have "(if Suc rId \<le> r \<and> r < Suc rId + length bs then add_bytes addr (bs ! (r - Suc rId)) (rd[rId := add_bytes addr b (rd ! rId)] ! r)
        else rd[rId := add_bytes addr b (rd ! rId)] ! r) =
      (if rId \<le> r \<and> r < rId + length (b # bs) then add_bytes addr ((b # bs) ! (r - rId)) (rd ! r) else rd ! r)"
    if "r < length rd" for r
    using that Cons.prems by (cases "r = rId") (auto simp: nth_Cons')
  ultimately show ?case using Cons.prems by (simp cong: map_cong)
qed

text \<open>The data of one reducer and the tasks' workers after any number of task ends.\<close>

definition data_after :: "nat \<Rightarrow> map_outcome list \<Rightarrow> (string \<rightharpoonup> u64) \<Rightarrow> string \<rightharpoonup> u64" where
  "data_after r maps d = (\<lambda>addr. if contributions r addr maps = [] then d addr
     else Some ((case d addr of None \<Rightarrow> 0 | Some n \<Rightarrow> n) + sum_list (contributions r addr maps)))"

definition tasks_after :: "map_outcome list \<Rightarrow> MapTaskInfo list \<Rightarrow> MapTaskInfo list" where
  "tasks_after maps ts = fold (\<lambda>(i, out) ts. case out of None \<Rightarrow> ts
     | Some (addr, sizes) \<Rightarrow> ts[i := (ts ! i)\<lparr>mt_nodeAddr := addr\<rparr>]) maps ts"

lemma length_tasks_after [simp]: "length (tasks_after maps ts) = length ts"
  unfolding tasks_after_def by (induction maps arbitrary: ts) (auto split: option.splits)

lemma contributions_Cons:
  "contributions r addr ((i, None) # maps) = contributions r addr maps"
  "contributions r addr ((i, Some (a, sizes)) # maps) = (if a = addr then sizes ! r # contributions r addr maps else contributions r addr maps)"
  by (simp_all add: contributions_def List.map_filter_def)

lemma data_after_Cons:
  "data_after r ((i, None) # maps) d = data_after r maps d"
  "data_after r ((i, Some (a, sizes)) # maps) d = data_after r maps (add_bytes a (sizes ! r) d)"
  by (auto simp: data_after_def contributions_Cons add_bytes_def fun_eq_iff)

definition is_failure_of :: "map_outcome \<Rightarrow> bool" where
  "is_failure_of out \<longleftrightarrow> snd out = None"

lemma is_failure_of_simps [simp]: "is_failure_of (i, None)" "\<not> is_failure_of (i, Some x)"
  by (simp_all add: is_failure_of_def)

lemma tasks_after_Cons:
  "tasks_after ((i, None) # maps) ts = tasks_after maps ts"
  "tasks_after ((i, Some (addr, sizes)) # maps) ts = tasks_after maps (ts[i := (ts ! i)\<lparr>mt_nodeAddr := addr\<rparr>])"
  by (simp_all add: tasks_after_def)

definition error_messages :: "MapReduceWrapper list \<Rightarrow> nat" where
  "error_messages ps = length (filter (\<lambda>w. case GetJobProgress w of None \<Rightarrow> False | Some p \<Rightarrow> jp_isError p) ps)"

lemma error_messages_Cons [simp]:
  "error_messages (SendJobProgress j ph c t ic e msg # ps) = (if e then 1 else 0) + error_messages ps"
  by (simp add: error_messages_def SendJobProgress_def GetJobProgress_def)

lemma error_messages_append [simp]: "error_messages (ps @ qs) = error_messages ps + error_messages qs"
  by (simp add: error_messages_def)

lemma error_messages_Nil [simp]: "error_messages [] = 0"
  by (simp add: error_messages_def)

lemma map_phase_eq:
  assumes "\<forall>i addr sizes. (i, Some (addr, sizes)) \<in> set maps \<longrightarrow> sizes \<noteq> [] \<and> length sizes = length (job_reduceData job)"
  shows "\<exists>ps. map_phase maps (job, c) = Inr (job\<lparr>job_mapTaskList := tasks_after maps (job_mapTaskList job),
      job_reduceData := map (\<lambda>r. data_after r maps (job_reduceData job ! r)) [0..<length (job_reduceData job)]\<rparr>,
      c + word_of_nat (length (filter (\<lambda>out. \<not> is_failure_of out) maps)), ps) \<and>
    length ps = length maps \<and> error_messages ps = length (filter is_failure_of maps)"
  using assms
proof (induction maps arbitrary: job c)
  case Nil
  have "map (\<lambda>r. data_after r [] (job_reduceData job ! r)) [0..<length (job_reduceData job)] = job_reduceData job"
    by (rule nth_equalityI) (simp_all add: data_after_def contributions_def List.map_filter_def)
  then show ?case by (simp add: tasks_after_def)
next
  case (Cons out maps)
  obtain i r where out: "out = (i, r)" by (cases out) auto
  show ?case
  proof (cases r)
    case None
    obtain ps where "map_phase maps (job, c) = Inr (job\<lparr>job_mapTaskList := tasks_after maps (job_mapTaskList job),
        job_reduceData := map (\<lambda>r. data_after r maps (job_reduceData job ! r)) [0..<length (job_reduceData job)]\<rparr>,
        c + word_of_nat (length (filter (\<lambda>out. \<not> is_failure_of out) maps)), ps)"
      "length ps = length maps" "error_messages ps = length (filter is_failure_of maps)"
      using Cons.IH [of job c] Cons.prems by auto
    then show ?thesis
      by (simp add: out None map_task_done_def data_after_Cons tasks_after_Cons map_progress_def)
  next
    case (Some as)
    then obtain addr sizes where r: "r = Some (addr, sizes)" by (cases as) auto
    have sizes: "sizes \<noteq> []" "length sizes = length (job_reduceData job)" using Cons.prems out r by auto
    let ?rd = "map (\<lambda>r. add_bytes addr (sizes ! r) (job_reduceData job ! r)) [0..<length (job_reduceData job)]"
    let ?job = "job\<lparr>job_mapTaskList := (job_mapTaskList job)[i := (job_mapTaskList job ! i)\<lparr>mt_nodeAddr := addr\<rparr>], job_reduceData := ?rd\<rparr>"
    have rd: "add_reduce_data addr 0 sizes (job_reduceData job) = Inr ?rd"
      using sizes by (simp add: add_reduce_data_eq cong: map_cong)
    have step: "map_task_done out (job, c) = Inr (?job, c + 1, map_progress ?job (c + 1) False [])"
      using sizes rd by (simp add: map_task_done_def out r Let_def)
    obtain ps where "map_phase maps (?job, c + 1) = Inr (?job\<lparr>job_mapTaskList := tasks_after maps (job_mapTaskList ?job),
        job_reduceData := map (\<lambda>r. data_after r maps (job_reduceData ?job ! r)) [0..<length (job_reduceData ?job)]\<rparr>,
        c + 1 + word_of_nat (length (filter (\<lambda>out. \<not> is_failure_of out) maps)), ps)"
      and ps: "length ps = length maps" "error_messages ps = length (filter is_failure_of maps)"
      using Cons.IH [of ?job "c + 1"] Cons.prems sizes by auto
    moreover have "map (\<lambda>r. data_after r maps (?rd ! r)) [0..<length (job_reduceData job)] =
        map (\<lambda>r. data_after r (out # maps) (job_reduceData job ! r)) [0..<length (job_reduceData job)]"
      by (simp add: out r data_after_Cons)
    moreover have "tasks_after (out # maps) (job_mapTaskList job) = tasks_after maps (job_mapTaskList ?job)"
      by (simp add: out r tasks_after_Cons)
    ultimately show ?thesis
      using step ps by (simp add: out r map_progress_def algebra_simps)
  qed
qed

lemma reduce_phase_counts:
  "length (reduce_phase job mc oks c) = length oks \<and> error_messages (reduce_phase job mc oks c) = length (filter Not oks)"
  by (induction oks arbitrary: c) (simp_all add: map_progress_def)

lemma runJob_eq:
  assumes "all_tasks_end job maps reduces"
  shows "\<exists>ps. runJob job maps reduces m = Inr (m\<lparr>jobs := (jobs m)(job_id job := None)\<rparr>,
      job\<lparr>job_mapTaskList := tasks_after maps (job_mapTaskList job),
        job_reduceData := map (\<lambda>r. data_after r maps (job_reduceData job ! r)) [0..<length (job_reduceData job)],
        job_phase := TaskType_REDUCE\<rparr>,
      ps @ [SendJobProgress (job_id job) ''COMPLETED'' 0 0 True False ''Job completed successfully'']) \<and>
    length ps = 2 + length maps + length reduces \<and>
    error_messages ps = length (filter is_failure_of maps) + length (filter Not reduces)"
proof -
  have sizes: "\<forall>i addr sizes. (i, Some (addr, sizes)) \<in> set maps \<longrightarrow> sizes \<noteq> [] \<and> length sizes = length (job_reduceData job)"
    using assms unfolding all_tasks_end_def by (metis length_0_conv unat_eq_zero)
  obtain ps c where "map_phase maps (job, 0) = Inr (job\<lparr>job_mapTaskList := tasks_after maps (job_mapTaskList job),
      job_reduceData := map (\<lambda>r. data_after r maps (job_reduceData job ! r)) [0..<length (job_reduceData job)]\<rparr>, c, ps)"
    "length ps = length maps" "error_messages ps = length (filter is_failure_of maps)"
    using map_phase_eq [OF sizes, of 0] by blast
  then show ?thesis
    using reduce_phase_counts by (simp add: runJob_def Let_def) (simp add: map_progress_def)
qed

text \<open>A job always ends with the message that it completed successfully, whatever became of its tasks: when all tasks
  have ended, in whatever order and with whatever outcomes, even if every single one was given up, the last message to the
  client is the success, the job is removed from the master, and the only trace of the failures is one error message
  for each of them.\<close>

lemma job_always_succeeds:
  assumes "all_tasks_end job maps reduces"
  shows "\<exists>m' job' ps. runJob job maps reduces m = Inr (m', job', ps @
      [SendJobProgress (job_id job) ''COMPLETED'' 0 0 True False ''Job completed successfully'']) \<and>
    jobs m' = (jobs m)(job_id job := None) \<and> workers m' = workers m \<and>
    length ps = 2 + length maps + length reduces \<and>
    error_messages ps = length (filter is_failure_of maps) + length (filter Not reduces)"
proof -
  let ?m = "m\<lparr>jobs := (jobs m)(job_id job := None)\<rparr>"
  obtain job' ps where "runJob job maps reduces m = Inr (?m, job', ps @ [SendJobProgress (job_id job) ''COMPLETED'' 0 0 True False ''Job completed successfully''])"
    "length ps = 2 + length maps + length reduces"
    "error_messages ps = length (filter is_failure_of maps) + length (filter Not reduces)"
    using runJob_eq [OF assms] by blast
  then show ?thesis by (intro exI [of _ ?m] exI [of _ job'] exI [of _ ps]) simp
qed

lemma demo_job_facts [simp]: "job_id demo_job = ''1''" "job_numReducers demo_job = 2" "length (job_mapTaskList demo_job) = 2"
  "length (job_reduceData demo_job) = 2"
  by (simp_all add: demo_job_def new_job_def num_reducers_def Let_def)

lemma demo_all_end: "length outs = 2 \<Longrightarrow> \<forall>o' \<in> set outs. \<forall>a sizes. o' = Some (a, sizes) \<longrightarrow> length sizes = 2 \<Longrightarrow>
    length reduces = 2 \<Longrightarrow> all_tasks_end demo_job (zip [1, 0] outs) reduces"
  by (auto simp: all_tasks_end_def upt_rec dest: set_zip_rightD)

theorem job_always_succeeds_witness:
  "\<exists>m' job' ps. runJob demo_job [(1, None), (0, None)] [False, False] newMaster = Inr (m', job', ps @
     [SendJobProgress ''1'' ''COMPLETED'' 0 0 True False ''Job completed successfully'']) \<and> error_messages ps = 4"
proof -
  have "all_tasks_end demo_job [(1, None), (0, None)] [False, False]"
    using demo_all_end [of "[None, None]" "[False, False]"] by simp
  from job_always_succeeds [OF this, of newMaster] obtain m' job' ps where
    "runJob demo_job [(1, None), (0, None)] [False, False] newMaster = Inr (m', job', ps @
       [SendJobProgress ''1'' ''COMPLETED'' 0 0 True False ''Job completed successfully''])" "error_messages ps = 4"
    by auto
  then show ?thesis by blast
qed

lemma tasks_after_nth:
  "distinct (map fst maps) \<Longrightarrow> j < length ts \<Longrightarrow> tasks_after maps ts ! j =
    (case map_of maps j of Some (Some (addr, sizes)) \<Rightarrow> (ts ! j)\<lparr>mt_nodeAddr := addr\<rparr> | _ \<Rightarrow> ts ! j)"
proof (induction maps arbitrary: ts)
  case Nil
  then show ?case by (simp add: tasks_after_def)
next
  case (Cons out maps)
  obtain i r where out: "out = (i, r)" by (cases out) auto
  have none: "map_of maps i = None" using Cons.prems(1) out by (simp add: map_of_eq_None_iff)
  show ?case
  proof (cases r)
    case (Some as)
    then obtain addr sizes where r: "r = Some (addr, sizes)" by (cases as) auto
    have "tasks_after (out # maps) ts ! j = tasks_after maps (ts[i := (ts ! i)\<lparr>mt_nodeAddr := addr\<rparr>]) ! j"
      by (simp add: out r tasks_after_Cons)
    then show ?thesis using Cons none by (cases "i = j") (auto simp: out r split: option.splits)
  qed (use Cons none in \<open>auto simp: out tasks_after_Cons split: option.splits\<close>)
qed

text \<open>C26: when the map phase is over, the master's books are right, in whatever order the tasks finished: every task that
  succeeded is recorded with the worker that ran it, every other one with none, and for each reducer and worker the
  recorded amount is the sum, modulo 2 to the 64, of what the tasks on that worker reported for the reducer.\<close>

theorem map_phase_books:
  assumes job: "job = new_job jobId req chunkNodes tasks" and ends: "all_tasks_end job maps reduces"
    and fresh: "\<forall>t \<in> set tasks. mt_nodeAddr t = []"
    and run: "runJob job maps reduces m = Inr (m', job', ps)"
  shows "(\<forall>j < length tasks. mt_nodeAddr (job_mapTaskList job' ! j) =
      (case map_of maps j of Some (Some (addr, sizes)) \<Rightarrow> addr | _ \<Rightarrow> [])) \<and>
    (\<forall>r < unat (job_numReducers job). \<forall>addr. (job_reduceData job' ! r) addr =
      (if contributions r addr maps = [] then None else Some (sum_list (contributions r addr maps))))"
proof -
  have tasks: "job_mapTaskList job = tasks" "job_reduceData job = replicate (unat (job_numReducers job)) Map.empty"
    by (simp_all add: job new_job_def Let_def)
  have j': "job_mapTaskList job' = tasks_after maps tasks"
    "job_reduceData job' = map (\<lambda>r. data_after r maps (job_reduceData job ! r)) [0..<length (job_reduceData job)]"
    using runJob_eq [OF ends, of m] run tasks by auto
  have "distinct (map fst maps)"
    using ends unfolding all_tasks_end_def by (metis distinct_upt mset_eq_imp_distinct_iff)
  then have "mt_nodeAddr (tasks_after maps tasks ! j) = (case map_of maps j of Some (Some (addr, sizes)) \<Rightarrow> addr | _ \<Rightarrow> [])"
    if "j < length tasks" for j
    using that fresh by (simp add: tasks_after_nth split: option.splits prod.splits)
  then show ?thesis unfolding j' tasks(2) by (simp add: data_after_def)
qed

theorem map_phase_books_witness:
  "\<exists>m' job' ps. runJob demo_job [(1, Some (''b'', [5, 6])), (0, Some (''b'', [1, 2]))] [True, True] newMaster = Inr (m', job', ps) \<and>
     (job_reduceData job' ! 1) ''b'' = Some 8 \<and> mt_nodeAddr (job_mapTaskList job' ! 0) = ''b''"
proof -
  let ?maps = "[(1, Some (''b'', [5, 6])), (0, Some (''b'', [1, 2]))] :: map_outcome list"
  have ends: "all_tasks_end demo_job ?maps [True, True]"
    using demo_all_end [of "[Some (''b'', [5, 6]), Some (''b'', [1, 2])]" "[True, True]"] by simp
  obtain m' job' ps where run: "runJob demo_job ?maps [True, True] newMaster = Inr (m', job', ps)"
    using runJob_eq [OF ends, of newMaster] by blast
  have "\<forall>t \<in> set [\<lparr>mt_fileName = ''f'', mt_chunkId = 0, mt_nodeAddr = []\<rparr>, \<lparr>mt_fileName = ''f'', mt_chunkId = 1, mt_nodeAddr = []\<rparr>].
      mt_nodeAddr t = []" by simp
  from map_phase_books [OF demo_job_def ends this run] run show ?thesis
    by (auto simp: demo_job_def new_job_def num_reducers_def Let_def contributions_def List.map_filter_def)
qed

end
