(* ===== verification/WorkerTask.thy ===== *)
theory WorkerTask
  imports Plugins MrMessages Retrieval
begin

text \<open>
  The rest of a worker (\<open>mapreduce/worker/worker.go\<close>): its identity, getting hold of the chunk of a map task, job
  plugins, the two kinds of tasks from assignment to report, and its connections. Map and reduce proper are in
  \<open>MapTask\<close> and \<open>ReduceTask\<close>. What the operating system, the network and \<open>plugin.Open\<close> bring are
  inputs; a task's own files can be written.
\<close>

section \<open>State\<close>

text \<open>The files of a worker: plugins by job, map outputs by job and task, results by job and reducer.\<close>

record worker =
  w_id :: string
  w_address :: string
  w_masterAddr :: string
  activeTasks :: u32
  dfsControllerAddr :: string
  dfsClientPath :: string
  w_plugins :: "string \<rightharpoonup> bytes"
  w_inter :: "string \<times> string \<rightharpoonup> indexed_file"
  w_results :: "string \<times> u32 \<rightharpoonup> string"

definition short_name :: "string \<Rightarrow> string" where
  "short_name hostname = hd (split_on (CHR ''.'') hostname)"

text \<open>A host name that cannot be had is empty.\<close>

definition newWorker :: "string \<Rightarrow> string \<Rightarrow> string \<Rightarrow> string \<Rightarrow> string \<Rightarrow> worker" where
  "newWorker hostname masterAddr port controllerAddr clientPath =
     \<lparr>w_id = short_name hostname @ CHR ''-'' # port, w_address = hostname @ CHR '':'' # port, w_masterAddr = masterAddr,
      activeTasks = 0, dfsControllerAddr = controllerAddr, dfsClientPath = clientPath,
      w_plugins = Map.empty, w_inter = Map.empty, w_results = Map.empty\<rparr>"

text \<open>One heartbeat; a load that cannot be measured counts as 0.\<close>

definition worker_heartbeat :: "8 word option \<Rightarrow> 8 word option \<Rightarrow> worker \<Rightarrow> MapReduceWrapper" where
  "worker_heartbeat cpu mem w =
     Mr_SendHeartbeat (w_id w) (w_address w) (case cpu of None \<Rightarrow> 0 | Some c \<Rightarrow> ucast c) (case mem of None \<Rightarrow> 0 | Some m \<Rightarrow> ucast m)
       (activeTasks w)"

section \<open>Running the DFS client\<close>

text \<open>
  The exit status of the client on a command line; \<open>asked\<close> is the status with which it ends when it gets as far
  as asking the controller.
\<close>

definition client_status :: "nat \<Rightarrow> string list \<Rightarrow> nat" where
  "client_status asked args = (case client_main args of
      Inl Panic \<Rightarrow> 2
    | Inl Fatal \<Rightarrow> 1
    | Inr a \<Rightarrow> (case exit_status a of None \<Rightarrow> asked | Some n \<Rightarrow> n))"

text \<open>\<open>cmd.Run\<close>: the error, if the command does not start or ends with another status than 0.\<close>

definition run_command :: "string option \<Rightarrow> nat \<Rightarrow> string option" where
  "run_command startErr status = (case startErr of
      Some e \<Rightarrow> Some e
    | None \<Rightarrow> if status = 0 then None else Some (''exit status '' @ dec_str status))"

section \<open>The chunk of a map task\<close>

datatype open_outcome = Opened string | NotExist string | OpenError string

record chunk_env =
  ce_first :: open_outcome
  ce_mkdirErr :: "string option"
  ce_startErr :: "string option"
  ce_asked :: nat
  ce_second :: open_outcome

definition getchunk_args :: "worker \<Rightarrow> string \<Rightarrow> u64 \<Rightarrow> string \<Rightarrow> string list" where
  "getchunk_args w inputFile chunkId chunkDir =
     [dfsClientPath w, dfsControllerAddr w, ''getchunk'', inputFile, dec_str (unat chunkId), chunkDir]"

definition open_chunk :: "chunk_env \<Rightarrow> string \<Rightarrow> worker \<Rightarrow> TaskAssignment \<Rightarrow> string + string" where
  "open_chunk env chunkDir w task = (case ce_first env of
      Opened content \<Rightarrow> Inr content
    | OpenError e \<Rightarrow> Inl (''failed to open chunk: '' @ e)
    | NotExist _ \<Rightarrow> (case ce_mkdirErr env of
        Some e \<Rightarrow> Inl (''failed to create directory for chunk: '' @ e)
      | None \<Rightarrow> (case run_command (ce_startErr env)
            (client_status (ce_asked env) (getchunk_args w (ta_inputFile task) (ta_chunkId task) chunkDir)) of
          Some e \<Rightarrow> Inl (''failed to retrieve chunk from DFS: '' @ e)
        | None \<Rightarrow> (case ce_second env of
            Opened content \<Rightarrow> Inr content
          | NotExist e \<Rightarrow> Inl (''chunk still not found after retrieval: '' @ e)
          | OpenError e \<Rightarrow> Inl (''chunk still not found after retrieval: '' @ e)))))"

section \<open>Plugins\<close>

datatype symbol =
    MapSymbol "string \<Rightarrow> KeyValue list"
  | ReduceSymbol "bytes \<Rightarrow> bytes list \<Rightarrow> bytes"
  | OtherSymbol

text \<open>What \<open>plugin.Open\<close> makes of a file: an error, or the symbols \<open>Lookup\<close> finds, or its errors.\<close>

type_synonym plugin = "string \<Rightarrow> string + symbol"

text \<open>A write that fails may leave a part of the file behind.\<close>

datatype plugin_write = Written | WriteFails string "bytes option"

definition plugin_functions ::
    "(bytes \<Rightarrow> string + plugin) \<Rightarrow> bytes \<Rightarrow> string + (string \<Rightarrow> KeyValue list) \<times> (bytes \<Rightarrow> bytes list \<Rightarrow> bytes)" where
  "plugin_functions plugin_open binary = (case plugin_open binary of
      Inl e \<Rightarrow> Inl e
    | Inr p \<Rightarrow> (case p ''Map'' of
        Inl e \<Rightarrow> Inl e
      | Inr (MapSymbol f) \<Rightarrow> (case p ''Reduce'' of
          Inl e \<Rightarrow> Inl e
        | Inr (ReduceSymbol g) \<Rightarrow> Inr (f, g)
        | Inr _ \<Rightarrow> Inl ''Reduce symbol has wrong type'')
      | Inr _ \<Rightarrow> Inl ''Map symbol has wrong type''))"

definition loadPlugin ::
    "(bytes \<Rightarrow> string + plugin) \<Rightarrow> plugin_write \<Rightarrow> bytes \<Rightarrow> string \<Rightarrow> worker \<Rightarrow>
      worker \<times> (string + (string \<Rightarrow> KeyValue list) \<times> (bytes \<Rightarrow> bytes list \<Rightarrow> bytes))" where
  "loadPlugin plugin_open wr jobBinary jobId w =
     (if jobBinary = [] then (w, Inl ''no job binary provided'')
      else (case w_plugins w jobId of
          Some binary \<Rightarrow> (w, plugin_functions plugin_open binary)
        | None \<Rightarrow> (case wr of
            Written \<Rightarrow> (w\<lparr>w_plugins := (w_plugins w)(jobId \<mapsto> jobBinary)\<rparr>, plugin_functions plugin_open jobBinary)
          | WriteFails e left \<Rightarrow> (w\<lparr>w_plugins := (w_plugins w)(jobId := left)\<rparr>, Inl e))))"

section \<open>Tasks\<close>

record task_env =
  te_chunk :: chunk_env
  te_chunkDir :: string
  te_pluginOpen :: "bytes \<Rightarrow> string + plugin"
  te_pluginWrite :: plugin_write
  te_sort :: "KeyValue list \<Rightarrow> KeyValue list"
  te_hostname :: string
  te_order :: "(string \<times> string) list"
  te_connect :: "string \<Rightarrow> string \<Rightarrow> fetch_source"
  te_sortErr :: string
  te_startErr :: "string option"
  te_putStatus :: nat

text \<open>The body of \<open>runMap\<close>: the reduce data of the report, or an error.\<close>

definition map_task :: "task_env \<Rightarrow> TaskAssignment \<Rightarrow> worker \<Rightarrow> (worker \<times> (string + u64 list)) result" where
  "map_task env task w = (case open_chunk (te_chunk env) (te_chunkDir env) w task of
      Inl e \<Rightarrow> Inr (w, Inl e)
    | Inr content \<Rightarrow> (case loadPlugin (te_pluginOpen env) (te_pluginWrite env) (ta_jobBinary task) (ta_jobId task) w of
        (w, Inl e) \<Rightarrow> Inr (w, Inl (''failed to load plugin for map task: '' @ e))
      | (w, Inr (mapFunc, _)) \<Rightarrow> and_then (runMap mapFunc (te_sort env) (ta_numReducers task) content) (\<lambda>out.
          Inr (w\<lparr>w_inter := (w_inter w)((ta_jobId task, ta_taskId task) \<mapsto> map_file out)\<rparr>, Inr (reduce_data out)))))"

text \<open>
  Where \<open>shuffle\<close> gets the output of each map task: the entries of \<open>MapTaskInfo\<close> in the order of the iteration,
  from its own disk if the address begins with its short host name, else over a connection.
\<close>

definition shuffle_sources :: "task_env \<Rightarrow> TaskAssignment \<Rightarrow> worker \<Rightarrow> fetch_source list" where
  "shuffle_sources env task w = map (\<lambda>(tid, addr).
     if has_prefix addr (short_name (te_hostname env)) then LocalDisk (w_inter w (ta_jobId task, tid))
     else te_connect env tid addr) (te_order env)"

definition result_path :: "TaskAssignment \<Rightarrow> string" where
  "result_path task = ''/bigdata/students/whsiao5/mr/'' @ ta_jobId task @ ''/res-'' @ ta_jobId task @ CHR ''-'' # dec_str (unat (ta_reducerId task))"

definition reduce_task :: "task_env \<Rightarrow> TaskAssignment \<Rightarrow> worker \<Rightarrow> worker \<times> string option" where
  "reduce_task env task w =
     (let sources = shuffle_sources env task w; r = unat (ta_reducerId task) in
      case shuffle r sources of
        None \<Rightarrow> (w, Some (''external sort failed: '' @ te_sortErr env))
      | Some _ \<Rightarrow> (case loadPlugin (te_pluginOpen env) (te_pluginWrite env) (ta_jobBinary task) (ta_jobId task) w of
          (w, Inl e) \<Rightarrow> (w, Some (''failed to load plugin for reduce task: '' @ e))
        | (w, Inr (_, reduceFunc)) \<Rightarrow>
            (w\<lparr>w_results := (w_results w)((ta_jobId task, ta_reducerId task) := runReduce reduceFunc r sources)\<rparr>,
             map_option (\<lambda>e. ''failed to upload result to DFS: '' @ e)
               (run_command (te_startErr env)
                 (client_status (te_putStatus env) [dfsClientPath w, dfsControllerAddr w, ''put'', result_path task])))))"

text \<open>
  From the assignment to the report. A report of success carries one number per reducer, all 0 after a reduce
  task.
\<close>

definition handleTask :: "task_env \<Rightarrow> TaskAssignment \<Rightarrow> worker \<Rightarrow> (worker \<times> MapReduceWrapper) result" where
  "handleTask env task w =
     (let w1 = w\<lparr>activeTasks := activeTasks w + 1\<rparr>;
          report = (\<lambda>(w, res). Inr (w\<lparr>activeTasks := activeTasks w - 1\<rparr>,
            case res of
              Inl e \<Rightarrow> SendTaskReport (ta_jobId task) (ta_taskId task) False e []
            | Inr reduceData \<Rightarrow> SendTaskReport (ta_jobId task) (ta_taskId task) True [] reduceData))
      in if ta_type task = TaskType_MAP then and_then (map_task env task w1) report
      else (case reduce_task env task w1 of
          (w2, Some e) \<Rightarrow> report (w2, Inl e)
        | (w2, None) \<Rightarrow> report (w2, Inr (replicate (unat (ta_numReducers task)) 0))))"

section \<open>Connections\<close>

text \<open>
  What arrives on a connection, up to the first receive error; messages that are neither an assignment nor a
  fetch request are passed over. The answer is what is sent: messages and raw bytes.
\<close>

datatype worker_out = Message MapReduceWrapper | Raw string

fun worker_handleConnection :: "task_env \<Rightarrow> MapReduceWrapper list \<Rightarrow> worker \<Rightarrow> (worker \<times> worker_out list) result" where
  "worker_handleConnection env [] w = Inr (w, [])"
| "worker_handleConnection env (msg # msgs) w =
     (case GetTaskAssign msg of
        Some task \<Rightarrow> and_then (handleTask env task w) (\<lambda>(w, report). Inr (w, [Message report]))
      | None \<Rightarrow> (case GetFetchInter msg of
          Some req \<Rightarrow> Inr (w, case handleFetchIntermediate (unat (fr_reducerId req)) (w_inter w (fr_jobId req, fr_taskId req)) of
            (False, _) \<Rightarrow> [Message (Mr_SendResponse False ''intermediate data index not found'')]
          | (True, content) \<Rightarrow> [Message (Mr_SendResponse True ''sending intermediate data...''), Raw content])
        | None \<Rightarrow> worker_handleConnection env msgs w))"

end
