(* ===== verification/WorkerProps.thy ===== *)
theory WorkerProps
  imports WorkerTask
begin

text \<open>
  Properties of a worker: the report a task ends with, the map task whose chunk is elsewhere, the map output on a
  host with a longer name, and the plugin that was written in part.
\<close>

section \<open>Reports\<close>

lemma length_mergeSpills [simp]: "length (reduce_data (mergeSpills R spills)) = unat R"
  by (simp add: mergeSpills_def Let_def)

lemma runMap_reduce_data: "runMap mapFunc srt R content = Inr out \<Longrightarrow> length (reduce_data out) = unat R"
  by (auto simp: runMap_def and_then_eq_Inr split: prod.splits if_splits)

lemma loadPlugin_counts: "loadPlugin po wr binary job w = (w', res) \<Longrightarrow> activeTasks w' = activeTasks w"
  by (auto simp: loadPlugin_def Let_def split: if_splits option.splits plugin_write.splits)

lemma open_chunk_error: "open_chunk env dir w task = Inl e \<Longrightarrow> e \<noteq> []"
  by (auto simp: open_chunk_def split: open_outcome.splits option.splits)

lemma map_task_facts:
  assumes "map_task env task w = Inr (w', res)"
  shows "activeTasks w' = activeTasks w \<and>
    (case res of Inl e \<Rightarrow> e \<noteq> [] | Inr ds \<Rightarrow> length ds = unat (ta_numReducers task))"
  using assms loadPlugin_counts [where w = w] runMap_reduce_data open_chunk_error
  by (fastforce simp: map_task_def and_then_eq_Inr split: sum.splits prod.splits)

lemma reduce_task_facts:
  assumes "reduce_task env task w = (w', err)"
  shows "activeTasks w' = activeTasks w \<and> err \<noteq> Some []"
  using assms loadPlugin_counts [where w = w]
  by (fastforce simp: reduce_task_def Let_def split: option.splits sum.splits prod.splits)

lemma map_task_runs: "ta_numReducers task \<noteq> 0 \<Longrightarrow> \<exists>w' res. map_task env task w = Inr (w', res)"
proof -
  assume R: "ta_numReducers task \<noteq> 0"
  have "\<exists>out. runMap f srt (ta_numReducers task) content = Inr out" for f srt content
    by (rule runMap_spills [OF R, of f srt content]) blast
  then show ?thesis
    by (auto simp: map_task_def and_then_eq_Inr split: sum.splits prod.splits)
qed

text \<open>C28: a task ends with exactly one report. Unless a map task has no reducers, handling an assignment does not panic; the
  report carries the job and the task of the assignment, has a message exactly if it is a failure, and one number
  per reducer exactly if it is a success; the count of active tasks is what it was.\<close>

theorem task_ends_with_report:
  assumes "ta_type task = TaskType_MAP \<longrightarrow> ta_numReducers task \<noteq> 0"
  shows "\<exists>w' r. handleTask env task w = Inr (w', MapReduceWrapper_TaskReport r) \<and> activeTasks w' = activeTasks w \<and>
    tr_jobId r = ta_jobId task \<and> tr_taskId r = ta_taskId task \<and> (tr_success r \<longleftrightarrow> tr_message r = []) \<and>
    length (tr_reduceData r) = (if tr_success r then unat (ta_numReducers task) else 0)"
proof -
  let ?w = "w\<lparr>activeTasks := activeTasks w + 1\<rparr>"
  show ?thesis
  proof (cases "ta_type task")
    case TaskType_MAP
    with assms obtain w' res where run: "map_task env task ?w = Inr (w', res)" using map_task_runs by blast
    from map_task_facts [OF this] show ?thesis
      by (cases res) (auto simp: handleTask_def Let_def TaskType_MAP run SendTaskReport_def)
  next
    case TaskType_REDUCE
    obtain w' err where run: "reduce_task env task ?w = (w', err)" by fastforce
    from reduce_task_facts [OF this] show ?thesis
      by (cases err) (auto simp: handleTask_def Let_def TaskType_REDUCE run SendTaskReport_def)
  qed
qed

definition demo_worker :: worker where
  "demo_worker = newWorker ''orion1.cs'' ''master:1'' ''9000'' ''ctrl:1'' ''client''"

definition demo_task :: "TaskType \<Rightarrow> TaskAssignment" where
  "demo_task t = \<lparr>ta_jobId = ''j'', ta_taskId = ''t'', ta_type = t, ta_inputFile = ''f'', ta_chunkId = 0, ta_jobBinary = ''so'',
     ta_numReducers = 1, ta_reducerId = 0, ta_mapTaskInfo = Map.empty\<rparr>"

definition demo_chunk_env :: chunk_env where
  "demo_chunk_env = \<lparr>ce_first = NotExist ''no such file'', ce_mkdirErr = None, ce_startErr = None, ce_asked = 0,
     ce_second = NotExist ''no such file''\<rparr>"

definition demo_task_env :: task_env where
  "demo_task_env = \<lparr>te_chunk = demo_chunk_env, te_chunkDir = ''dir'', te_pluginOpen = (\<lambda>_. Inl ''bad plugin''),
     te_pluginWrite = Written, te_sort = sort_key kv_key, te_hostname = ''orion1.cs'', te_order = [],
     te_connect = (\<lambda>_ _. Unreachable), te_sortErr = [], te_startErr = None, te_putStatus = 0\<rparr>"

lemmas demo_task_defs = demo_worker_def demo_task_def demo_chunk_env_def demo_task_env_def

theorem task_ends_with_report_witness:
  "\<exists>w' r. handleTask demo_task_env (demo_task TaskType_MAP) demo_worker = Inr (w', MapReduceWrapper_TaskReport r) \<and>
     activeTasks w' = 0 \<and> tr_taskId r = ''t''"
  using task_ends_with_report [of "demo_task TaskType_MAP" demo_task_env demo_worker]
  by (auto simp: demo_task_defs newWorker_def)

section \<open>A chunk that is elsewhere\<close>

lemma getchunk_status:
  "client_main (getchunk_args w f cid dir) = Inr (InvalidAction ''getchunk'') \<and> client_status asked (getchunk_args w f cid dir) = 0"
proof -
  have "to_lower ''getchunk'' = ''getchunk''" by code_simp
  then show ?thesis by (simp add: client_main_def getchunk_args_def client_status_def exit_status_def Let_def)
qed

text \<open>C111: a worker cannot fetch a chunk it does not have. It runs the DFS client with the command \<open>getchunk\<close>, which the
  client does not know: it says so and exits with status 0, whatever the state of the file system. So the worker goes
  on, and unless something else has put the chunk there meanwhile, the map task fails.\<close>

theorem remote_chunk_fails:
  assumes type: "ta_type task = TaskType_MAP" and first: "ce_first (te_chunk env) = NotExist e"
    and runs: "ce_mkdirErr (te_chunk env) = None" "ce_startErr (te_chunk env) = None"
    and second: "ce_second (te_chunk env) = NotExist e'"
  shows "client_main (getchunk_args w (ta_inputFile task) (ta_chunkId task) (te_chunkDir env)) = Inr (InvalidAction ''getchunk'') \<and>
    handleTask env task w =
      Inr (w, SendTaskReport (ta_jobId task) (ta_taskId task) False (''chunk still not found after retrieval: '' @ e') [])"
  using assms getchunk_status
  by (simp add: handleTask_def Let_def map_task_def open_chunk_def run_command_def)

theorem remote_chunk_fails_witness:
  "handleTask demo_task_env (demo_task TaskType_MAP) demo_worker =
     Inr (demo_worker, SendTaskReport ''j'' ''t'' False ''chunk still not found after retrieval: no such file'' [])"
  using remote_chunk_fails [of "demo_task TaskType_MAP" demo_task_env "''no such file''" "''no such file''" demo_worker]
  by (simp add: demo_task_defs)

section \<open>Map output on another host\<close>

text \<open>The test whether a map task ran on this worker's host compares prefixes. The output of a task on a host whose name
  extends this host's name is looked for on the own disk, is not there, and is left out without a word: the reduce task
  ends as if that map task did not exist.\<close>

lemma longer_host_name_loses_output:
  assumes order: "te_order env = xs @ (tid, addr) # ys" and longer: "has_prefix addr (short_name (te_hostname env))"
    and elsewhere: "w_inter w (ta_jobId task, tid) = None"
  shows "reduce_task env task w = reduce_task (env\<lparr>te_order := xs @ ys\<rparr>) task w"
proof -
  have "shuffle_sources env task w = shuffle_sources (env\<lparr>te_order := xs\<rparr>) task w @ LocalDisk None #
      shuffle_sources (env\<lparr>te_order := ys\<rparr>) task w"
    using assms by (simp add: shuffle_sources_def case_prod_beta)
  moreover have "shuffle_sources (env\<lparr>te_order := xs @ ys\<rparr>) task w =
      shuffle_sources (env\<lparr>te_order := xs\<rparr>) task w @ shuffle_sources (env\<lparr>te_order := ys\<rparr>) task w"
    by (simp add: shuffle_sources_def case_prod_beta)
  moreover have skip: "shuffle r (ss @ LocalDisk None # ts) = shuffle r (ss @ ts)" for r ss ts
    by (simp add: shuffle_def fetch_def List.map_filter_def)
  moreover have "runReduce f r (ss @ LocalDisk None # ts) = runReduce f r (ss @ ts)" for f r ss ts
    by (simp add: runReduce_def skip)
  ultimately show ?thesis
    by (simp add: reduce_task_def Let_def cong del: option.case_cong_weak sum.case_cong_weak prod.case_cong_weak)
qed

theorem longer_host_name_loses_output_witness:
  "reduce_task (demo_task_env\<lparr>te_order := [(''t0'', ''orion10.cs:9000'')]\<rparr>) (demo_task TaskType_REDUCE) demo_worker =
   reduce_task demo_task_env (demo_task TaskType_REDUCE) demo_worker"
  using longer_host_name_loses_output [of "demo_task_env\<lparr>te_order := [(''t0'', ''orion10.cs:9000'')]\<rparr>" "[]" "''t0''"
      "''orion10.cs:9000''" "[]" demo_worker "demo_task TaskType_REDUCE"]
  by (simp add: demo_task_defs newWorker_def has_prefix_def short_name_def)

section \<open>Plugins\<close>

text \<open>The plugin file of a job is written once. If the write breaks off and leaves a part of the binary, the task that
  wrote it fails, and every later task of the job on this worker loads that part, whatever binary its assignment
  brings: nothing replaces the file.\<close>

lemma partial_plugin_stays:
  assumes first: "loadPlugin po (WriteFails e (Some left)) binary job w = (w1, res)"
    and fresh: "w_plugins w job = None" and binary: "binary \<noteq> []"
  shows "res = Inl e \<and> (\<forall>binary' wr. binary' \<noteq> [] \<longrightarrow> loadPlugin po wr binary' job w1 = (w1, plugin_functions po left))"
  using assms by (auto simp: loadPlugin_def)

theorem partial_plugin_stays_witness:
  "\<exists>w1. loadPlugin (\<lambda>_. Inl ''bad plugin'') (WriteFails ''disk full'' (Some ''s'')) ''so'' ''j'' demo_worker = (w1, Inl ''disk full'') \<and>
     loadPlugin (\<lambda>_. Inl ''bad plugin'') Written ''so'' ''j'' w1 = (w1, Inl ''bad plugin'')"
proof -
  obtain w1 res where first: "loadPlugin (\<lambda>_. Inl ''bad plugin'') (WriteFails ''disk full'' (Some ''s'')) ''so'' ''j'' demo_worker = (w1, res)"
    by fastforce
  have "w_plugins demo_worker ''j'' = None" by (simp add: demo_worker_def newWorker_def)
  from partial_plugin_stays [OF first this] first show ?thesis by (auto simp: plugin_functions_def)
qed

end
