(* ===== verification/JobClient.thy ===== *)
theory JobClient
  imports Retrieval Scheduling
begin

text \<open>
  The MapReduce client and the tools around it (\<open>mapreduce/client/\<close>): submitting a job and following its
  progress (\<open>client.go\<close>), picking a job's result files out of the DFS listing (\<open>download_results.go\<close>,
  \<open>delete_results.go\<close>), and evaluating downloaded results (\<open>top5_ips.go\<close>, \<open>top10_domains.go\<close>, \<open>total_unique.go\<close>). What
  connections, commands and directories bring is an input; the order \<open>sort.Slice\<close> gives equal items is an
  argument.
\<close>

section \<open>Submitting a job\<close>

datatype shown =
    TaskFailed string
  | Starting string
  | Finished string
  | Progress u32 u32

text \<open>
  The loop over the messages after the answer, up to the first receive error: what is shown, and whether the loop was
  left by its \<open>break\<close>; otherwise the connection is lost and the program ends.
\<close>

fun follow_job :: "string \<Rightarrow> MapReduceWrapper list \<Rightarrow> shown list \<times> bool" where
  "follow_job currentPhase [] = ([], False)"
| "follow_job currentPhase (w # ws) = (case GetJobProgress w of
      None \<Rightarrow> follow_job currentPhase ws
    | Some prog \<Rightarrow>
        let failed = (if jp_isError prog then [TaskFailed (jp_message prog)] else []);
            newPhase = (jp_phase prog \<noteq> currentPhase);
            progress = (if jp_isComplete prog then [] else [Progress (jp_completedTasks prog) (jp_totalTasks prog)])
        in if newPhase \<and> jp_isComplete prog then (failed @ [Finished (jp_message prog)], True)
           else (case follow_job (jp_phase prog) ws of (out, done) \<Rightarrow>
             (failed @ (if newPhase then [Starting (jp_phase prog)] else []) @ progress @ out, done)))"

record job_session =
  js_dialled :: bool
  js_plugin :: "bytes option"
  js_sent :: bool
  js_answer :: "MapReduceWrapper option"
  js_progress :: "MapReduceWrapper list"

text \<open>The request that is sent, the job id and what is shown.\<close>

definition submitJob :: "string list \<Rightarrow> u32 \<Rightarrow> job_session \<Rightarrow> (MapReduceWrapper \<times> string \<times> shown list) result" where
  "submitJob inputFiles numReducers s =
     (case js_plugin s of
       None \<Rightarrow> Inl Fatal
     | Some jobBinary \<Rightarrow>
       if \<not> js_dialled s \<or> \<not> js_sent s then Inl Fatal
       else (case js_answer s of
         None \<Rightarrow> Inl Fatal
       | Some w \<Rightarrow> (case GetJobResp w of
           None \<Rightarrow> Inl Fatal
         | Some resp \<Rightarrow> and_then (deref (jresp_resp resp)) (\<lambda>r.
             if \<not> mr_ok r then Inl Fatal
             else (case follow_job [] (js_progress s) of
               (out, done) \<Rightarrow> if done then Inr (SendJobRequest inputFiles jobBinary numReducers, jresp_jobId resp, out)
                 else Inl Fatal)))))"

datatype job_action = JobUsage | BadReducers | Submit string "string list" string u32

definition job_client_main :: "string list \<Rightarrow> job_action" where
  "job_client_main args =
     (if length args < 5 then JobUsage
      else (case parse_uint 32 (args ! 4) of
        None \<Rightarrow> BadReducers
      | Some n \<Rightarrow> Submit (args ! 1) (split_on (CHR '','') (args ! 2)) (args ! 3) (word_of_nat n)))"

section \<open>Result files\<close>

text \<open>
  The file names of a job's results in the output of the DFS client's \<open>list\<close>, in order; each is downloaded or
  deleted by a run of the client.
\<close>

definition result_prefix :: "string \<Rightarrow> string" where
  "result_prefix jobID = ''res-'' @ jobID @ ''-''"

definition listed_file :: "string \<Rightarrow> string option" where
  "listed_file line = (let l = trim_space line in
     if l = [] \<or> l = ''LIST'' \<or> l = ''no files were found.'' then None
     else let fs = fields_of l in if length fs \<ge> 2 then Some (fs ! 1) else None)"

definition result_files :: "string \<Rightarrow> string \<Rightarrow> string list" where
  "result_files jobID output =
     filter (\<lambda>name. has_prefix name (result_prefix jobID)) (List.map_filter listed_file (split_on nl output))"

text \<open>The number both tools print at the end: the runs of the client that exit with status 0.\<close>

definition handled_count :: "(string \<Rightarrow> bool) \<Rightarrow> string \<Rightarrow> string \<Rightarrow> nat" where
  "handled_count succeeds jobID output = length (filter succeeds (result_files jobID output))"

section \<open>Counting\<close>

text \<open>A default \<open>bufio.Scanner\<close>. An entry of the directory is a file that can be opened, or nothing.\<close>

definition scan_default :: nat where
  "scan_default = 65536"

text \<open>\<open>strconv.Atoi\<close>, as the two's complement of its value.\<close>

definition atoi :: "string \<Rightarrow> u64 option" where
  "atoi s = (case s of
      [] \<Rightarrow> None
    | c # t \<Rightarrow>
        let neg = (c = CHR ''-''); digits = (if c = CHR ''-'' \<or> c = CHR ''+'' then t else s) in
        if digits = [] \<or> \<not> list_all is_digit digits then None
        else let n = digits_val 0 digits in
          if neg then (if n \<le> 2 ^ 63 then Some (- word_of_nat n) else None)
          else (if n < 2 ^ 63 then Some (word_of_nat n) else None))"

definition counted_line :: "string \<Rightarrow> (string \<times> u64) option" where
  "counted_line text = (let line = trim_space text in
     if line = [] then None
     else let fs = fields_of line in
       if length fs \<ge> 2 then map_option (\<lambda>n. (hd fs, n)) (atoi (last fs)) else None)"

definition add_count :: "string \<times> u64 \<Rightarrow> (string \<rightharpoonup> u64) \<Rightarrow> string \<rightharpoonup> u64" where
  "add_count kn counts = counts(fst kn \<mapsto> (case counts (fst kn) of None \<Rightarrow> 0 | Some m \<Rightarrow> m) + snd kn)"

definition count_entries :: "string option list \<Rightarrow> string \<rightharpoonup> u64" where
  "count_entries entries =
     fold add_count (List.map_filter counted_line
       (concat (map (\<lambda>e. case e of None \<Rightarrow> [] | Some content \<Rightarrow> scan_lines scan_default content) entries))) Map.empty"

text \<open>
  The lines printed: \<open>items\<close> are the counted keys in the order of the iteration over the map, \<open>srt\<close> sorts by count,
  greatest first. \<open>Itoa\<close> of a count is its signed value.
\<close>

type_synonym item = "string \<times> u64"

definition itoa :: "u64 \<Rightarrow> string" where
  "itoa w = (if sint w < 0 then CHR ''-'' # dec_str (nat (- sint w)) else dec_str (nat (sint w)))"

definition top_lines :: "(item list \<Rightarrow> item list) \<Rightarrow> nat \<Rightarrow> item list \<Rightarrow> string list" where
  "top_lines srt limit items = map (\<lambda>(k, n). k @ '': '' @ itoa n) (take limit (srt items))"

definition top5_limit :: nat where
  "top5_limit = 5"

definition top10_limit :: nat where
  "top10_limit = 10"

text \<open>\<open>total_unique.go\<close>: the number of lines of all files, in Go's \<open>int\<close>.\<close>

definition total_unique :: "string option list \<Rightarrow> u64" where
  "total_unique entries = word_of_nat (sum_list
     (map (\<lambda>e. case e of None \<Rightarrow> 0 | Some content \<Rightarrow> length (scan_lines scan_default content)) entries))"

section \<open>The tools\<close>

text \<open>
  An entry of a directory in the order of \<open>os.ReadDir\<close>: whether it is a directory, and what is read of it if it can be
  opened. A tool ends with its usage text, without its directory or listing (status 1 in these cases), or with the lines it
  prints; the two that handle result files also run the DFS client, once for each file. What a run of the client
  gives is a function of its arguments: its output if it exits with status 0.
\<close>

record dir_entry =
  de_isDir :: bool
  de_content :: "string option"

datatype tool_end =
    ToolUsage
  | NoDirectory
  | NoListing
  | Printed "string list"
  | Handled "string list list" "string list"

definition opened_entries :: "dir_entry list \<Rightarrow> string option list" where
  "opened_entries es = map de_content (filter (\<lambda>e. \<not> de_isDir e) es)"

definition on_directory :: "(string option list \<Rightarrow> string list) \<Rightarrow> (string \<Rightarrow> dir_entry list option) \<Rightarrow> string list \<Rightarrow> tool_end" where
  "on_directory tool readDir args =
     (if length args \<noteq> 2 then ToolUsage
      else (case readDir (args ! 1) of None \<Rightarrow> NoDirectory | Some es \<Rightarrow> Printed (tool (opened_entries es))))"

text \<open>The items of a top list are the counted keys in the order \<open>ord\<close> of the iteration over the map.\<close>

definition counted_items :: "string list \<Rightarrow> string option list \<Rightarrow> item list" where
  "counted_items ord entries = (let counts = count_entries entries in map (\<lambda>k. (k, the (counts k))) (range_keys ord counts))"

definition top5_ips_main ::
    "(item list \<Rightarrow> item list) \<Rightarrow> string list \<Rightarrow> (string \<Rightarrow> dir_entry list option) \<Rightarrow> string list \<Rightarrow> tool_end" where
  "top5_ips_main srt ord = on_directory (\<lambda>entries. top_lines srt top5_limit (counted_items ord entries))"

definition top10_domains_main ::
    "(item list \<Rightarrow> item list) \<Rightarrow> string list \<Rightarrow> (string \<Rightarrow> dir_entry list option) \<Rightarrow> string list \<Rightarrow> tool_end" where
  "top10_domains_main srt ord = on_directory (\<lambda>entries. top_lines srt top10_limit (counted_items ord entries))"

definition total_unique_main :: "(string \<Rightarrow> dir_entry list option) \<Rightarrow> string list \<Rightarrow> tool_end" where
  "total_unique_main = on_directory (\<lambda>entries. [''Total unique elements: '' @ itoa (total_unique entries)])"

definition download_results_main :: "(string \<Rightarrow> bool) \<Rightarrow> (string list \<Rightarrow> string option) \<Rightarrow> string list \<Rightarrow> tool_end" where
  "download_results_main mkdirOk client args =
     (if length args \<noteq> 4 then ToolUsage
      else let controllerAddr = args ! 1; jobID = args ! 2; downloadDir = args ! 3;
               getCmd = (\<lambda>name. [controllerAddr, ''get'', name, downloadDir])
        in if \<not> mkdirOk downloadDir then NoDirectory
           else (case client [controllerAddr, ''list''] of
             None \<Rightarrow> NoListing
           | Some output \<Rightarrow> let names = result_files jobID output in
               Handled (map getCmd names) (map (\<lambda>name. ''Downloading '' @ name @ ''...'') names @
                 [''Downloaded '' @ dec_str (handled_count (\<lambda>name. client (getCmd name) \<noteq> None) jobID output) @ '' files to '' @ downloadDir])))"

definition delete_results_main :: "(string list \<Rightarrow> string option) \<Rightarrow> string list \<Rightarrow> tool_end" where
  "delete_results_main client args =
     (if length args \<noteq> 3 then ToolUsage
      else let controllerAddr = args ! 1; jobID = args ! 2; deleteCmd = (\<lambda>name. [controllerAddr, ''delete'', name])
        in (case client [controllerAddr, ''list''] of
             None \<Rightarrow> NoListing
           | Some output \<Rightarrow> let names = result_files jobID output in
               Handled (map deleteCmd names) (map (\<lambda>name. ''Deleting '' @ name @ ''...'') names @
                 [''Deleted '' @ dec_str (handled_count (\<lambda>name. client (deleteCmd name) \<noteq> None) jobID output) @
                  '' files from DFS for job '' @ jobID])))"

end
