(* ===== verification/JobClientProps.thy ===== *)
theory JobClientProps
  imports JobClient SchedulingProps WorkerTask
begin

text \<open>
  Properties of the MapReduce client and its tools: what the user sees of a job, and which files the tools that
  handle results pick.
\<close>

section \<open>What the user sees of a job\<close>

definition unfinished :: "MapReduceWrapper \<Rightarrow> bool" where
  "unfinished w \<longleftrightarrow> (\<exists>prog. GetJobProgress w = Some prog \<and> \<not> jp_isComplete prog \<and> jp_phase prog \<noteq> ''COMPLETED'')"

fun is_task_failure :: "shown \<Rightarrow> bool" where
  "is_task_failure (TaskFailed _) = True"
| "is_task_failure _ = False"

lemma unfinished_progress [simp]:
  "unfinished (map_progress job c e msg)" "unfinished (SendJobProgress j ''REDUCE'' c t False e msg)"
  by (simp_all add: unfinished_def map_progress_def SendJobProgress_def GetJobProgress_def)

lemma map_phase_unfinished: "map_phase maps st = Inr (job, c, ps) \<Longrightarrow> \<forall>p \<in> set ps. unfinished p"
proof (induction maps arbitrary: st job c ps)
  case (Cons out outs)
  then show ?case
    by (fastforce simp: and_then_eq_Inr map_task_done_def Let_def split: prod.splits option.splits if_splits)
qed simp

lemma reduce_phase_unfinished: "\<forall>p \<in> set (reduce_phase job mc oks c). unfinished p"
  by (induction oks arbitrary: c) auto

lemma follow_unfinished:
  assumes "\<forall>p \<in> set ps. unfinished p" "phase \<noteq> ''COMPLETED''"
  shows "\<exists>out. follow_job phase (ps @ [SendJobProgress j ''COMPLETED'' c t True False msg]) = (out @ [Finished msg], True) \<and>
    length (filter is_task_failure out) = error_messages ps"
  using assms
proof (induction ps arbitrary: phase)
  case Nil
  then show ?case by (simp add: SendJobProgress_def GetJobProgress_def)
next
  case (Cons p ps)
  then obtain prog where p: "GetJobProgress p = Some prog" "\<not> jp_isComplete prog" "jp_phase prog \<noteq> ''COMPLETED''"
    by (auto simp: unfinished_def)
  from Cons.IH [of "jp_phase prog"] Cons.prems p(3) obtain out where
    "follow_job (jp_phase prog) (ps @ [SendJobProgress j ''COMPLETED'' c t True False msg]) = (out @ [Finished msg], True)"
    "length (filter is_task_failure out) = error_messages ps" by auto
  with p(1,2) show ?case by (simp add: Let_def error_messages_def)
qed

text \<open>Whatever became of its tasks, the client shows a job as completed. Fed with the messages of a job all of whose
  tasks have ended, its loop ends with the success message of the master; failed tasks appear as lines in between, one for
  each, and change nothing else.\<close>

lemma job_shown_as_completed:
  assumes "all_tasks_end job maps reduces" and "runJob job maps reduces m = Inr (m', job', ps)"
  shows "\<exists>out. follow_job [] ps = (out @ [Finished ''Job completed successfully''], True) \<and>
    length (filter is_task_failure out) = length (filter is_failure_of maps) + length (filter Not reduces)"
proof -
  from runJob_eq [OF assms(1), of m] assms(2) obtain qs where
    ps: "ps = qs @ [SendJobProgress (job_id job) ''COMPLETED'' 0 0 True False ''Job completed successfully'']"
    and errors: "error_messages qs = length (filter is_failure_of maps) + length (filter Not reduces)" by auto
  from assms(2) obtain job1 mc ms where "map_phase maps (job, 0) = Inr (job1, mc, ms)"
    and "ps = map_progress job 0 False [] # ms @ SendJobProgress (job_id job) ''REDUCE'' 0 (job_numReducers job) False False [] #
      reduce_phase (job1\<lparr>job_phase := TaskType_REDUCE\<rparr>) mc reduces 0 @
      [SendJobProgress (job_id job) ''COMPLETED'' 0 0 True False ''Job completed successfully'']"
    by (auto simp: runJob_def and_then_eq_Inr Let_def split: prod.splits)
  with map_phase_unfinished [of maps "(job, 0)"] reduce_phase_unfinished have "\<forall>p \<in> set qs. unfinished p"
    unfolding ps by auto
  from follow_unfinished [OF this, of "[]"] show ?thesis unfolding ps errors [symmetric] by simp
qed

theorem job_shown_as_completed_witness:
  "\<exists>m' job' ps out. runJob demo_job [(1, None), (0, None)] [False, False] newMaster = Inr (m', job', ps) \<and>
     follow_job [] ps = (out @ [Finished ''Job completed successfully''], True) \<and> length (filter is_task_failure out) = 4"
proof -
  have ends: "all_tasks_end demo_job [(1, None), (0, None)] [False, False]"
    using demo_all_end [of "[None, None]" "[False, False]"] by simp
  from runJob_eq [OF this, of newMaster] obtain m' job' ps where
    run: "runJob demo_job [(1, None), (0, None)] [False, False] newMaster = Inr (m', job', ps)" by blast
  from job_shown_as_completed [OF ends run] obtain out where
    "follow_job [] ps = (out @ [Finished ''Job completed successfully''], True)" "length (filter is_task_failure out) = 4"
    by auto
  with run show ?thesis by blast
qed

section \<open>Which files the tools pick\<close>

definition plain :: "string \<Rightarrow> bool" where
  "plain s \<longleftrightarrow> s \<noteq> [] \<and> list_all (\<lambda>c. 33 \<le> byte_of c \<and> byte_of c \<le> 126) s"

lemma blank_spaces_ascii: "list_all (\<lambda>c. byte_of c \<le> 126) s \<Longrightarrow> blank_spaces s = s"
  by (induction s rule: blank_spaces.induct) (auto simp: unicode_space2_def unicode_space3_def)

lemma plain_no_space: "plain s \<Longrightarrow> list_all (\<lambda>c. \<not> is_space c) s"
proof -
  have "byte_of (CHR '' '') = 32" by code_simp
  then show "plain s \<Longrightarrow> ?thesis" by (auto simp: plain_def list_all_iff is_space_def)
qed

lemma plain_dec_str: "plain (dec_str n)"
proof -
  have "33 \<le> byte_of c \<and> byte_of c \<le> 126" if "is_digit c" for c using that by (auto simp: is_digit_def byte_of_def)
  then show ?thesis using dec_str_digits [of n] by (simp add: plain_def list_all_iff)
qed

lemma runs_of_word: "list_all P a \<Longrightarrow> runs_of P cur (a @ s) = runs_of P (cur @ a) s"
  by (induction a arbitrary: cur) auto

lemma fields_of_two: "plain a \<Longrightarrow> plain b \<Longrightarrow> fields_of (a @ CHR '' '' # b) = [a, b]"
proof -
  assume a: "plain a" and b: "plain b"
  have "byte_of (CHR '' '') = 32" by code_simp
  then have "blank_spaces (a @ CHR '' '' # b) = a @ CHR '' '' # b"
    using a b by (intro blank_spaces_ascii) (auto simp: plain_def list_all_iff)
  moreover have "is_space (CHR '' '')" by (simp add: is_space_def)
  moreover have "runs_of (\<lambda>c. \<not> is_space c) [] (b @ []) = [b]"
    using b by (subst runs_of_word) (auto simp: plain_no_space, simp add: plain_def)
  ultimately show ?thesis using a runs_of_word [OF plain_no_space [OF a], of "[]"]
    by (simp add: fields_of_def) (simp add: plain_def)
qed

lemma trim_space_two: "plain a \<Longrightarrow> plain b \<Longrightarrow> trim_space (a @ CHR '' '' # b) = a @ CHR '' '' # b"
proof -
  assume a: "plain a" and b: "plain b"
  let ?s = "a @ CHR '' '' # b"
  have "byte_of (CHR '' '') = 32" by code_simp
  then have blank: "blank_spaces ?s = ?s" using a b by (intro blank_spaces_ascii) (auto simp: plain_def list_all_iff)
  have "\<not> is_space (hd a)" "\<not> is_space (last b)" "a \<noteq> []" "b \<noteq> []"
    using plain_no_space [OF a] plain_no_space [OF b] a b by (auto simp: plain_def list_all_iff)
  then have "takeWhile is_space ?s = []" "takeWhile is_space (rev ?s) = []"
    by (auto simp: takeWhile_eq_Nil_iff hd_append hd_rev)
  then show ?thesis by (simp add: trim_space_def blank)
qed

lemma listed_line: "plain name \<Longrightarrow> listed_file (dec_str n @ CHR '' '' # name) = Some name"
proof -
  assume name: "plain name"
  let ?l = "dec_str n @ CHR '' '' # name"
  have trim: "trim_space ?l = ?l" and fs: "fields_of ?l = [dec_str n, name]"
    using trim_space_two [OF plain_dec_str name] fields_of_two [OF plain_dec_str name] by simp_all
  have "\<exists>c \<in> set [?l ! 0]. is_digit c" using dec_str_digits [of n] plain_dec_str [of n] by (cases "dec_str n") (auto simp: plain_def)
  then have "?l \<noteq> ''LIST''" "?l \<noteq> ''no files were found.''" by (auto simp: is_digit_def)
  then show ?thesis by (simp add: listed_file_def trim fs Let_def)
qed

lemma path_base_file: "name \<noteq> [] \<Longrightarrow> CHR ''/'' \<notin> set name \<Longrightarrow> path_base (dir @ CHR ''/'' # name) = name"
proof -
  assume n: "name \<noteq> []" "CHR ''/'' \<notin> set name"
  then have "last name \<noteq> CHR ''/''" by (metis last_in_set)
  with n have "dropWhile (\<lambda>c. c = CHR ''/'') (rev (dir @ CHR ''/'' # name)) = rev (dir @ CHR ''/'' # name)"
    by (cases "rev name") (auto simp: last_rev)
  moreover have "takeWhile (\<lambda>c. c \<noteq> CHR ''/'') (rev name @ CHR ''/'' # rev dir) = rev name"
    using n by (simp add: takeWhile_append)
  ultimately show ?thesis by (simp add: path_base_def Let_def)
qed

lemma dash_prefix: "CHR ''-'' \<notin> set a \<Longrightarrow> CHR ''-'' \<notin> set b \<Longrightarrow> has_prefix (a @ CHR ''-'' # s) (b @ ''-'') \<longleftrightarrow> a = b"
proof (induction a arbitrary: b)
  case Nil
  then show ?case by (cases b) (auto simp: has_prefix_def)
next
  case (Cons x a)
  then show ?case by (cases b) (auto simp: has_prefix_def)
qed

lemma result_name:
  assumes "ta_jobId task = dec_str j"
  shows "path_base (result_path task) = ''res-'' @ dec_str j @ CHR ''-'' # dec_str (unat (ta_reducerId task))"
proof -
  have "result_path task = (''/bigdata/students/whsiao5/mr/'' @ dec_str j) @ CHR ''/'' #
      (''res-'' @ dec_str j @ CHR ''-'' # dec_str (unat (ta_reducerId task)))"
    using assms by (simp add: result_path_def)
  then show ?thesis using dec_str_digits digit_not_special by (simp only:, intro path_base_file) fastforce+
qed

text \<open>The tools find a job's results. From the listing of the DFS client they pick exactly the files whose names have
  the job's prefix, in the order of the listing, whatever else is stored; and the name under which a reduce task uploads its result
  has the prefix of its own job and of no other.\<close>

lemma results_found:
  assumes "\<forall>f \<in> set fs. plain (fi_name f)" and "ta_jobId task = dec_str j'"
  shows "result_files (dec_str j) (write_lines id (''LIST'' # list_lines fs)) =
      filter (\<lambda>name. has_prefix name (result_prefix (dec_str j))) (map fi_name fs) \<and>
    (has_prefix (path_base (result_path task)) (result_prefix (dec_str j)) \<longleftrightarrow> j' = j)"
proof
  have "nl \<notin> set (fi_name f)" if "f \<in> set fs" for f
    using assms(1) that by (fastforce simp: plain_def list_all_iff byte_of_def)
  moreover have "nl \<notin> set (dec_str n)" for n using dec_str_digits [of n] digit_not_special by blast
  ultimately have "\<forall>l \<in> set (''LIST'' # list_lines fs). nl \<notin> set l" by (auto simp: list_lines_def)
  then have lines: "split_on nl (write_lines id (''LIST'' # list_lines fs)) = ''LIST'' # list_lines fs @ [[]]"
    by (simp add: split_on_lines del: write_lines_Cons)
  have skip: "listed_file ''LIST'' = None" "listed_file ''no files were found.'' = None" "listed_file [] = None" by code_simp+
  have "List.map_filter listed_file (map (\<lambda>f. dec_str (unat (fi_size f)) @ CHR '' '' # fi_name f) fs) = map fi_name fs"
    using assms(1) by (induction fs) (simp_all add: listed_line List.map_filter_def)
  then have "List.map_filter listed_file (''LIST'' # list_lines fs @ [[]]) = map fi_name fs"
    by (simp add: list_lines_def List.map_filter_def skip)
  then show "result_files (dec_str j) (write_lines id (''LIST'' # list_lines fs)) =
      filter (\<lambda>name. has_prefix name (result_prefix (dec_str j))) (map fi_name fs)"
    by (simp only: result_files_def lines)
  have dash: "CHR ''-'' \<notin> set (dec_str n)" for n
    using dec_str_digits [of n] by (auto simp: is_digit_def)
  have "has_prefix (''res-'' @ x) (''res-'' @ y) = has_prefix x y" for x y by (simp add: has_prefix_def)
  then have "has_prefix (path_base (result_path task)) (result_prefix (dec_str j)) \<longleftrightarrow> dec_str j' = dec_str j"
    unfolding result_name [OF assms(2)] result_prefix_def using dash_prefix [OF dash dash, of j' _ j] by simp
  then show "has_prefix (path_base (result_path task)) (result_prefix (dec_str j)) \<longleftrightarrow> j' = j" by (simp add: dec_str_inj)
qed

theorem results_found_witness:
  "result_files (dec_str 7) (write_lines id (''LIST'' # list_lines
       [zero_FileInfo\<lparr>fi_name := ''res-7-0'', fi_size := 5\<rparr>, zero_FileInfo\<lparr>fi_name := ''log.txt'', fi_size := 9\<rparr>])) = [''res-7-0'']"
proof -
  have d: "dec_str 7 = ''7''" by code_simp
  let ?t = "\<lparr>ta_jobId = dec_str 7, ta_taskId = [], ta_type = TaskType_REDUCE, ta_inputFile = [], ta_chunkId = 0, ta_jobBinary = [],
     ta_numReducers = 1, ta_reducerId = 0, ta_mapTaskInfo = Map.empty\<rparr>"
  have "plain ''res-7-0'' \<and> plain ''log.txt''" by code_simp
  with results_found [of "[zero_FileInfo\<lparr>fi_name := ''res-7-0'', fi_size := 5\<rparr>, zero_FileInfo\<lparr>fi_name := ''log.txt'', fi_size := 9\<rparr>]" ?t 7 7]
  show ?thesis by (simp add: d has_prefix_def result_prefix_def)
qed

end
