(* ===== verification/Framing.thy ===== *)
theory Framing
  imports Prelude
begin

text \<open>
  Messages on a connection (\<open>dfs/messages/message_handler.go\<close> and \<open>mapreduce/messages/message_handler.go\<close>, which have
  the same code): the 8-byte little-endian length prefix, the loops \<open>ReadN\<close> and \<open>WriteN\<close>, \<open>Send\<close> and \<open>Receive\<close>. The
  protobuf library is a parameter: \<open>marshal\<close> is the serialisation of a message, \<open>None\<close> if it has none, and
  \<open>unmarshal\<close> its reading, \<open>None\<close> for bytes that do not parse.
\<close>

section \<open>Reading and writing\<close>

text \<open>
  What the other side sent arrives in segments; behind the last one a read fails. A read takes at most what is
  left of the first segment.
\<close>

function (sequential) ReadN :: "nat \<Rightarrow> bytes list \<Rightarrow> (bytes \<times> bytes list) option" where
  "ReadN 0 segs = Some ([], segs)"
| "ReadN n [] = None"
| "ReadN n (seg # segs) =
     (let got = take n seg; left = drop n seg in
      map_option (\<lambda>(bs, segs). (got @ bs, segs)) (ReadN (n - length got) (if left = [] then segs else left # segs)))"
  by pat_completeness auto
termination
  by (relation "measure (\<lambda>(n, segs). n + length segs)") (auto split: if_splits)

text \<open>
  Each write takes some bytes of the buffer; behind the last given number a write fails. The result is what was
  taken and whether all of it was.
\<close>

fun WriteN :: "nat list \<Rightarrow> bytes \<Rightarrow> bytes \<times> nat list \<times> bool" where
  "WriteN taken [] = ([], taken, True)"
| "WriteN [] (b # buf) = ([], [], False)"
| "WriteN (n # taken) (b # buf) =
     (case WriteN taken (drop n (b # buf)) of (bs, rest, ok) \<Rightarrow> (take n (b # buf) @ bs, rest, ok))"

section \<open>The prefix\<close>

text \<open>\<open>binary.LittleEndian.PutUint64\<close> and \<open>Uint64\<close>.\<close>

fun le_bytes :: "nat \<Rightarrow> nat \<Rightarrow> bytes" where
  "le_bytes 0 n = []"
| "le_bytes (Suc k) n = char_of n # le_bytes k (n div 256)"

fun le_value :: "bytes \<Rightarrow> nat" where
  "le_value [] = 0"
| "le_value (b # bs) = of_char b + 256 * le_value bs"

definition PutUint64 :: "u64 \<Rightarrow> bytes" where
  "PutUint64 v = le_bytes 8 (unat v)"

definition Uint64 :: "bytes \<Rightarrow> u64" where
  "Uint64 prefix = word_of_nat (le_value prefix)"

section \<open>Messages\<close>

definition frame :: "bytes \<Rightarrow> bytes" where
  "frame serialized = PutUint64 (word_of_nat (length serialized)) @ serialized"

text \<open>\<open>Send\<close>: what goes out, and whether it reports success.\<close>

definition Send :: "('w \<Rightarrow> bytes option) \<Rightarrow> nat list \<Rightarrow> 'w \<Rightarrow> bytes \<times> bool" where
  "Send marshal taken w = (case marshal w of
      None \<Rightarrow> ([], False)
    | Some serialized \<Rightarrow> (case WriteN taken (PutUint64 (word_of_nat (length serialized))) of
        (out, taken, ok) \<Rightarrow> if \<not> ok then (out, False)
          else (case WriteN taken serialized of (out', _, ok') \<Rightarrow> (out @ out', ok'))))"

text \<open>
  \<open>Receive\<close>: \<open>None\<close> is a returned error. A slice longer than \<open>mem\<close>, the most the runtime can allocate, ends
  the process.
\<close>

definition Receive :: "(bytes \<Rightarrow> 'w option) \<Rightarrow> nat \<Rightarrow> bytes list \<Rightarrow> ('w \<times> bytes list) option result" where
  "Receive unmarshal mem segs = (case ReadN 8 segs of
      None \<Rightarrow> Inr None
    | Some (prefix, segs) \<Rightarrow>
        let payloadSize = unat (Uint64 prefix) in
        if payloadSize > mem then Inl Panic
        else Inr (case ReadN payloadSize segs of
            None \<Rightarrow> None
          | Some (payload, segs) \<Rightarrow> map_option (\<lambda>w. (w, segs)) (unmarshal payload)))"

text \<open>Several messages one after the other, as the connection loops receive them.\<close>

fun Receive_many :: "(bytes \<Rightarrow> 'w option) \<Rightarrow> nat \<Rightarrow> nat \<Rightarrow> bytes list \<Rightarrow> ('w list \<times> bytes list) option result" where
  "Receive_many unmarshal mem 0 segs = Inr (Some ([], segs))"
| "Receive_many unmarshal mem (Suc n) segs = and_then (Receive unmarshal mem segs) (\<lambda>r. case r of
      None \<Rightarrow> Inr None
    | Some (w, segs) \<Rightarrow> and_then (Receive_many unmarshal mem n segs) (\<lambda>r.
        Inr (map_option (\<lambda>(ws, segs). (w # ws, segs)) r)))"

section \<open>Lemmas\<close>

lemma ReadN_enough: "n \<le> length (concat segs) \<Longrightarrow>
    \<exists>segs'. ReadN n segs = Some (take n (concat segs), segs') \<and> concat segs' = drop n (concat segs)"
proof (induction n segs rule: ReadN.induct)
  case (3 n seg segs)
  let ?left = "drop (Suc n) seg"
  have len: "Suc n - length (take (Suc n) seg) \<le> length (concat (if ?left = [] then segs else ?left # segs))"
    using "3.prems" by auto
  from "3.IH" [OF refl refl len] obtain segs' where
    IH: "ReadN (Suc n - length (take (Suc n) seg)) (if ?left = [] then segs else ?left # segs) =
      Some (take (Suc n - length (take (Suc n) seg)) (concat (if ?left = [] then segs else ?left # segs)), segs')"
    "concat segs' = drop (Suc n - length (take (Suc n) seg)) (concat (if ?left = [] then segs else ?left # segs))"
    by blast
  show ?case
  proof (cases "?left = []")
    case True
    then show ?thesis using IH by (simp add: Let_def)
  next
    case False
    then show ?thesis using IH by (auto simp: Let_def)
  qed
qed auto

lemma ReadN_short: "length (concat segs) < n \<Longrightarrow> ReadN n segs = None"
proof (induction n segs rule: ReadN.induct)
  case (3 n seg segs)
  have "length (concat (if drop (Suc n) seg = [] then segs else drop (Suc n) seg # segs)) < Suc n - length (take (Suc n) seg)"
    using "3.prems" by auto
  with "3.IH" [OF refl refl] show ?case by (simp add: Let_def)
qed auto

lemma length_le_bytes [simp]: "length (le_bytes k n) = k"
  by (induction k arbitrary: n) auto

lemma length_PutUint64 [simp]: "length (PutUint64 v) = 8"
  by (simp add: PutUint64_def)

lemma le_value_bytes: "n < 256 ^ k \<Longrightarrow> le_value (le_bytes k n) = n"
  by (induction k arbitrary: n) (auto simp: less_mult_imp_div_less mult.commute)

lemma Uint64_PutUint64 [simp, wire_simps]: "Uint64 (PutUint64 v) = v"
proof -
  have "unat v < 256 ^ 8" using unsigned_less [of v, where ?'a = nat] by simp
  then show ?thesis by (simp add: Uint64_def PutUint64_def le_value_bytes)
qed

lemma WriteN_result:
  "WriteN taken buf = (out, rest, ok) \<Longrightarrow> \<exists>n. out = take n buf \<and> (if ok then out = buf else n < length buf)"
proof (induction taken buf arbitrary: out rest ok rule: WriteN.induct)
  case (3 n taken b buf)
  from "3.prems" obtain bs where out: "out = take n (b # buf) @ bs" "WriteN taken (drop n (b # buf)) = (bs, rest, ok)"
    by (auto split: prod.splits)
  from "3.IH" [OF this(2)] obtain m where m: "bs = take m (drop n (b # buf))"
    "if ok then bs = drop n (b # buf) else m < length (drop n (b # buf))" by blast
  have "out = take (n + m) (b # buf)" unfolding out(1) m(1) by (simp only: take_add)
  moreover have "if ok then out = b # buf else n + m < length (b # buf)"
    using m(2) out(1) append_take_drop_id [of n "b # buf"] by (cases ok) (simp_all del: take_Suc_Cons drop_Suc_Cons)
  ultimately show ?case by blast
qed (auto intro: exI [of _ 0])

lemma Receive_frame:
  assumes un: "unmarshal bs = Some w" and mem: "length bs \<le> mem" and len: "length bs < 2 ^ 64"
    and segs: "concat segs = frame bs @ rest"
  shows "\<exists>segs'. Receive unmarshal mem segs = Inr (Some (w, segs')) \<and> concat segs' = rest"
proof -
  let ?p = "PutUint64 (word_of_nat (length bs))"
  from ReadN_enough [of 8 segs] segs obtain segs1 where
    p: "ReadN 8 segs = Some (?p, segs1)" "concat segs1 = bs @ rest" by (auto simp: frame_def)
  have size: "unat (Uint64 ?p) = length bs" using len by (simp add: unat_of_nat)
  from ReadN_enough [of "length bs" segs1] p(2) obtain segs2 where
    "ReadN (length bs) segs1 = Some (bs, segs2)" "concat segs2 = rest" by auto
  then show ?thesis using p(1) size mem un by (simp add: Receive_def)
qed

section \<open>Properties\<close>

text \<open>C14: messages survive the connection however it cuts them: what was sent as frames one after the other, followed by
  other bytes, is received as the same messages in the same order, and exactly the other bytes are left for whoever
  reads the connection next - the chunk data behind a store request, for instance.\<close>

theorem frames_round_trip:
  assumes lib: "\<And>w. w \<in> set ws \<Longrightarrow> unmarshal (ser w) = Some w"
    and fit: "\<forall>w \<in> set ws. length (ser w) \<le> mem \<and> length (ser w) < 2 ^ 64"
    and segs: "concat segs = concat (map (frame \<circ> ser) ws) @ rest"
  shows "\<exists>segs'. Receive_many unmarshal mem (length ws) segs = Inr (Some (ws, segs')) \<and> concat segs' = rest"
  using assms
proof (induction ws arbitrary: segs)
  case (Cons w ws)
  have un: "unmarshal (ser w) = Some w" and mem: "length (ser w) \<le> mem" and len: "length (ser w) < 2 ^ 64"
    and segs: "concat segs = frame (ser w) @ concat (map (frame \<circ> ser) ws) @ rest" using Cons.prems by (simp_all add: comp_def)
  from Receive_frame [of unmarshal "ser w", OF this(1-3), of segs, OF this(4)] obtain segs1 where
    "Receive unmarshal mem segs = Inr (Some (w, segs1))" "concat segs1 = concat (map (frame \<circ> ser) ws) @ rest" by blast
  moreover from Cons.IH [OF _ _ this(2)] Cons.prems(1,2) obtain segs2 where
    "Receive_many unmarshal mem (length ws) segs1 = Inr (Some (ws, segs2))" "concat segs2 = rest" by auto
  ultimately show ?case by auto
qed simp

theorem frames_round_trip_witness:
  "\<exists>segs'. Receive_many Some 100 2 [take 3 (frame ''ab''), drop 3 (frame ''ab'') @ frame ''c'' @ ''x'', ''yz''] =
     Inr (Some ([''ab'', ''c''], segs')) \<and> concat segs' = ''xyz''"
proof -
  have "concat [take 3 (frame ''ab''), drop 3 (frame ''ab'') @ frame ''c'' @ ''x'', ''yz''] =
      concat (map (frame \<circ> id) [''ab'', ''c'']) @ ''xyz''"
    by (simp add: append_take_drop_id [of 3, symmetric] del: append_take_drop_id) (simp flip: append_assoc)
  then have "\<exists>segs'. Receive_many Some 100 (length [''ab'', ''c'']) [take 3 (frame ''ab''), drop 3 (frame ''ab'') @ frame ''c'' @ ''x'', ''yz''] =
     Inr (Some ([''ab'', ''c''], segs')) \<and> concat segs' = ''xyz''"
    by (intro frames_round_trip [where ser = id]) simp_all
  moreover have "length [''ab'', ''c''] = 2" by simp
  ultimately show ?thesis by (simp only:)
qed

text \<open>No part of a message is taken for a message. A \<open>Send\<close> that reports success has put the whole frame on the
  connection; one that fails has put a proper part of it there, and if the connection then ends, the receiver gets an
  error, however the bytes were cut.\<close>

lemma send_all_or_error:
  assumes ser: "marshal w = Some bs" and fit: "length bs \<le> mem" "length bs < 2 ^ 64"
    and send: "Send marshal taken w = (out, ok)"
  shows "(ok \<longrightarrow> out = frame bs) \<and>
    (\<not> ok \<longrightarrow> (\<exists>n < length (frame bs). out = take n (frame bs)) \<and>
      (\<forall>segs. concat segs = out \<longrightarrow> Receive unmarshal mem segs = Inr None))"
proof -
  let ?p = "PutUint64 (word_of_nat (length bs))"
  have part: "\<not> ok \<longrightarrow> (\<exists>n < length (frame bs). out = take n (frame bs))" and whole: "ok \<longrightarrow> out = frame bs"
  proof -
    obtain o1 rest1 ok1 where w1: "WriteN taken ?p = (o1, rest1, ok1)" by (cases "WriteN taken ?p")
    obtain o2 rest2 ok2 where w2: "WriteN rest1 bs = (o2, rest2, ok2)" by (cases "WriteN rest1 bs")
    obtain n1 where n1: "o1 = take n1 ?p" "if ok1 then o1 = ?p else n1 < length ?p"
      using WriteN_result [OF w1] by blast
    obtain n2 where n2: "o2 = take n2 bs" "if ok2 then o2 = bs else n2 < length bs"
      using WriteN_result [OF w2] by blast
    have res: "(out, ok) = (if \<not> ok1 then (o1, False) else (o1 @ o2, ok2))"
      using send by (cases ok1) (auto simp: Send_def ser w1 w2)
    show "ok \<longrightarrow> out = frame bs" using res n1(2) n2(2) by (auto simp: frame_def split: if_splits)
    show "\<not> ok \<longrightarrow> (\<exists>n < length (frame bs). out = take n (frame bs))"
    proof (cases ok1)
      case True
      then show ?thesis using res n1 n2 by (auto simp: frame_def intro!: exI [of _ "8 + n2"] split: if_splits)
    next
      case False
      then show ?thesis using res n1 by (auto simp: frame_def intro!: exI [of _ n1])
    qed
  qed
  moreover have "Receive unmarshal mem segs = Inr None" if "concat segs = take n (frame bs)" "n < length (frame bs)" for segs n
  proof (cases "n < 8")
    case True
    then show ?thesis using that by (simp add: Receive_def ReadN_short frame_def)
  next
    case False
    from ReadN_enough [of 8 segs] that False obtain segs1 where
      p: "ReadN 8 segs = Some (?p, segs1)" "concat segs1 = take (n - 8) bs" by (auto simp: frame_def min_def)
    have "unat (Uint64 ?p) = length bs" using fit(2) by (simp add: unat_of_nat)
    moreover have "ReadN (length bs) segs1 = None" using p(2) that(2) False by (intro ReadN_short) (auto simp: frame_def)
    ultimately show ?thesis using p(1) fit(1) by (simp add: Receive_def)
  qed
  ultimately show ?thesis by blast
qed

theorem send_all_or_error_witness:
  "Send Some [8, 1] ''ab'' = (take 9 (frame ''ab''), False) \<and> Receive Some 100 [take 9 (frame ''ab'')] = Inr None"
proof -
  have send: "Send Some [8, 1] ''ab'' = (take 9 (frame ''ab''), False)" by code_simp
  from send_all_or_error [OF refl _ _ send, of 100 Some] send show ?thesis by simp
qed

text \<open>A length prefix is believed before anything behind it has arrived. Eight bytes that announce more than can be
  allocated end the receiving process, whatever follows them.\<close>

lemma huge_prefix_panics:
  assumes "mem < unat v" and "concat segs = PutUint64 v @ rest"
  shows "Receive unmarshal mem segs = Inl Panic"
proof -
  from ReadN_enough [of 8 segs] assms(2) obtain segs1 where "ReadN 8 segs = Some (PutUint64 v, segs1)" by auto
  with assms(1) show ?thesis by (simp add: Receive_def)
qed

theorem huge_prefix_panics_witness: "Receive Some (2 ^ 48) [PutUint64 18446744073709551615] = Inl Panic"
  by (rule huge_prefix_panics [of _ 18446744073709551615 _ "[]"]) simp_all

end
