(* ===== verification/GoFloat.thy ===== *)
theory GoFloat
  imports GoLib "HOL-Library.Log_Nat"
begin

text \<open>
  Go's \<open>float64\<close>, as far as the source computes with it: finite values are rational numbers, every operation rounds its
  exact result to the nearest one with 53 significant bits, ties to even. Zero has no sign here; no operation of
  the source can tell.
\<close>

section \<open>Rounding to the nearest\<close>

definition round_even :: "rat \<Rightarrow> int" where
  "round_even x = (let n = \<lfloor>x\<rfloor>; d = x - of_int n in if d < 1 / 2 \<or> d = 1 / 2 \<and> even n then n else n + 1)"

lemma round_even_int [simp]: "round_even (of_int n) = n"
  by (simp add: round_even_def)

lemma round_even_near: "\<bar>of_int (round_even x) - x\<bar> \<le> 1 / 2"
proof -
  define n where "n = \<lfloor>x\<rfloor>"
  have "of_int n \<le> x" "x < of_int n + 1" unfolding n_def by linarith+
  then show ?thesis by (auto simp: round_even_def Let_def abs_if simp flip: n_def)
qed

lemma round_even_mono: "x \<le> y \<Longrightarrow> round_even x \<le> round_even y"
proof -
  assume le: "x \<le> y"
  show ?thesis
  proof (cases "\<lfloor>x\<rfloor> = \<lfloor>y\<rfloor>")
    case True
    with le show ?thesis by (auto simp: round_even_def Let_def)
  next
    case False
    then have "\<lfloor>x\<rfloor> + 1 \<le> \<lfloor>y\<rfloor>" using floor_mono [OF le] by linarith
    then show ?thesis by (auto simp: round_even_def Let_def)
  qed
qed

text \<open>The exponent of a positive number: the power of two it lies above.\<close>

definition expo :: "rat \<Rightarrow> int" where
  "expo x = (case quotient_of x of (p, q) \<Rightarrow> let k = bitlen p - bitlen q in if 2 powi k \<le> x then k else k - 1)"

lemma bitlen_powi:
  assumes "0 < p"
  shows "2 powi (bitlen p - 1) \<le> (of_int p :: rat)" "of_int p < (2 powi bitlen p :: rat)"
proof -
  have b: "2 ^ nat (bitlen p - 1) \<le> p" "p < 2 ^ nat (bitlen p)" "0 < bitlen p"
    using bitlen_bounds [OF assms] assms by (auto simp: bitlen_nonneg less_le bitlen_eq_zero_iff)
  have "(2 :: rat) ^ nat (bitlen p - 1) \<le> of_int p" using b(1) by (metis of_int_le_iff of_int_numeral of_int_power)
  then show "2 powi (bitlen p - 1) \<le> (of_int p :: rat)" using b(3) by (simp add: power_int_def)
  have "of_int p < (2 :: rat) ^ nat (bitlen p)" using b(2) by (metis of_int_less_iff of_int_numeral of_int_power)
  then show "of_int p < (2 powi bitlen p :: rat)" using b(3) by (simp add: power_int_def)
qed

lemma expo_bounds:
  assumes "0 < x"
  shows "2 powi expo x \<le> x \<and> x < 2 powi (expo x + 1)"
proof -
  obtain p q where pq: "quotient_of x = (p, q)" by (cases "quotient_of x") auto
  have q: "0 < q" and x: "x = of_int p / of_int q"
    using quotient_of_denom_pos [OF pq] quotient_of_div [OF pq] by simp_all
  have p: "0 < p" using assms q by (simp add: x zero_less_divide_iff)
  let ?k = "bitlen p - bitlen q"
  have "x < 2 powi bitlen p / 2 powi (bitlen q - 1)"
    unfolding x by (rule frac_less) (use bitlen_powi [OF p] bitlen_powi [OF q] p in auto)
  also have "\<dots> = 2 powi (?k + 1)" by (simp flip: power_int_diff add: algebra_simps)
  finally have up: "x < 2 powi (?k + 1)" .
  have "2 powi (bitlen p - 1) / 2 powi bitlen q \<le> x"
    unfolding x by (rule frac_le) (use bitlen_powi [OF p] bitlen_powi [OF q] q p in auto)
  moreover have "(2 powi (bitlen p - 1) / 2 powi bitlen q :: rat) = 2 powi (?k - 1)"
    by (simp flip: power_int_diff add: algebra_simps)
  ultimately have low: "2 powi (?k - 1) \<le> x" by simp
  show ?thesis using up low by (simp add: expo_def pq Let_def)
qed

section \<open>Rounding to 53 bits\<close>

text \<open>The distance of neighbouring values; below \<open>2 ^ -1022\<close> it no longer shrinks.\<close>

definition ulp_exp :: "rat \<Rightarrow> int" where
  "ulp_exp x = max (expo \<bar>x\<bar> - 52) (- 1074)"

definition fl :: "rat \<Rightarrow> rat" where
  "fl x = (if x = 0 then 0 else of_int (round_even (x / 2 powi ulp_exp x)) * 2 powi ulp_exp x)"

lemma fl_zero [simp]: "fl 0 = 0"
  by (simp add: fl_def)

lemma fl_near:
  assumes "2 powi (- 1022) \<le> x"
  shows "\<bar>fl x - x\<bar> \<le> x / 2 ^ 53"
proof -
  have pos: "0 < x" by (rule less_le_trans [OF _ assms]) simp
  note b = expo_bounds [OF pos]
  have "(2 powi (- 1022) :: rat) < 2 powi (expo x + 1)" using assms b by linarith
  then have e: "- 1022 \<le> expo x" using power_int_increasing [of "expo x + 1" "- 1022" "2 :: rat"] by linarith
  then have u: "ulp_exp x = expo x - 52" using pos by (simp add: ulp_exp_def)
  let ?u = "2 powi ulp_exp x :: rat"
  have "\<bar>fl x - x\<bar> = \<bar>of_int (round_even (x / ?u)) - x / ?u\<bar> * ?u"
  proof -
    have "fl x - x = (of_int (round_even (x / ?u)) - x / ?u) * ?u" using pos by (simp add: fl_def left_diff_distrib)
    then show ?thesis by (simp add: abs_mult)
  qed
  also have "\<dots> \<le> 1 / 2 * ?u" by (rule mult_right_mono [OF round_even_near]) simp
  also have "\<dots> = 2 powi expo x / 2 ^ 53" unfolding u by (simp add: power_int_diff)
  also have "\<dots> \<le> x / 2 ^ 53" using b by (simp add: divide_right_mono)
  finally show ?thesis .
qed

text \<open>Integers of 53 bits are values; rounding is monotone.\<close>

lemma expo_less: "0 < x \<Longrightarrow> x < 2 powi e \<Longrightarrow> expo x < e"
proof (rule ccontr)
  assume x: "0 < x" "x < 2 powi e" "\<not> expo x < e"
  then have "(2 powi e :: rat) \<le> 2 powi expo x" by (intro power_int_increasing) auto
  with expo_bounds [OF x(1)] x(2) show False by linarith
qed

lemma expo_mono: "0 < x \<Longrightarrow> x \<le> y \<Longrightarrow> expo x \<le> expo y"
  using expo_bounds [of y] expo_less [of x "expo y + 1"] by force

lemma fl_nat:
  assumes "n < 2 ^ 53"
  shows "fl (of_nat n) = of_nat n"
proof (cases "n = 0")
  case False
  have "of_nat n < (2 powi 53 :: rat)" using assms by (metis of_nat_less_iff of_nat_numeral of_nat_power power_int_numeral)
  then have "expo (of_nat n) < 53" using False by (intro expo_less) simp_all
  then have u: "ulp_exp (of_nat n) \<le> 0" by (simp add: ulp_exp_def)
  let ?u = "ulp_exp (of_nat n)"
  have pw: "(2 powi ?u :: rat) = 1 / 2 ^ nat (- ?u)" using u by (cases "?u = 0") (simp_all add: power_int_def inverse_eq_divide power_one_over)
  have "(of_nat n / 2 powi ?u :: rat) = of_int (int n * 2 ^ nat (- ?u))" by (simp add: pw)
  then have "of_int (round_even (of_nat n / 2 powi ?u)) = (of_nat n / 2 powi ?u :: rat)" by (simp only: round_even_int)
  then show ?thesis using False by (simp add: fl_def)
qed simp

lemma fl_nonneg: "0 \<le> x \<Longrightarrow> 0 \<le> fl x"
  using round_even_mono [of 0 "x / 2 powi ulp_exp x"] round_even_int [of 0] by (auto simp: fl_def)

lemma scaled_bounds:
  assumes "0 < x"
  shows "round_even (x / 2 powi ulp_exp x) \<le> 2 ^ 53 \<and> (- 1074 < ulp_exp x \<longrightarrow> 2 ^ 52 \<le> round_even (x / 2 powi ulp_exp x))"
proof -
  note b = expo_bounds [OF assms]
  let ?u = "ulp_exp x"
  have "x / 2 powi ?u < 2 powi (expo x + 1) / 2 powi ?u" using b by (simp add: divide_strict_right_mono)
  also have "\<dots> = 2 powi (expo x + 1 - ?u)" by (simp add: power_int_diff)
  also have "\<dots> \<le> 2 powi 53" by (rule power_int_increasing) (use assms in \<open>auto simp: ulp_exp_def\<close>)
  finally have "x / 2 powi ?u \<le> of_int (2 ^ 53)" by simp
  then have up: "round_even (x / 2 powi ?u) \<le> 2 ^ 53" using round_even_mono round_even_int by metis
  have low: "2 ^ 52 \<le> round_even (x / 2 powi ?u)" if "- 1074 < ?u"
  proof -
    have u: "?u = expo x - 52" using that assms by (auto simp: ulp_exp_def max_def split: if_splits)
    have "(2 powi 52 :: rat) = 2 powi expo x / 2 powi ?u" by (simp flip: power_int_diff add: u)
    also have "\<dots> \<le> x / 2 powi ?u" using b by (simp add: divide_right_mono)
    finally have "of_int (2 ^ 52) \<le> x / 2 powi ?u" by simp
    then show ?thesis using round_even_mono round_even_int by metis
  qed
  show ?thesis using up low by blast
qed

lemma fl_mono:
  assumes "0 \<le> x" "x \<le> y"
  shows "fl x \<le> fl y"
proof (cases "x = 0")
  case True
  then show ?thesis using assms fl_nonneg by simp
next
  case False
  then have pos: "0 < x" "0 < y" using assms by auto
  have le: "ulp_exp x \<le> ulp_exp y" using expo_mono [OF pos(1) assms(2)] pos by (simp add: ulp_exp_def)
  show ?thesis
  proof (cases "ulp_exp x = ulp_exp y")
    case True
    have "round_even (x / 2 powi ulp_exp x) \<le> round_even (y / 2 powi ulp_exp x)"
      by (rule round_even_mono) (use assms in \<open>simp add: divide_right_mono\<close>)
    then show ?thesis using True pos by (simp add: fl_def mult_right_mono)
  next
    case False
    have "- 1074 \<le> ulp_exp x" by (simp add: ulp_exp_def)
    with le False have lt: "ulp_exp x + 1 \<le> ulp_exp y" "- 1074 < ulp_exp y" by simp_all
    have "fl x \<le> of_int (2 ^ 53) * 2 powi ulp_exp x"
      using scaled_bounds [OF pos(1)] pos unfolding fl_def by (simp only: of_int_le_iff if_False less_imp_neq [symmetric]) simp
    also have "\<dots> = 2 ^ 52 * 2 powi (ulp_exp x + 1)" by (simp add: power_int_add)
    also have "\<dots> \<le> 2 ^ 52 * 2 powi ulp_exp y" by (intro mult_left_mono power_int_increasing lt) simp_all
    also have "\<dots> = of_int (2 ^ 52) * 2 powi ulp_exp y" by simp
    also have "\<dots> \<le> fl y"
      using scaled_bounds [OF pos(2)] pos lt(2) unfolding fl_def by (simp only: of_int_le_iff if_False less_imp_neq [symmetric]) simp
    finally show ?thesis .
  qed
qed

section \<open>Values and operations\<close>

datatype float64 = Finite rat | Inf bool | NaN

text \<open>A rounded result beyond the largest value is infinite; \<open>Inf True\<close> is the positive one.\<close>

definition fl64 :: "rat \<Rightarrow> float64" where
  "fl64 x = (if \<bar>fl x\<bar> < 2 ^ 1024 then Finite (fl x) else Inf (0 < x))"

fun f_sub :: "float64 \<Rightarrow> float64 \<Rightarrow> float64" where
  "f_sub (Finite a) (Finite b) = fl64 (a - b)"
| "f_sub (Finite a) (Inf s) = Inf (\<not> s)"
| "f_sub (Inf s) (Finite b) = Inf s"
| "f_sub (Inf s) (Inf t) = (if s = t then NaN else Inf s)"
| "f_sub x y = NaN"

fun f_mul :: "float64 \<Rightarrow> float64 \<Rightarrow> float64" where
  "f_mul (Finite a) (Finite b) = fl64 (a * b)"
| "f_mul (Finite a) (Inf s) = (if a = 0 then NaN else Inf (s = (0 < a)))"
| "f_mul (Inf s) (Finite b) = (if b = 0 then NaN else Inf (s = (0 < b)))"
| "f_mul (Inf s) (Inf t) = Inf (s = t)"
| "f_mul x y = NaN"

fun f_div :: "float64 \<Rightarrow> float64 \<Rightarrow> float64" where
  "f_div (Finite a) (Finite b) = (if b \<noteq> 0 then fl64 (a / b) else if a = 0 then NaN else Inf (0 < a))"
| "f_div (Finite a) (Inf s) = Finite 0"
| "f_div (Inf s) (Finite b) = Inf (s = (0 \<le> b))"
| "f_div (Inf s) (Inf t) = NaN"
| "f_div x y = NaN"

text \<open>Comparisons with zero; both are false for NaN.\<close>

fun f_positive :: "float64 \<Rightarrow> bool" where
  "f_positive (Finite a) \<longleftrightarrow> 0 < a"
| "f_positive (Inf s) \<longleftrightarrow> s"
| "f_positive NaN \<longleftrightarrow> False"

definition f_is_zero :: "float64 \<Rightarrow> bool" where
  "f_is_zero x \<longleftrightarrow> x = Finite 0"

text \<open>Conversions: an integer is rounded; towards \<open>uint8\<close> the fraction is cut. What does not fit is up to the implementation,
  which is \<open>wild\<close>.\<close>

definition float_of :: "nat \<Rightarrow> float64" where
  "float_of n = fl64 (of_nat n)"

definition trunc_int :: "rat \<Rightarrow> int" where
  "trunc_int x = (if 0 \<le> x then \<lfloor>x\<rfloor> else \<lceil>x\<rceil>)"

definition to_uint8 :: "(float64 \<Rightarrow> 8 word) \<Rightarrow> float64 \<Rightarrow> 8 word" where
  "to_uint8 wild v = (case v of
      Finite x \<Rightarrow> if 0 \<le> trunc_int x \<and> trunc_int x < 256 then word_of_int (trunc_int x) else wild v
    | _ \<Rightarrow> wild v)"

text \<open>\<open>strconv.ParseFloat\<close> with its error ignored: the nearest value of a decimal number; other syntax is an argument.\<close>

definition parse_float :: "(string \<Rightarrow> float64) \<Rightarrow> string \<Rightarrow> float64" where
  "parse_float other s = (if s \<noteq> [] \<and> list_all is_digit s then float_of (digits_val 0 s) else other s)"

section \<open>A percentage\<close>

lemma fl64_small: "0 \<le> x \<Longrightarrow> x \<le> 2 ^ 64 \<Longrightarrow> fl64 x = Finite (fl x)"
proof -
  assume x: "0 \<le> x" "x \<le> 2 ^ 64"
  have "(2 powi (- 1022) :: rat) \<le> 1" by (simp add: power_int_def field_simps)
  then have "\<bar>fl (2 ^ 64) - 2 ^ 64\<bar> \<le> 2 ^ 64 / 2 ^ 53" by (intro fl_near) simp
  then have "fl (2 ^ 64) \<le> 2 ^ 64 + 2 ^ 11" by simp
  with fl_mono [OF x] have "fl x < 2 ^ 1024" by simp
  with fl_nonneg [OF x(1)] show ?thesis by (simp add: fl64_def)
qed

definition percentage :: "nat \<Rightarrow> nat \<Rightarrow> rat" where
  "percentage a b = fl (fl (fl (of_nat a) / fl (of_nat b)) * 100)"

lemma percentage_range:
  assumes "a \<le> b" "0 < b"
  shows "0 \<le> percentage a b \<and> percentage a b \<le> 100"
proof -
  have "fl (of_nat 1) \<le> fl (of_nat b)" by (rule fl_mono) (use assms in \<open>simp_all add: Suc_le_eq\<close>)
  then have b: "1 \<le> fl (of_nat b)" using fl_nat [of 1] by simp
  have q: "0 \<le> fl (of_nat a) / fl (of_nat b)" "fl (of_nat a) / fl (of_nat b) \<le> 1"
    using b fl_nonneg [of "of_nat a"] fl_mono [of "of_nat a" "of_nat b"] assms by (simp_all add: divide_le_eq)
  then have "fl (fl (of_nat a) / fl (of_nat b)) \<le> fl (of_nat 1)" by (intro fl_mono) simp_all
  then have q': "0 \<le> fl (fl (of_nat a) / fl (of_nat b))" "fl (fl (of_nat a) / fl (of_nat b)) \<le> 1"
    using fl_nat [of 1] fl_nonneg [OF q(1)] by simp_all
  have "percentage a b \<le> fl (of_nat 100)" unfolding percentage_def by (rule fl_mono) (use q' in simp_all)
  moreover have "0 \<le> percentage a b" unfolding percentage_def by (rule fl_nonneg) (use q' in simp)
  ultimately show ?thesis using fl_nat [of 100] by simp
qed

lemma f_percentage:
  assumes "a \<le> b" "0 < b" "b < 2 ^ 64"
  shows "f_mul (f_div (float_of a) (float_of b)) (Finite 100) = Finite (percentage a b)"
proof -
  have small: "(of_nat n :: rat) \<le> 2 ^ 64" if "n < 2 ^ 64" for n
    using that by (metis less_imp_le of_nat_le_iff of_nat_numeral of_nat_power)
  have "fl64 (of_nat a) = Finite (fl (of_nat a))" "fl64 (of_nat b) = Finite (fl (of_nat b))"
    using small [of a] small [of b] assms by (simp_all add: fl64_small)
  moreover have b: "1 \<le> fl (of_nat b)"
    using fl_mono [of "of_nat 1" "of_nat b"] fl_nat [of 1] assms by simp
  have q: "0 \<le> fl (of_nat a) / fl (of_nat b)" "fl (of_nat a) / fl (of_nat b) \<le> 1"
    using b fl_nonneg [of "of_nat a"] fl_mono [of "of_nat a" "of_nat b"] assms by (simp_all add: divide_le_eq)
  moreover have "fl64 (fl (of_nat a) / fl (of_nat b)) = Finite (fl (fl (of_nat a) / fl (of_nat b)))"
    using q by (intro fl64_small) simp_all
  moreover have "fl (fl (of_nat a) / fl (of_nat b)) \<le> 1" "0 \<le> fl (fl (of_nat a) / fl (of_nat b))"
    using fl_mono [OF q] fl_nat [of 1] fl_nonneg [OF q(1)] by simp_all
  then have "fl64 (fl (fl (of_nat a) / fl (of_nat b)) * 100) = Finite (percentage a b)"
    unfolding percentage_def by (intro fl64_small) simp_all
  ultimately show ?thesis using b by (simp add: float_of_def)
qed

text \<open>Four roundings stay within a thousandth of the exact percentage.\<close>

lemma fl_factor:
  assumes "2 powi (- 1022) \<le> x"
  shows "(1 - 1 / 2 ^ 53) * x \<le> fl x" "fl x \<le> (1 + 1 / 2 ^ 53) * x"
proof -
  define d where "d = fl x - x"
  have "\<bar>d\<bar> \<le> x / 2 ^ 53" "fl x = x + d" using fl_near [OF assms] by (simp_all add: d_def)
  then show "(1 - 1 / 2 ^ 53) * x \<le> fl x" "fl x \<le> (1 + 1 / 2 ^ 53) * x" by (simp_all add: abs_if split: if_splits)
qed

lemma tiny_powi: "1 / 2 ^ 70 \<le> x \<Longrightarrow> (2 powi (- 1022) :: rat) \<le> x"
proof -
  have "(2 powi (- 1022) :: rat) \<le> 2 powi (- 70)" by (rule power_int_increasing) simp_all
  then show "1 / 2 ^ 70 \<le> x \<Longrightarrow> (2 powi (- 1022) :: rat) \<le> x" by (simp add: power_int_def inverse_eq_divide power_one_over)
qed

lemma percentage_accurate:
  assumes "a \<le> b" "0 < b" "b < 2 ^ 64"
  shows "\<bar>percentage a b - 100 * of_nat a / of_nat b\<bar> \<le> 1 / 1000"
proof (cases "a = 0")
  case False
  let ?u = "1 / 2 ^ 53 :: rat"
  define x y :: rat where "x = of_nat a" and "y = of_nat b"
  have x: "1 \<le> x" "x \<le> y" and y: "1 \<le> y" using False assms by (simp_all add: x_def y_def Suc_le_eq)
  have y64: "y \<le> 2 ^ 64" unfolding y_def using assms(3) by (metis less_imp_le of_nat_le_iff of_nat_numeral of_nat_power)
  define q where "q = x / y"
  have "1 / 2 ^ 64 \<le> 1 / y" using y y64 by (intro divide_left_mono) simp_all
  also have "\<dots> \<le> q" unfolding q_def using x y by (intro divide_right_mono) simp_all
  finally have q: "1 / 2 ^ 64 \<le> q" "q \<le> 1" using x y by (simp_all add: q_def divide_le_eq)
  note fx = fl_factor [OF tiny_powi, of x] and fy = fl_factor [OF tiny_powi, of y]
  have fx: "(1 - ?u) * x \<le> fl x" "fl x \<le> (1 + ?u) * x" by (rule fx; use x in simp)+
  have fy: "(1 - ?u) * y \<le> fl y" "fl y \<le> (1 + ?u) * y" by (rule fy; use y in simp)+
  have "fl x / fl y \<le> ((1 + ?u) * x) / ((1 - ?u) * y)"
    by (rule frac_le) (use fx fy x y in auto)
  then have up1: "fl x / fl y \<le> (1 + ?u) / (1 - ?u) * q" by (simp add: q_def field_simps)
  have "((1 - ?u) * x) / ((1 + ?u) * y) \<le> fl x / fl y"
    by (rule frac_le) (use fx fy x y in \<open>auto intro: less_le_trans [of 0 "(1 - ?u) * y"]\<close>)
  then have low1: "(1 - ?u) / (1 + ?u) * q \<le> fl x / fl y" by (simp add: q_def field_simps)
  have "(1 / 2 ^ 65 :: rat) \<le> (1 - ?u) / (1 + ?u) * (1 / 2 ^ 64)" by simp
  also have "\<dots> \<le> (1 - ?u) / (1 + ?u) * q" using q by (intro mult_left_mono) simp_all
  finally have t: "1 / 2 ^ 65 \<le> fl x / fl y" using low1 by linarith
  have f1: "(1 - ?u) * (fl x / fl y) \<le> fl (fl x / fl y)" "fl (fl x / fl y) \<le> (1 + ?u) * (fl x / fl y)"
    by (rule fl_factor [OF tiny_powi]; rule order_trans [OF _ t]; simp)+
  have "(1 / 2 ^ 66 :: rat) \<le> (1 - ?u) * (1 / 2 ^ 65)" by simp
  also have "\<dots> \<le> (1 - ?u) * (fl x / fl y)" using t by (intro mult_left_mono) simp_all
  finally have "1 / 2 ^ 66 \<le> fl (fl x / fl y)" using f1(1) by (rule order_trans)
  then have t2: "1 / 2 ^ 66 \<le> fl (fl x / fl y) * 100" by (simp add: field_simps)
  have f2: "(1 - ?u) * (fl (fl x / fl y) * 100) \<le> percentage a b" "percentage a b \<le> (1 + ?u) * (fl (fl x / fl y) * 100)"
    unfolding percentage_def x_def [symmetric] y_def [symmetric]
    by (rule fl_factor [OF tiny_powi]; rule order_trans [OF _ t2]; simp)+
  have "(1 + ?u) * (fl (fl x / fl y) * 100) \<le> (1 + ?u) * ((1 + ?u) * ((1 + ?u) / (1 - ?u) * q) * 100)"
    by (intro mult_left_mono mult_right_mono order_trans [OF f1(2)] up1) simp_all
  also have "\<dots> = (1 + ?u) * (1 + ?u) * (1 + ?u) / (1 - ?u) * 100 * q" by simp
  also have "\<dots> \<le> (100 + 1 / 1000) * q" using q by (intro mult_right_mono) simp_all
  finally have up: "percentage a b \<le> (100 + 1 / 1000) * q" using f2 by linarith
  have "(100 - 1 / 1000) * q \<le> (1 - ?u) * (1 - ?u) * (1 - ?u) / (1 + ?u) * 100 * q"
    using q by (intro mult_right_mono) simp_all
  also have "\<dots> = (1 - ?u) * ((1 - ?u) * ((1 - ?u) / (1 + ?u) * q) * 100)" by simp
  also have "\<dots> \<le> (1 - ?u) * (fl (fl x / fl y) * 100)"
    by (intro mult_left_mono mult_right_mono order_trans [OF _ f1(1)] low1) simp_all
  finally have low: "(100 - 1 / 1000) * q \<le> percentage a b" using f2 by linarith
  have "100 * of_nat a / of_nat b = 100 * q" by (simp add: q_def x_def y_def)
  moreover have "(100 + 1 / 1000) * q \<le> 100 * q + 1 / 1000" "100 * q - 1 / 1000 \<le> (100 - 1 / 1000) * q" using q by simp_all
  ultimately show ?thesis using up low unfolding abs_le_iff by linarith
qed (simp add: percentage_def)

end
