(* ===== verification/SysStats.thy ===== *)
theory SysStats
  imports GoFloat
begin

text \<open>
  The load a worker reports (\<open>mapreduce/util/sys_stats.go\<close>): the tick counters of \<open>/proc/stat\<close> and the share of
  ticks that were not idle, and the share of memory \<open>/proc/meminfo\<close> does not call available. What a conversion to \<open>uint8\<close>
  makes of a value that does not fit, and what \<open>ParseFloat\<close> makes of other text than decimal digits, are arguments.
\<close>

record cpuStats =
  Idle :: u64
  Total :: u64

text \<open>The fields from the second on, with their index; what is not a number is passed over.\<close>

fun add_ticks :: "nat \<Rightarrow> string list \<Rightarrow> cpuStats \<Rightarrow> cpuStats" where
  "add_ticks i [] st = st"
| "add_ticks i (f # fs) st = add_ticks (Suc i) fs (case parse_uint 64 f of
      None \<Rightarrow> st
    | Some val \<Rightarrow> st\<lparr>Total := Total st + word_of_nat val,
        Idle := Idle st + (if i = 4 \<or> i = 5 then word_of_nat val else 0)\<rparr>)"

text \<open>\<open>None\<close> is an error; the file's content is \<open>None\<close> if it cannot be opened.\<close>

definition getCpuStats :: "string option \<Rightarrow> cpuStats option" where
  "getCpuStats stat = (case stat of
      None \<Rightarrow> None
    | Some content \<Rightarrow> (case scan_lines 65536 content of
        [] \<Rightarrow> None
      | line # _ \<Rightarrow>
          let fs = fields_of line in
          if length fs < 5 \<or> hd fs \<noteq> ''cpu'' then None
          else Some (add_ticks 1 (tl fs) \<lparr>Idle = 0, Total = 0\<rparr>)))"

definition GetCpuUsage :: "(float64 \<Rightarrow> 8 word) \<Rightarrow> string option \<Rightarrow> string option \<Rightarrow> 8 word option" where
  "GetCpuUsage wild before after = (case getCpuStats before of
      None \<Rightarrow> None
    | Some stat1 \<Rightarrow> (case getCpuStats after of
        None \<Rightarrow> None
      | Some stat2 \<Rightarrow>
          let idleDelta = Idle stat2 - Idle stat1; totalDelta = Total stat2 - Total stat1 in
          if totalDelta = 0 then Some 0
          else Some (to_uint8 wild
            (f_mul (f_div (float_of (unat (totalDelta - idleDelta))) (float_of (unat totalDelta))) (Finite 100)))))"

text \<open>The loop over the lines of \<open>/proc/meminfo\<close>: total and available memory, until both are known.\<close>

fun scan_meminfo :: "(string \<Rightarrow> float64) \<Rightarrow> string list \<Rightarrow> float64 \<Rightarrow> float64 \<Rightarrow> float64 \<times> float64" where
  "scan_meminfo other [] memTotal memAvailable = (memTotal, memAvailable)"
| "scan_meminfo other (line # lines) memTotal memAvailable = (case fields_of line of
      f0 # f1 # _ \<Rightarrow>
        let memTotal' = if f0 = ''MemTotal:'' then parse_float other f1 else memTotal;
            memAvailable' = if f0 \<noteq> ''MemTotal:'' \<and> f0 = ''MemAvailable:'' then parse_float other f1 else memAvailable
        in if f_positive memTotal' \<and> f_positive memAvailable' then (memTotal', memAvailable')
           else scan_meminfo other lines memTotal' memAvailable'
    | _ \<Rightarrow> scan_meminfo other lines memTotal memAvailable)"

definition GetMemoryUsage :: "(string \<Rightarrow> float64) \<Rightarrow> (float64 \<Rightarrow> 8 word) \<Rightarrow> string option \<Rightarrow> 8 word option" where
  "GetMemoryUsage other wild meminfo = (case meminfo of
      None \<Rightarrow> None
    | Some content \<Rightarrow> (case scan_meminfo other (scan_lines 65536 content) (Finite 0) (Finite 0) of
        (memTotal, memAvailable) \<Rightarrow>
          if f_is_zero memTotal then None
          else Some (to_uint8 wild (f_mul (f_div (f_sub memTotal memAvailable) memTotal) (Finite 100)))))"

section \<open>Percentages\<close>

text \<open>\<open>p\<close> is \<open>100 * a / b\<close> with its fraction cut, up to a thousandth.\<close>

definition percent_of :: "8 word \<Rightarrow> nat \<Rightarrow> nat \<Rightarrow> bool" where
  "percent_of p a b \<longleftrightarrow> p \<le> 100 \<and> of_nat (unat p) \<le> 100 * of_nat a / of_nat b + (1 / 1000 :: rat) \<and>
     100 * of_nat a / of_nat b < of_nat (unat p) + 1 + (1 / 1000 :: rat)"

lemma to_uint8_percentage:
  assumes "a \<le> b" "0 < b" "b < 2 ^ 64"
  shows "percent_of (to_uint8 wild (Finite (percentage a b))) a b"
proof -
  let ?v = "percentage a b"
  have r: "0 \<le> ?v" "?v \<le> 100" using percentage_range [OF assms(1,2)] by simp_all
  obtain n where n: "trunc_int ?v = int n" "n \<le> 100"
  proof
    show "trunc_int ?v = int (nat \<lfloor>?v\<rfloor>)" using r by (simp add: trunc_int_def)
    show "nat \<lfloor>?v\<rfloor> \<le> 100" using r(2) by (simp add: floor_le_iff nat_le_iff)
  qed
  have fl: "of_nat n \<le> ?v" "?v < of_nat n + 1"
    using n(1) r(1) floor_correct [of ?v] by (simp_all add: trunc_int_def)
  have u: "to_uint8 wild (Finite ?v) = word_of_nat n" using n by (simp add: to_uint8_def)
  have un: "unat (word_of_nat n :: 8 word) = n" using n(2) by (simp add: unat_of_nat)
  have "(word_of_nat n :: 8 word) \<le> 100" using n(2) un by (simp add: word_le_nat_alt)
  then show ?thesis using percentage_accurate [OF assms] fl unfolding percent_of_def u un abs_le_iff by linarith
qed

text \<open>The counters of a line: all columns are ticks, the fourth and the fifth are idle ones.\<close>

lemma add_ticks_busy:
  "5 < i \<Longrightarrow> \<forall>n \<in> set ns. n < 2 ^ 64 \<Longrightarrow>
    add_ticks i (map dec_str ns) st = st\<lparr>Total := Total st + sum_list (map word_of_nat ns)\<rparr>"
proof (induction ns arbitrary: i st)
  case (Cons n ns)
  then have "parse_uint 64 (dec_str n) = Some n" by (intro parse_uint_dec_str) simp
  with Cons show ?case by (simp add: add.assoc)
qed simp

lemma add_ticks_line:
  assumes "\<forall>n \<in> set (user # nice # system # idle # iowait # ns). n < 2 ^ 64"
  shows "add_ticks 1 (map dec_str (user # nice # system # idle # iowait # ns)) \<lparr>Idle = 0, Total = 0\<rparr> =
    \<lparr>Idle = word_of_nat idle + word_of_nat iowait,
     Total = sum_list (map word_of_nat (user # nice # system # idle # iowait # ns))\<rparr>"
  using assms by (simp add: parse_uint_dec_str add_ticks_busy add.assoc)

lemma getCpuStats_line:
  assumes "scan_lines 65536 content = line # rest"
    "fields_of line = ''cpu'' # map dec_str (user # nice # system # idle # iowait # ns)"
    "\<forall>n \<in> set (user # nice # system # idle # iowait # ns). n < 2 ^ 64"
  shows "getCpuStats (Some content) = Some \<lparr>Idle = word_of_nat (idle + iowait),
     Total = word_of_nat (sum_list (user # nice # system # idle # iowait # ns))\<rparr>"
proof -
  have "sum_list (map word_of_nat ms) = word_of_nat (sum_list ms)" for ms by (induction ms) simp_all
  then show ?thesis using assms(1,2) add_ticks_line [OF assms(3)] by (simp add: getCpuStats_def Let_def)
qed

text \<open>Two snapshots between which no counter went backwards: the ticks that passed, and those of them that were not idle.\<close>

lemma unat_diff: "i \<le> j \<Longrightarrow> j < 2 ^ 64 \<Longrightarrow> unat (word_of_nat j - word_of_nat i :: u64) = j - i"
proof -
  assume "i \<le> j" "j < 2 ^ 64"
  then have "word_of_nat j - word_of_nat i = (word_of_nat (j - i) :: u64)" by (simp add: of_nat_diff)
  then show ?thesis using \<open>j < 2 ^ 64\<close> by (simp add: unat_of_nat)
qed

text \<open>Memory: the two lines of \<open>/proc/meminfo\<close> that count, other lines in between, at most \<open>2 ^ 53\<close> kilobytes.\<close>

definition other_line :: "string \<Rightarrow> bool" where
  "other_line line \<longleftrightarrow> (case fields_of line of
      f0 # f1 # _ \<Rightarrow> f0 \<noteq> ''MemTotal:'' \<and> f0 \<noteq> ''MemAvailable:''
    | _ \<Rightarrow> True)"

lemma scan_other_lines:
  "list_all other_line ls \<Longrightarrow> \<not> (f_positive t \<and> f_positive a) \<Longrightarrow>
   scan_meminfo other (ls @ lines) t a = scan_meminfo other lines t a"
  by (induction ls) (auto simp: other_line_def Let_def split: list.splits)

lemma parse_float_dec_str: "n < 2 ^ 53 \<Longrightarrow> parse_float other (dec_str n) = Finite (of_nat n)"
proof -
  assume n: "n < 2 ^ 53"
  then have "(of_nat n :: rat) \<le> of_nat (2 ^ 64)" by (simp only: of_nat_le_iff) simp
  then have "fl64 (of_nat n) = Finite (of_nat n)" using fl64_small [of "of_nat n"] fl_nat [OF n] by simp
  then show ?thesis by (simp add: parse_float_def digits_val_dec_str list_all_iff dec_str_digits float_of_def)
qed

definition mem_reading :: "string \<Rightarrow> nat \<Rightarrow> nat \<Rightarrow> bool" where
  "mem_reading content m n \<longleftrightarrow> (\<exists>pre lt mid la post ft fa. scan_lines 65536 content = pre @ lt # mid @ la # post \<and>
     list_all other_line pre \<and> list_all other_line mid \<and> fields_of lt = ''MemTotal:'' # dec_str n # ft \<and>
     fields_of la = ''MemAvailable:'' # dec_str m # fa \<and> 0 < m \<and> m \<le> n \<and> n < 2 ^ 53)"

lemma memory_load:
  assumes lines: "scan_lines 65536 content = pre @ lt # mid @ la # post" "list_all other_line pre" "list_all other_line mid"
    and total: "fields_of lt = ''MemTotal:'' # dec_str n # ft" and avail: "fields_of la = ''MemAvailable:'' # dec_str m # fa"
    and n: "0 < m" "m \<le> n" "n < 2 ^ 53"
  shows "\<exists>p. GetMemoryUsage other wild (Some content) = Some p \<and> percent_of p (n - m) n"
proof -
  have pf: "parse_float other (dec_str n) = Finite (of_nat n)" "parse_float other (dec_str m) = Finite (of_nat m)"
    using n by (simp_all add: parse_float_dec_str)
  have scan: "scan_meminfo other (pre @ lt # mid @ la # post) (Finite 0) (Finite 0) = (Finite (of_nat n), Finite (of_nat m))"
    using n by (simp add: scan_other_lines lines(2,3) total avail pf)
  have small: "n - m < 2 ^ 53" "n < 2 ^ 64" using n by simp_all
  have "f_sub (Finite (of_nat n)) (Finite (of_nat m)) = fl64 (of_nat (n - m))" using n by (simp add: of_nat_diff)
  also have "\<dots> = float_of (n - m)" by (simp add: float_of_def)
  finally have sub: "f_sub (Finite (of_nat n)) (Finite (of_nat m)) = float_of (n - m)" .
  have "(of_nat n :: rat) \<le> of_nat (2 ^ 64)" using small by (metis less_imp_le of_nat_le_iff)
  then have tot: "Finite (of_nat n) = float_of n" using fl64_small [of "of_nat n"] fl_nat [OF n(3)] by (simp add: float_of_def)
  have "GetMemoryUsage other wild (Some content) = Some (to_uint8 wild (Finite (percentage (n - m) n)))"
    using n f_percentage [of "n - m" n, folded tot] small
    by (simp add: GetMemoryUsage_def lines(1) scan f_is_zero_def sub del: f_sub.simps f_div.simps)
  moreover have "percent_of (to_uint8 wild (Finite (percentage (n - m) n))) (n - m) n"
    using n small by (intro to_uint8_percentage) simp_all
  ultimately show ?thesis by blast
qed

text \<open>
  Two readings of \<open>/proc/stat\<close> in which no counter goes backwards and the sum of the ticks fits: \<open>b\<close> ticks have passed,
  \<open>a\<close> of them not idle.
\<close>

definition cpu_reading :: "string \<Rightarrow> string \<Rightarrow> nat \<Rightarrow> nat \<Rightarrow> bool" where
  "cpu_reading s1 s2 a b \<longleftrightarrow> (\<exists>l1 r1 u1 n1 y1 i1 w1 ns1 l2 r2 u2 n2 y2 i2 w2 ns2.
     scan_lines 65536 s1 = l1 # r1 \<and> fields_of l1 = ''cpu'' # map dec_str (u1 # n1 # y1 # i1 # w1 # ns1) \<and>
     scan_lines 65536 s2 = l2 # r2 \<and> fields_of l2 = ''cpu'' # map dec_str (u2 # n2 # y2 # i2 # w2 # ns2) \<and>
     list_all2 (\<le>) (u1 # n1 # y1 # i1 # w1 # ns1) (u2 # n2 # y2 # i2 # w2 # ns2) \<and>
     sum_list (u2 # n2 # y2 # i2 # w2 # ns2) < 2 ^ 64 \<and>
     b = sum_list (u2 # n2 # y2 # i2 # w2 # ns2) - sum_list (u1 # n1 # y1 # i1 # w1 # ns1) \<and> 0 < b \<and>
     a = b - ((i2 + w2) - (i1 + w1)))"

lemma cpu_load:
  assumes before: "scan_lines 65536 s1 = l1 # r1" "fields_of l1 = ''cpu'' # map dec_str (u1 # n1 # y1 # i1 # w1 # ns1)"
    and after: "scan_lines 65536 s2 = l2 # r2" "fields_of l2 = ''cpu'' # map dec_str (u2 # n2 # y2 # i2 # w2 # ns2)"
    and grow: "list_all2 (\<le>) (u1 # n1 # y1 # i1 # w1 # ns1) (u2 # n2 # y2 # i2 # w2 # ns2)"
    and total: "t1 = sum_list (u1 # n1 # y1 # i1 # w1 # ns1)" "t2 = sum_list (u2 # n2 # y2 # i2 # w2 # ns2)" "t1 < t2" "t2 < 2 ^ 64"
  shows "\<exists>p. GetCpuUsage wild (Some s1) (Some s2) = Some p \<and> percent_of p (t2 - t1 - ((i2 + w2) - (i1 + w1))) (t2 - t1)"
proof -
  let ?d = "(i2 + w2) - (i1 + w1)"
  have sum: "sum_list ns1 \<le> sum_list ns2" if "list_all2 (\<le>) ns1 ns2" for ns1 ns2 :: "nat list"
    using that by (induction rule: list_all2_induct) auto
  have idle: "i1 + w1 \<le> i2 + w2" "?d \<le> t2 - t1" "i2 + w2 < 2 ^ 64"
    using grow total sum [of ns1 ns2] by auto
  have small: "n < 2 ^ 64" if "n \<in> set ms" "sum_list ms < 2 ^ 64" for n :: nat and ms
    using member_le_sum_list [OF that(1)] that(2) by linarith
  have s1: "getCpuStats (Some s1) = Some \<lparr>Idle = word_of_nat (i1 + w1), Total = word_of_nat t1\<rparr>"
    unfolding total(1) by (rule getCpuStats_line [OF before]) (use total small in \<open>blast intro: less_trans\<close>)
  have s2: "getCpuStats (Some s2) = Some \<lparr>Idle = word_of_nat (i2 + w2), Total = word_of_nat t2\<rparr>"
    unfolding total(2) by (rule getCpuStats_line [OF after]) (use total small in blast)
  have td: "unat (word_of_nat t2 - word_of_nat t1 :: u64) = t2 - t1" using total by (intro unat_diff) simp_all
  have bd: "word_of_nat t2 - word_of_nat t1 - (word_of_nat (i2 + w2) - word_of_nat (i1 + w1)) = (word_of_nat (t2 - t1 - ?d) :: u64)"
    using idle total by (simp add: of_nat_diff)
  have bu: "unat (word_of_nat (t2 - t1 - ?d) :: u64) = t2 - t1 - ?d" using total by (simp add: unat_of_nat)
  have ne: "word_of_nat t2 - word_of_nat t1 \<noteq> (0 :: u64)" using td total(3) by (metis unat_0 diff_is_0_eq not_le)
  have f: "f_mul (f_div (float_of (t2 - t1 - ?d)) (float_of (t2 - t1))) (Finite 100) = Finite (percentage (t2 - t1 - ?d) (t2 - t1))"
    by (rule f_percentage) (use total(3,4) in simp_all)
  have "GetCpuUsage wild (Some s1) (Some s2) = Some (to_uint8 wild (Finite (percentage (t2 - t1 - ?d) (t2 - t1))))"
    using ne by (simp add: GetCpuUsage_def s1 s2 Let_def bd bu td f del: of_nat_add diff_diff_left)
  moreover have "percent_of (to_uint8 wild (Finite (percentage (t2 - t1 - ?d) (t2 - t1)))) (t2 - t1 - ?d) (t2 - t1)"
    using total by (intro to_uint8_percentage) simp_all
  ultimately show ?thesis by blast
qed

text \<open>The loads that are reported for such readings, whatever the conversions make of other values.\<close>

lemma GetCpuUsage_reading:
  "cpu_reading s1 s2 a b \<Longrightarrow> \<exists>p. GetCpuUsage wild (Some s1) (Some s2) = Some p \<and> percent_of p a b"
  unfolding cpu_reading_def by (elim exE conjE) (auto dest: cpu_load [OF _ _ _ _ _ refl refl, where wild = wild])

lemma GetMemoryUsage_reading:
  "mem_reading content m n \<Longrightarrow> \<exists>p. GetMemoryUsage other wild (Some content) = Some p \<and> percent_of p (n - m) n"
  unfolding mem_reading_def using memory_load by (elim exE conjE) blast

lemma cpu_readingI:
  assumes "scan_lines 65536 s1 = l1 # r1" "fields_of l1 = ''cpu'' # map dec_str (u1 # n1 # y1 # i1 # w1 # ns1)"
    "scan_lines 65536 s2 = l2 # r2" "fields_of l2 = ''cpu'' # map dec_str (u2 # n2 # y2 # i2 # w2 # ns2)"
    "list_all2 (\<le>) (u1 # n1 # y1 # i1 # w1 # ns1) (u2 # n2 # y2 # i2 # w2 # ns2)"
    "sum_list (u2 # n2 # y2 # i2 # w2 # ns2) < 2 ^ 64"
    "b = sum_list (u2 # n2 # y2 # i2 # w2 # ns2) - sum_list (u1 # n1 # y1 # i1 # w1 # ns1)" "0 < b"
    "a = b - ((i2 + w2) - (i1 + w1))"
  shows "cpu_reading s1 s2 a b"
  unfolding cpu_reading_def by (intro exI conjI) (fact assms)+

lemma mem_readingI:
  assumes "scan_lines 65536 content = pre @ lt # mid @ la # post" "fields_of lt = ''MemTotal:'' # dec_str n # ft"
    "fields_of la = ''MemAvailable:'' # dec_str m # fa" "list_all other_line pre" "list_all other_line mid" "0 < m" "m \<le> n" "n < 2 ^ 53"
  shows "mem_reading content m n"
  unfolding mem_reading_def by (intro exI conjI) (fact assms)+

text \<open>Loads of a demonstration.\<close>

lemma demo_cpu_reading: "cpu_reading (''cpu 0 0 0 0 0'' @ [nl]) (''cpu 29 0 0 71 0'' @ [nl]) 29 100"
proof (rule cpu_readingI)
  show "scan_lines 65536 (''cpu 0 0 0 0 0'' @ [nl]) = ''cpu 0 0 0 0 0'' # []"
    "scan_lines 65536 (''cpu 29 0 0 71 0'' @ [nl]) = ''cpu 29 0 0 71 0'' # []"
    by (simp_all add: scan_lines_def raw_lines_def drop_cr_def)
  show "fields_of ''cpu 0 0 0 0 0'' = ''cpu'' # map dec_str (0 # 0 # 0 # 0 # 0 # [])"
    "fields_of ''cpu 29 0 0 71 0'' = ''cpu'' # map dec_str (29 # 0 # 0 # 71 # 0 # [])" by code_simp+
qed simp_all

lemma demo_mem_reading: "mem_reading (''MemTotal: 100 kB'' @ nl # ''MemFree: 1 kB'' @ nl # ''MemAvailable: 50 kB'' @ [nl]) 50 100"
proof (rule mem_readingI)
  show "scan_lines 65536 (''MemTotal: 100 kB'' @ nl # ''MemFree: 1 kB'' @ nl # ''MemAvailable: 50 kB'' @ [nl]) =
      [] @ ''MemTotal: 100 kB'' # [''MemFree: 1 kB''] @ ''MemAvailable: 50 kB'' # []"
    by (simp add: scan_lines_def raw_lines_def drop_cr_def)
  show "list_all other_line [''MemFree: 1 kB'']" "fields_of ''MemTotal: 100 kB'' = ''MemTotal:'' # dec_str 100 # [''kB'']"
    "fields_of ''MemAvailable: 50 kB'' = ''MemAvailable:'' # dec_str 50 # [''kB'']" by code_simp+
qed simp_all

end
