(* ===== verification/Sections.thy ===== *)
theory Sections
  imports Lifecycle
begin

text \<open>
  The critical sections of the controller's handlers. In \<open>Controller\<close> a handler is one step; in the code
  \<open>handlePutFile\<close>, \<open>handleChunkStatusReport\<close> and \<open>handleReplicaNodes\<close> take and release the three mutexes several times,
  and other goroutines run in between. Here each handler is a thread that runs one critical section at a
  time; run alone it is the handler of \<open>Controller\<close>, and a step relation interleaves any number of threads.
\<close>

section \<open>Threads\<close>

datatype thread =
    OneSection wrapper
  | PutFiles PutFileRequest
  | PutPending PutFileRequest
  | PutSelect PutFileRequest nat "(ChunkAllocation \<times> chunkInfo) list"
  | PutCommit PutFileRequest "(ChunkAllocation \<times> chunkInfo) list"
  | FailFiles ChunkStatusReport
  | FailPending ChunkStatusReport
  | OkPending ChunkStatusReport
  | OkStored ChunkStatusReport
  | ReplicaFiles ReplicaNodesRequest
  | ReplicaPending ReplicaNodesRequest
  | ReplicaSelect ReplicaNodesRequest "string list"

type_synonym section_end = "(controller \<times> ctrl_out list \<times> thread option) result"

definition finish :: "controller \<Rightarrow> ctrl_out list \<Rightarrow> section_end" where
  "finish c outs = Inr (c, outs, None)"

definition go_on :: "controller \<Rightarrow> thread \<Rightarrow> section_end" where
  "go_on c t = Inr (c, [], Some t)"

section \<open>PUT\<close>

text \<open>
  The file table is read under its own lock, the pending table under another, every chunk's nodes are
  selected under the registry's lock, and the upload is entered under the pending table's lock again.
\<close>

definition refuse :: "string \<Rightarrow> controller \<Rightarrow> section_end" where
  "refuse msg c = finish c [Reply (SendPutFileResponse False msg [])]"

definition put_files :: "PutFileRequest \<Rightarrow> controller \<Rightarrow> section_end" where
  "put_files req c = and_then (deref (pf_metadata req)) (\<lambda>md.
     if files c (fi_name md) \<noteq> None then refuse ''File already exists'' c else go_on c (PutPending req))"

definition put_pending :: "PutFileRequest \<Rightarrow> controller \<Rightarrow> section_end" where
  "put_pending req c = and_then (deref (pf_metadata req)) (\<lambda>md.
     if pendingFiles c (fi_name md) \<noteq> None then refuse ''File is currently being uploaded'' c
     else and_then (deref (pf_chunk req)) (\<lambda>ch.
       if ci_size ch = 0 then refuse ''Chunk size must be greater than zero'' c
       else go_on c (PutSelect req 0 [])))"

definition put_count :: "PutFileRequest \<Rightarrow> FileInfo \<Rightarrow> ChunkInfo \<Rightarrow> u64" where
  "put_count req md ch = num_chunks (pf_num_chunks req) (fi_size md) (ci_size ch)"

definition put_select ::
    "(nat \<Rightarrow> string list) \<Rightarrow> PutFileRequest \<Rightarrow> nat \<Rightarrow> (ChunkAllocation \<times> chunkInfo) list \<Rightarrow> controller \<Rightarrow> section_end" where
  "put_select ords req i acs c = and_then (deref (pf_metadata req)) (\<lambda>md. and_then (deref (pf_chunk req)) (\<lambda>ch.
     if i < unat (put_count req md ch)
     then case allocate_chunks ords (ci_size ch) c [i] of
         None \<Rightarrow> refuse ''Insufficient nodes for replication'' c
       | Some acs' \<Rightarrow> go_on c (PutSelect req (Suc i) (acs @ acs'))
     else go_on c (PutCommit req acs)))"

definition put_commit ::
    "time \<Rightarrow> PutFileRequest \<Rightarrow> (ChunkAllocation \<times> chunkInfo) list \<Rightarrow> controller \<Rightarrow> section_end" where
  "put_commit now req acs c = and_then (deref (pf_metadata req)) (\<lambda>md. and_then (deref (pf_chunk req)) (\<lambda>ch.
     finish (c\<lparr>pendingFiles := (pendingFiles c)(fi_name md \<mapsto>
                 \<lparr>fm_name = fi_name md, fm_size = fi_size md, fm_chunks = map snd acs,
                  fm_createdAt = now, fm_leaseExpiry = now + 30 * second\<rparr>),
               pendingChunks := (pendingChunks c)(fi_name md \<mapsto> put_count req md ch)\<rparr>)
       [Reply (SendPutFileResponse True ''Allocation successful'' (map fst acs))]))"

section \<open>Chunk status reports\<close>

definition with_report ::
    "ChunkStatusReport \<Rightarrow> (string \<Rightarrow> u64 \<Rightarrow> string \<Rightarrow> 'a result) \<Rightarrow> 'a result" where
  "with_report req f = and_then (deref (csr_metadata req)) (\<lambda>md. and_then (deref (csr_node req)) (\<lambda>nd.
     f (ci_file_name md) (ci_id md) (ni_address nd)))"

text \<open>A failure report works on the file table, then on the pending table.\<close>

definition fail_files :: "wal_io \<Rightarrow> string \<Rightarrow> u64 \<Rightarrow> string \<Rightarrow> controller \<Rightarrow> controller result" where
  "fail_files io name cid addr c = (case files c name of
      Some m \<Rightarrow>
        (case find (is_chunk cid) (fm_chunks m) of
           Some _ \<Rightarrow> let m' = map_chunk cid (drop_node addr) m in
             appendWalRecord io ''PUT'' name (Some m') (c\<lparr>files := (files c)(name \<mapsto> m')\<rparr>)
         | None \<Rightarrow> Inr c)
    | None \<Rightarrow> Inr c)"

definition fail_pending :: "string \<Rightarrow> u64 \<Rightarrow> string \<Rightarrow> controller \<Rightarrow> controller" where
  "fail_pending name cid addr c = (case pendingFiles c name of
      Some m \<Rightarrow> c\<lparr>pendingFiles := (pendingFiles c)(name \<mapsto> map_chunk cid (drop_node addr) m)\<rparr>
    | None \<Rightarrow> c)"

text \<open>A success report holds the pending table's lock while the file is pending, and else looks into the file table.\<close>

definition ok_stored :: "wal_io \<Rightarrow> string \<Rightarrow> u64 \<Rightarrow> string \<Rightarrow> controller \<Rightarrow> controller result" where
  "ok_stored io name cid addr c = (case files c name of
      None \<Rightarrow> Inr c
    | Some m \<Rightarrow>
        (case find (is_chunk cid) (fm_chunks m) of
           None \<Rightarrow> Inr c
         | Some ch \<Rightarrow>
             if addr \<notin> set (chunk_nodes ch) then
               let m' = map_chunk cid (add_node addr) m in
               appendWalRecord io ''PUT'' name (Some m') (c\<lparr>files := (files c)(name \<mapsto> m')\<rparr>)
             else Inr c))"

definition ok_pending :: "wal_io \<Rightarrow> ChunkStatusReport \<Rightarrow> controller \<Rightarrow> section_end" where
  "ok_pending io req c = with_report req (\<lambda>name cid addr.
     if pendingFiles c name = None then go_on c (OkStored req)
     else and_then (report_success io name cid addr c) (\<lambda>c'. finish c' []))"

section \<open>Replica requests\<close>

definition chunk_holders :: "ChunkInfo \<Rightarrow> fileMetadata \<Rightarrow> string list" where
  "chunk_holders ch m = (case find (is_chunk (ci_id ch)) (fm_chunks m) of None \<Rightarrow> [] | Some k \<Rightarrow> chunk_nodes k)"

definition replica_files :: "ReplicaNodesRequest \<Rightarrow> controller \<Rightarrow> section_end" where
  "replica_files req c = and_then (deref (rnr_chunk req)) (\<lambda>ch. case files c (ci_file_name ch) of
      Some m \<Rightarrow> go_on c (ReplicaSelect req (chunk_holders ch m))
    | None \<Rightarrow> go_on c (ReplicaPending req))"

definition replica_pending :: "ReplicaNodesRequest \<Rightarrow> controller \<Rightarrow> section_end" where
  "replica_pending req c = and_then (deref (rnr_chunk req)) (\<lambda>ch.
     go_on c (ReplicaSelect req (case pendingFiles c (ci_file_name ch) of
       Some m \<Rightarrow> chunk_holders ch m | None \<Rightarrow> [])))"

definition replica_select :: "string list \<Rightarrow> ReplicaNodesRequest \<Rightarrow> string list \<Rightarrow> controller \<Rightarrow> section_end" where
  "replica_select ord req excluded c = and_then (deref (rnr_chunk req)) (\<lambda>ch.
     let targets = selectNodes (unat (rnr_count req)) (ci_size ch) excluded ord c in
     finish c [Reply (if targets \<noteq> []
       then SendReplicaNodesResponse True ''Nodes allocated'' (MapArrayAddressesToNodeInfo targets)
       else SendReplicaNodesResponse False ''Insufficient nodes'' [])])"

section \<open>The next section of a thread\<close>

fun section_step :: "ctrl_env \<Rightarrow> thread \<Rightarrow> controller \<Rightarrow> section_end" where
  "section_step env (OneSection w) c = and_then (handleConnection env w c) (\<lambda>(c', outs). finish c' outs)"
| "section_step env (PutFiles req) c = put_files req c"
| "section_step env (PutPending req) c = put_pending req c"
| "section_step env (PutSelect req i acs) c = put_select (env_nodes env) req i acs c"
| "section_step env (PutCommit req acs) c = put_commit (env_now env) req acs c"
| "section_step env (FailFiles req) c = with_report req (\<lambda>name cid addr.
     and_then (fail_files (env_io env 0) name cid addr c) (\<lambda>c'. go_on c' (FailPending req)))"
| "section_step env (FailPending req) c = with_report req (\<lambda>name cid addr.
     finish (fail_pending name cid addr c) [])"
| "section_step env (OkPending req) c = ok_pending (env_io env 0) req c"
| "section_step env (OkStored req) c = with_report req (\<lambda>name cid addr.
     and_then (ok_stored (env_io env 0) name cid addr c) (\<lambda>c'. finish c' []))"
| "section_step env (ReplicaFiles req) c = replica_files req c"
| "section_step env (ReplicaPending req) c = replica_pending req c"
| "section_step env (ReplicaSelect req excluded) c = replica_select (env_nodes env 0) req excluded c"

text \<open>The thread that serves a message.\<close>

fun start_thread :: "wrapper \<Rightarrow> thread" where
  "start_thread (Wrapper_PutFileReq req) = PutFiles req"
| "start_thread (Wrapper_ChunkStatusReport req) = (if csr_success req then OkPending req else FailFiles req)"
| "start_thread (Wrapper_ReplicaNodesReq req) = ReplicaFiles req"
| "start_thread w = OneSection w"

text \<open>A thread that nothing interrupts, for at most the given number of sections.\<close>

fun run_alone :: "nat \<Rightarrow> ctrl_env \<Rightarrow> thread \<Rightarrow> controller \<Rightarrow> handled option" where
  "run_alone 0 env t c = None"
| "run_alone (Suc k) env t c = (case section_step env t c of
      Inl e \<Rightarrow> Some (Inl e)
    | Inr (c', outs, None) \<Rightarrow> Some (Inr (c', outs))
    | Inr (c', outs, Some t') \<Rightarrow>
        map_option (\<lambda>r. and_then r (\<lambda>(c'', outs'). Inr (c'', outs @ outs'))) (run_alone k env t' c'))"

fun section_bound :: "wrapper \<Rightarrow> nat" where
  "section_bound (Wrapper_PutFileReq req) = (case (pf_metadata req, pf_chunk req) of
      (Some md, Some ch) \<Rightarrow> unat (put_count req md ch) + 4
    | _ \<Rightarrow> 4)"
| "section_bound w = 3"

section \<open>Interleaved threads\<close>

text \<open>
  A schedule says which thread runs its next section, or which background round runs. A thread that is
  scheduled after its end does nothing.
\<close>

datatype turn = Turn nat | Timer ctrl_event

fun run_schedule :: "(ctrl_env \<times> turn) list \<Rightarrow> thread option list \<Rightarrow> controller \<Rightarrow>
    (controller \<times> (nat \<times> ctrl_out) list \<times> thread option list) result" where
  "run_schedule [] ts c = Inr (c, [], ts)"
| "run_schedule ((env, Turn i) # s) ts c = (case (if i < length ts then ts ! i else None) of
      None \<Rightarrow> run_schedule s ts c
    | Some t \<Rightarrow> and_then (section_step env t c) (\<lambda>(c', outs, t').
        and_then (run_schedule s (ts[i := t']) c') (\<lambda>(c'', outs', ts').
          Inr (c'', map (Pair i) outs @ outs', ts'))))"
| "run_schedule ((env, Timer ev) # s) ts c = and_then (ctrl_exec env ev c) (\<lambda>(c', outs). run_schedule s ts c')"

section \<open>A thread alone is the handler\<close>

lemmas section_simps = finish_def go_on_def refuse_def put_files_def put_pending_def put_commit_def
  with_report_def replica_files_def replica_pending_def replica_select_def

lemma put_select_alone:
  assumes req: "pf_metadata req = Some md" "pf_chunk req = Some ch" and m: "m = unat (put_count req md ch)"
  shows "i \<le> m \<Longrightarrow> m - i + 2 \<le> k \<Longrightarrow> run_alone k env (PutSelect req i acs) c =
    (case allocate_chunks (env_nodes env) (ci_size ch) c [i..<m] of
       None \<Rightarrow> Some (Inr (c, [Reply (SendPutFileResponse False ''Insufficient nodes for replication'' [])]))
     | Some acs' \<Rightarrow> run_alone 1 env (PutCommit req (acs @ acs')) c)"
proof (induction "m - i" arbitrary: i k acs)
  case 0
  then have "i = m" "2 \<le> k" by simp_all
  then obtain j where "k = 2 + j" using le_Suc_ex by blast
  with \<open>i = m\<close> req m show ?case by (simp add: put_select_def section_simps)
next
  case (Suc d)
  then obtain j where k: "k = Suc j" and i: "i < m" by (cases k) auto
  have up: "[i..<m] = i # [Suc i..<m]" using i by (simp add: upt_rec)
  show ?case
  proof (cases "allocate_chunks (env_nodes env) (ci_size ch) c [i]")
    case None
    then have "allocate_chunks (env_nodes env) (ci_size ch) c [i..<m] = None"
      by (auto simp: up Let_def split: if_splits)
    with None k i req m show ?thesis by (simp add: put_select_def section_simps)
  next
    case (Some a)
    then have "allocate_chunks (env_nodes env) (ci_size ch) c [i..<m] =
        map_option ((@) a) (allocate_chunks (env_nodes env) (ci_size ch) c [Suc i..<m])"
      by (auto simp: up Let_def split: if_splits intro!: option.map_cong)
    moreover have "run_alone k env (PutSelect req i acs) c = run_alone j env (PutSelect req (Suc i) (acs @ a)) c"
      using Some k i req m by (simp add: put_select_def section_simps option.map_ident_strong and_then_def split: sum.splits)
    moreover have "run_alone j env (PutSelect req (Suc i) (acs @ a)) c =
      (case allocate_chunks (env_nodes env) (ci_size ch) c [Suc i..<m] of
       None \<Rightarrow> Some (Inr (c, [Reply (SendPutFileResponse False ''Insufficient nodes for replication'' [])]))
     | Some acs' \<Rightarrow> run_alone 1 env (PutCommit req ((acs @ a) @ acs')) c)"
      using Suc k i by (intro Suc.hyps(1)) auto
    ultimately show ?thesis by (simp split: option.splits)
  qed
qed

lemma run_alone_finish: "section_step env t c = Inr (c', outs, None) \<Longrightarrow> 0 < k \<Longrightarrow> run_alone k env t c = Some (Inr (c', outs))"
  by (cases k) simp_all

lemma run_alone_panic: "section_step env t c = Inl e \<Longrightarrow> 0 < k \<Longrightarrow> run_alone k env t c = Some (Inl e)"
  by (cases k) simp_all

lemma run_alone_go_on: "section_step env t c = go_on c' t' \<Longrightarrow> run_alone (Suc k) env t c = run_alone k env t' c'"
  by (simp add: go_on_def and_then_def option.map_ident_strong split: sum.splits)

lemma put_alone:
  assumes k: "section_bound (Wrapper_PutFileReq req) \<le> k"
  shows "run_alone k env (PutFiles req) c = Some (handlePutFile (env_now env) (env_nodes env) req c)"
proof -
  obtain j where j: "k = Suc (Suc j)" using k by (cases k; cases "k - 1") (auto split: option.splits)
  have panic: ?thesis if "section_step env (PutFiles req) c = Inl e" "handlePutFile (env_now env) (env_nodes env) req c = Inl e" for e
    using that j by simp
  show ?thesis
  proof (cases "pf_metadata req")
    case None
    then show ?thesis by (intro panic [of Panic]) (simp_all add: section_simps handlePutFile_def)
  next
    case md: (Some md)
    show ?thesis
    proof (cases "files c (fi_name md) = None \<and> pendingFiles c (fi_name md) = None")
      case False
      then show ?thesis using md j
        by (cases "files c (fi_name md)")
          (auto simp: section_simps put_pending_def handlePutFile_def Let_def)
    next
      case free: True
      show ?thesis
      proof (cases "pf_chunk req")
        case None
        with free md j show ?thesis by (simp add: section_simps put_pending_def handlePutFile_def Let_def)
      next
        case ch: (Some ch)
        show ?thesis
        proof (cases "ci_size ch = 0")
          case True
          with free md ch j show ?thesis by (simp add: section_simps put_pending_def handlePutFile_def Let_def)
        next
          case False
          have "run_alone k env (PutFiles req) c = run_alone j env (PutSelect req 0 []) c"
            using free md ch False j
            by (simp add: section_simps put_pending_def option.map_ident_strong and_then_def split: sum.splits)
          also have "\<dots> = (case allocate_chunks (env_nodes env) (ci_size ch) c [0..<unat (put_count req md ch)] of
              None \<Rightarrow> Some (Inr (c, [Reply (SendPutFileResponse False ''Insufficient nodes for replication'' [])]))
            | Some acs \<Rightarrow> run_alone 1 env (PutCommit req ([] @ acs)) c)"
            using k j md ch by (intro put_select_alone [OF md ch refl]) auto
          also have "\<dots> = Some (handlePutFile (env_now env) (env_nodes env) req c)"
            using free md ch False
            by (simp add: handlePutFile_def Let_def put_count_def section_simps split: option.splits)
          finally show ?thesis .
        qed
      qed
    qed
  qed
qed

lemma report_failure_sections:
  "report_failure io name cid addr c = and_then (fail_files io name cid addr c) (\<lambda>c'. Inr (fail_pending name cid addr c'))"
  unfolding report_failure_def fail_files_def fail_pending_def
  by (rule arg_cong2 [where f = and_then], rule refl) (auto split: option.splits)

lemma report_success_sections:
  "pendingFiles c name = None \<Longrightarrow> report_success io name cid addr c = ok_stored io name cid addr c"
  by (simp add: report_success_def ok_stored_def)

lemma report_alone:
  assumes "3 \<le> k"
  shows "run_alone k env (if csr_success req then OkPending req else FailFiles req) c =
    Some (handleChunkStatusReport (env_io env 0) req c)"
proof -
  obtain j where j: "k = Suc (Suc j)" using assms by (cases k; cases "k - 1") auto
  show ?thesis
  proof (cases "\<exists>md nd. csr_metadata req = Some md \<and> csr_node req = Some nd")
    case False
    then show ?thesis using j
      by (cases "csr_metadata req"; cases "csr_node req") (simp_all add: section_simps ok_pending_def handleChunkStatusReport_def)
  next
    case True
    then show ?thesis using j
      by (auto simp: section_simps ok_pending_def handleChunkStatusReport_def report_failure_sections
          report_success_sections and_then_def split: sum.splits option.splits)
  qed
qed

lemma replica_alone:
  assumes "3 \<le> k"
  shows "run_alone k env (ReplicaFiles req) c = Some (handleReplicaNodes (env_nodes env 0) req c)"
proof -
  obtain j where j: "k = Suc (Suc (Suc j))" using le_Suc_ex [OF assms] by (auto simp: numeral_3_eq_3)
  show ?thesis
    by (cases "rnr_chunk req")
      (simp_all add: j section_simps handleReplicaNodes_def chunk_holders_def Let_def split: option.splits)
qed

lemma one_section_alone: "0 < k \<Longrightarrow> run_alone k env (OneSection w) c = Some (handleConnection env w c)"
  by (cases k) (auto simp: finish_def and_then_def split: sum.splits)

lemma section_alone: "section_bound w \<le> k \<Longrightarrow> run_alone k env (start_thread w) c = Some (handleConnection env w c)"
  by (cases w) (simp_all add: put_alone report_alone replica_alone one_section_alone del: run_alone.simps)

section \<open>What survives interleaving\<close>

fun put_request :: "thread \<Rightarrow> PutFileRequest option" where
  "put_request (PutFiles req) = Some req"
| "put_request (PutPending req) = Some req"
| "put_request (PutSelect req i acs) = Some req"
| "put_request (PutCommit req acs) = Some req"
| "put_request _ = None"

text \<open>The name a thread is about to enter into the pending table.\<close>

definition put_name :: "thread \<Rightarrow> string option" where
  "put_name t = Option.bind (put_request t) (\<lambda>req. map_option fi_name (pf_metadata req))"

definition fresh_chunks :: "nat \<Rightarrow> chunkInfo list" where
  "fresh_chunks n = map (\<lambda>i. \<lparr>chunkId = word_of_nat i, chunk_nodes = [], chunk_size = 0, chunk_checksum = []\<rparr>) [0..<n]"

text \<open>What a thread carries from one section to the next is what its earlier sections computed.\<close>

fun thread_ok :: "thread \<Rightarrow> bool" where
  "thread_ok (OneSection w) \<longleftrightarrow> (\<forall>req. w \<noteq> Wrapper_PutFileReq req)"
| "thread_ok (PutSelect req i acs) \<longleftrightarrow> map snd acs = fresh_chunks i \<and>
     (\<forall>md ch. pf_metadata req = Some md \<longrightarrow> pf_chunk req = Some ch \<longrightarrow> i \<le> unat (put_count req md ch))"
| "thread_ok (PutCommit req acs) \<longleftrightarrow>
     (\<forall>md ch. pf_metadata req = Some md \<longrightarrow> pf_chunk req = Some ch \<longrightarrow> map snd acs = fresh_chunks (unat (put_count req md ch)))"
| "thread_ok _ \<longleftrightarrow> True"

lemma start_thread_ok [simp]: "thread_ok (start_thread w)"
  by (cases w) simp_all

lemma fresh_chunks_Suc: "allocate_chunks ords csz c [i] = Some a \<Longrightarrow> map snd a = drop i (fresh_chunks (Suc i))"
  by (auto simp: fresh_chunks_def Let_def split: if_splits)

lemma section_thread_ok:
  assumes "section_step env t c = Inr (c', outs, Some t')" "thread_ok t"
  shows "thread_ok t' \<and> put_request t' = put_request t \<and> (put_request t \<noteq> None \<longrightarrow> c' = c)"
  using assms
  by (cases t)
    (auto simp: section_simps put_pending_def put_select_def ok_pending_def and_then_eq_Inr Let_def fresh_chunks_def
      split: if_splits option.splits)

lemma fail_sections_inv:
  "fail_files io name cid addr c = Inr c' \<Longrightarrow> ctrl_inv c \<Longrightarrow> ctrl_inv c'"
  "ctrl_inv c \<Longrightarrow> ctrl_inv (fail_pending name cid addr c)"
proof -
  have m: "meta_ok m" if "ctrl_inv c" "files c name = Some m \<or> pendingFiles c name = Some m" for m
    using that by (auto simp: ctrl_inv_def ran_def)
  show "fail_files io name cid addr c = Inr c' \<Longrightarrow> ctrl_inv c \<Longrightarrow> ctrl_inv c'"
    using m by (auto simp: fail_files_def Let_def split: option.splits intro!: ctrl_inv_file)
  show "ctrl_inv c \<Longrightarrow> ctrl_inv (fail_pending name cid addr c)"
    using m by (auto simp: fail_pending_def split: option.splits intro!: ctrl_inv_pending)
qed

lemma ok_stored_inv: "ok_stored io name cid addr c = Inr c' \<Longrightarrow> ctrl_inv c \<Longrightarrow> ctrl_inv c'"
proof -
  assume run: "ok_stored io name cid addr c = Inr c'" and inv: "ctrl_inv c"
  have "meta_ok m" if "files c name = Some m" for m using inv that by (auto simp: ctrl_inv_def ran_def)
  with run inv show ?thesis
    by (auto simp: ok_stored_def Let_def split: option.splits if_splits intro!: ctrl_inv_file)
qed

lemma put_commit_inv:
  assumes run: "put_commit now req acs c = Inr (c', outs, t')" and inv: "ctrl_inv c" and ok: "thread_ok (PutCommit req acs)"
    and free: "\<And>n. put_name (PutCommit req acs) = Some n \<Longrightarrow> files c n = None"
  shows "ctrl_inv c'"
proof -
  obtain md ch where req: "pf_metadata req = Some md" "pf_chunk req = Some ch"
    using run by (auto simp: section_simps and_then_eq_Inr)
  let ?n = "put_count req md ch"
  have c': "c' = c\<lparr>pendingFiles := (pendingFiles c)(fi_name md \<mapsto> new_upload now md ?n),
      pendingChunks := (pendingChunks c)(fi_name md \<mapsto> ?n)\<rparr>"
    using run ok req by (simp add: section_simps new_upload_def fresh_chunks_def)
  have "files c (fi_name md) = None" using free req by (simp add: put_name_def)
  then show ?thesis
    using inv ran_upd [of "pendingFiles c" "fi_name md" "new_upload now md ?n"] unfolding c'
    by (auto simp: ctrl_inv_def names_ok_def) (auto simp: new_upload_def)
qed

text \<open>Every section keeps the invariant, but for an entry of an upload whose name has been stored meanwhile.\<close>

lemma section_inv:
  assumes run: "section_step env t c = Inr (c', outs, t')" and inv: "ctrl_inv c" and ok: "thread_ok t"
    and free: "\<And>req acs n. t = PutCommit req acs \<Longrightarrow> put_name t = Some n \<Longrightarrow> files c n = None"
  shows "ctrl_inv c'"
proof (cases t)
  case (PutCommit req acs)
  with put_commit_inv run inv ok free show ?thesis by simp
qed (use run inv in \<open>auto simp: section_simps put_pending_def put_select_def ok_pending_def and_then_eq_Inr Let_def
    split: if_splits option.splits intro: handleConnection_inv fail_sections_inv ok_stored_inv report_success_inv\<close>)

text \<open>A section that does not enter a name leaves it out of the pending table, and out of the file table too.\<close>

definition not_entered :: "controller \<Rightarrow> controller \<Rightarrow> string \<Rightarrow> bool" where
  "not_entered c c' n \<longleftrightarrow> (pendingFiles c n = None \<longrightarrow>
     pendingFiles c' n = None \<and> (files c n = None \<longrightarrow> files c' n = None))"

lemma not_entered_same [simp]: "not_entered c c n"
  by (simp add: not_entered_def)

lemma not_enteredI:
  assumes "file_step env ev c n (file_status c n) (file_status c' n)" "ctrl_inv c" "ctrl_inv c'"
    "\<And>req. ev \<noteq> Recv (Wrapper_PutFileReq req)"
  shows "not_entered c c' n"
proof -
  have "files x n = None \<or> pendingFiles x n = None" if "ctrl_inv x" for x
    using that by (auto simp: ctrl_inv_def)
  note excl = this [OF assms(2)] this [OF assms(3)]
  have "file_status c n \<noteq> Uploading \<Longrightarrow> file_status c' n \<noteq> Uploading \<and> (file_status c n = Absent \<longrightarrow> file_status c' n = Absent)"
    using assms(1,4) by (auto simp: file_step.simps)
  with excl show ?thesis
    by (cases "files c n"; cases "pendingFiles c n"; cases "files c' n"; cases "pendingFiles c' n")
      (simp_all add: not_entered_def file_status_def)
qed

lemma report_success_not_entered: "report_success io name cid addr c = Inr c' \<Longrightarrow> ctrl_inv c \<Longrightarrow> not_entered c c' n"
proof (cases "n = name")
  case True
  assume run: "report_success io name cid addr c = Inr c'" and "ctrl_inv c"
  show ?thesis
  proof (cases "pendingFiles c name")
    case None
    with run show ?thesis
      by (cases rule: report_success_stored_cases) (auto simp: not_entered_def ctrl_simps True)
  qed (simp add: not_entered_def True)
next
  case False
  assume "report_success io name cid addr c = Inr c'"
  from report_success_other [OF this False] show ?thesis by (auto simp: not_entered_def same_at_def)
qed

lemma ok_stored_not_entered: "ok_stored io name cid addr c = Inr c' \<Longrightarrow> not_entered c c' n"
  by (auto simp: ok_stored_def Let_def not_entered_def ctrl_simps split: option.splits if_splits)

lemma fail_sections_not_entered:
  "fail_files io name cid addr c = Inr c' \<Longrightarrow> not_entered c c' n" "not_entered c (fail_pending name cid addr c) n"
  by (auto simp: fail_files_def fail_pending_def Let_def not_entered_def ctrl_simps split: option.splits)

lemma section_not_entered:
  assumes run: "section_step env t c = Inr (c', outs, t')" and inv: "ctrl_inv c" "ctrl_inv c'" and ok: "thread_ok t"
    and n: "put_name t \<noteq> Some n"
  shows "not_entered c c' n"
proof (cases t)
  case (OneSection w)
  with run have "ctrl_exec env (Recv w) c = Inr (c', outs)" by (auto simp: and_then_eq_Inr finish_def)
  from ctrl_exec_step [OF this inv(1)] show ?thesis
    by (rule not_enteredI) (use OneSection ok inv in auto)
next
  case (PutCommit req acs)
  with run n show ?thesis by (auto simp: section_simps and_then_eq_Inr not_entered_def put_name_def)
next
  case (OkPending req)
  with run inv show ?thesis
    by (auto simp: section_simps ok_pending_def and_then_eq_Inr split: if_splits intro: report_success_not_entered)
next
  case (OkStored req)
  with run show ?thesis by (auto simp: section_simps and_then_eq_Inr intro: ok_stored_not_entered)
next
  case (FailFiles req)
  with run show ?thesis by (auto simp: section_simps and_then_eq_Inr intro: fail_sections_not_entered)
next
  case (FailPending req)
  with run show ?thesis by (auto simp: section_simps and_then_eq_Inr intro: fail_sections_not_entered)
qed (use run in \<open>auto simp: section_simps put_pending_def put_select_def and_then_eq_Inr Let_def not_entered_def
    split: if_splits option.splits\<close>)

text \<open>
  The invariant of a schedule: every thread carries consistent data, no two threads are about to enter the
  same name, and a name that a thread is about to enter is not pending and, once checked, not stored.
\<close>

definition live :: "thread option list \<Rightarrow> nat \<Rightarrow> thread \<Rightarrow> bool" where
  "live ts i t \<longleftrightarrow> i < length ts \<and> ts ! i = Some t"

definition schedule_inv :: "thread option list \<Rightarrow> controller \<Rightarrow> bool" where
  "schedule_inv ts c \<longleftrightarrow> ctrl_inv c \<and> (\<forall>i t. live ts i t \<longrightarrow> thread_ok t) \<and>
     (\<forall>i j t u n. live ts i t \<longrightarrow> live ts j u \<longrightarrow> put_name t = Some n \<longrightarrow> put_name u = Some n \<longrightarrow> i = j) \<and>
     (\<forall>i t n. live ts i t \<longrightarrow> put_name t = Some n \<longrightarrow>
        pendingFiles c n = None \<and> ((\<nexists>req. t = PutFiles req) \<longrightarrow> files c n = None))"

lemma schedule_invD:
  assumes "schedule_inv ts c" "live ts i t"
  shows "ctrl_inv c" "thread_ok t" "put_name t = Some n \<Longrightarrow> pendingFiles c n = None"
    "put_name t = Some n \<Longrightarrow> \<nexists>req. t = PutFiles req \<Longrightarrow> files c n = None"
    "live ts j u \<Longrightarrow> put_name t = Some n \<Longrightarrow> put_name u = Some n \<Longrightarrow> j = i"
  using assms unfolding schedule_inv_def by blast+

lemma live_update: "live (ts[i := x]) j u \<longleftrightarrow> (if j = i then i < length ts \<and> x = Some u else live ts j u)"
  by (auto simp: live_def nth_list_update)

lemma checked_not_stored:
  assumes "section_step env t c = Inr (c', outs, Some t')" "put_name t' = Some n" "\<nexists>req. t' = PutFiles req"
    "(\<exists>req. t = PutFiles req) \<or> files c n = None"
  shows "files c' n = None"
  using assms
  by (cases t)
    (auto simp: section_simps put_pending_def put_select_def ok_pending_def and_then_eq_Inr put_name_def Let_def
      split: if_splits option.splits)

lemma schedule_inv_step:
  assumes inv: "schedule_inv ts c" and t: "live ts i t" and run: "section_step env t c = Inr (c', outs, t')"
  shows "schedule_inv (ts[i := t']) c'"
proof -
  have old: "ctrl_inv c" "thread_ok t" using schedule_invD [OF inv t] by auto
  have ctrl: "ctrl_inv c'"
    by (rule section_inv [OF run old]) (use inv t in \<open>auto simp: schedule_inv_def\<close>)
  have own: "thread_ok u \<and> put_name u = put_name t \<and> (put_name t \<noteq> None \<longrightarrow> c' = c)" if "t' = Some u" for u
    using section_thread_ok [of env t c c' outs u] run that old by (auto simp: put_name_def)
  have keep: "pendingFiles c' n = None \<and> (files c n = None \<longrightarrow> files c' n = None)"
    if "live ts j u" "j \<noteq> i" "put_name u = Some n" for j u n
  proof -
    have "put_name t \<noteq> Some n" using schedule_invD(5) [OF inv t that(1)] that by blast
    from section_not_entered [OF run old(1) ctrl old(2) this] schedule_invD(3) [OF inv that(1,3)]
    show ?thesis by (simp add: not_entered_def)
  qed
  show ?thesis unfolding schedule_inv_def
  proof (intro conjI allI impI)
    show "thread_ok u" if "live (ts[i := t']) j u" for j u
      using that own inv by (auto simp: live_update schedule_inv_def split: if_splits)
    show "j = k" if "live (ts[i := t']) j u" "live (ts[i := t']) k v" "put_name u = Some n" "put_name v = Some n" for j k u v n
      using that own t inv unfolding schedule_inv_def live_update by (metis (no_types, lifting))
    show "pendingFiles c' n = None" if "live (ts[i := t']) j u" "put_name u = Some n" for j u n
      using that own keep schedule_invD(3) [OF inv t] by (auto simp: live_update split: if_splits)
    show "files c' n = None" if "live (ts[i := t']) j u" "put_name u = Some n" "\<nexists>req. u = PutFiles req" for j u n
    proof (cases "j = i")
      case True
      with that have u: "t' = Some u" by (simp add: live_update)
      have "(\<exists>req. t = PutFiles req) \<or> files c n = None"
      proof (cases "\<exists>req. t = PutFiles req")
        case False
        have "put_name t = Some n" using own [OF u] that by simp
        from schedule_invD(4) [OF inv t this False] show ?thesis ..
      qed simp
      with checked_not_stored run u that show ?thesis by metis
    next
      case False
      with that keep inv show ?thesis by (auto simp: live_update schedule_inv_def)
    qed
  qed (rule ctrl)
qed

lemma schedule_inv_timer:
  assumes inv: "schedule_inv ts c" and run: "ctrl_exec env ev c = Inr (c', outs)"
    and ev: "\<And>w. ev \<noteq> Recv w"
  shows "schedule_inv ts c'"
proof -
  have ctrl: "ctrl_inv c" "ctrl_inv c'" using inv ctrl_exec_inv [OF run] by (auto simp: schedule_inv_def)
  have "not_entered c c' n" for n
    using ctrl_exec_step [OF run ctrl(1)] ev ctrl by (intro not_enteredI) auto
  then show ?thesis using inv ctrl(2) unfolding schedule_inv_def not_entered_def by (metis (no_types, lifting))
qed

definition background :: "turn \<Rightarrow> bool" where
  "background x \<longleftrightarrow> (case x of Timer (Recv w) \<Rightarrow> False | _ \<Rightarrow> True)"

lemma run_schedule_inv:
  "run_schedule s ts c = Inr (c', outs, ts') \<Longrightarrow> schedule_inv ts c \<Longrightarrow> \<forall>x \<in> set s. background (snd x) \<Longrightarrow>
    schedule_inv ts' c'"
proof (induction s ts c arbitrary: c' outs ts' rule: run_schedule.induct)
  case (2 env i s ts c)
  show ?case
  proof (cases "if i < length ts then ts ! i else None")
    case None
    with 2 show ?thesis by simp
  next
    case (Some t)
    then have t: "live ts i t" by (auto simp: live_def split: if_splits)
    obtain c1 o1 t1 where step: "section_step env t c = Inr (c1, o1, t1)"
      using 2(3) Some by (auto simp: and_then_eq_Inr)
    with 2(3) Some obtain o2 where "run_schedule s (ts[i := t1]) c1 = Inr (c', o2, ts')"
      by (auto simp: and_then_eq_Inr)
    from 2(2) [OF Some this] schedule_inv_step [OF 2(4) t step] 2(5) show ?thesis by simp
  qed
next
  case (3 env ev s ts c)
  from 3(2) obtain c1 o1 where "ctrl_exec env ev c = Inr (c1, o1)" "run_schedule s ts c1 = Inr (c', outs, ts')"
    by (auto simp: and_then_eq_Inr)
  moreover have "ev \<noteq> Recv w" for w using 3(4) by (auto simp: background_def)
  ultimately show ?case using 3 schedule_inv_timer by (metis (no_types, lifting) list.set_intros(2) prod.case)
qed simp

section \<open>Concurrent requests from the start\<close>

definition threads :: "wrapper list \<Rightarrow> thread option list" where
  "threads ws = map (\<lambda>w. Some (start_thread w)) ws"

fun put_target :: "wrapper \<Rightarrow> string option" where
  "put_target (Wrapper_PutFileReq req) = map_option fi_name (pf_metadata req)"
| "put_target w = None"

lemma put_name_start: "put_name (start_thread w) = put_target w"
  by (cases w) (simp_all add: put_name_def)

lemma put_start: "put_target w = Some n \<Longrightarrow> \<exists>req. start_thread w = PutFiles req"
  by (cases w) simp_all

text \<open>No two of the requests put the same name, and none puts a name that is already pending.\<close>

definition separate_puts :: "wrapper list \<Rightarrow> controller \<Rightarrow> bool" where
  "separate_puts ws c \<longleftrightarrow> distinct (List.map_filter put_target ws) \<and>
     (\<forall>n \<in> set (List.map_filter put_target ws). pendingFiles c n = None)"

lemma distinct_map_filter:
  "distinct (List.map_filter f xs) \<Longrightarrow> i < length xs \<Longrightarrow> j < length xs \<Longrightarrow> f (xs ! i) = Some y \<Longrightarrow> f (xs ! j) = Some y \<Longrightarrow>
    i = j"
proof (induction xs arbitrary: i j)
  case (Cons x xs)
  have mem: "y \<in> set (List.map_filter f xs)" if "k < length xs" "f (xs ! k) = Some y" for k
    using that by (force simp: List.map_filter_def)
  show ?case
    using Cons mem by (cases i; cases j) (auto simp: map_filter_simps split: option.splits)
qed simp

lemma schedule_inv_start:
  assumes "ctrl_inv c" "separate_puts ws c"
  shows "schedule_inv (threads ws) c"
  unfolding schedule_inv_def
proof (intro conjI allI impI)
  show "thread_ok t" if "live (threads ws) i t" for i t
    using that by (auto simp: live_def threads_def)
  show "i = j" if "live (threads ws) i t" "live (threads ws) j u" "put_name t = Some n" "put_name u = Some n" for i j t u n
    using that assms(2) distinct_map_filter [of put_target ws i j n]
    by (auto simp: live_def threads_def put_name_start separate_puts_def)
  fix i t n assume t: "live (threads ws) i t" "put_name t = Some n"
  then have w: "i < length ws" "put_target (ws ! i) = Some n" "t = start_thread (ws ! i)"
    by (auto simp: live_def threads_def put_name_start)
  then have "n \<in> set (List.map_filter put_target ws)" by (force simp: List.map_filter_def)
  then show "pendingFiles c n = None" using assms(2) by (auto simp: separate_puts_def)
  show "files c n = None" if "\<nexists>req. t = PutFiles req" using that put_start [OF w(2)] w(3) by blast
qed (rule assms)

lemma separate_puts_schedule:
  assumes "ctrl_inv c" "separate_puts ws c" "\<forall>x \<in> set s. background (snd x)"
    "run_schedule s (threads ws) c = Inr (c', outs, ts')"
  shows "ctrl_inv c'"
  using run_schedule_inv [OF assms(4) schedule_inv_start [OF assms(1,2)] assms(3)] by (simp add: schedule_inv_def)

end
