(* ===== verification/RaceProps.thy ===== *)
theory RaceProps
  imports Sections ControllerDemo
begin

text \<open>
  What the locks of the controller guarantee when handlers overlap, and the interleavings they let through.
\<close>

section \<open>Joining schedules\<close>

lemma run_schedule_append:
  "run_schedule (s1 @ s2) ts c = and_then (run_schedule s1 ts c) (\<lambda>(c1, o1, ts1).
     and_then (run_schedule s2 ts1 c1) (\<lambda>(c2, o2, ts2). Inr (c2, o1 @ o2, ts2)))"
  by (induction s1 ts c rule: run_schedule.induct)
    (auto simp: and_then_def split: sum.splits option.splits prod.splits)

lemma run_schedule_join:
  "run_schedule s1 ts c = Inr (c1, o1, ts1) \<Longrightarrow> run_schedule s2 ts1 c1 = Inr (c2, o2, ts2) \<Longrightarrow>
    run_schedule (s1 @ s2) ts c = Inr (c2, o1 @ o2, ts2)"
  by (simp add: run_schedule_append)

lemma run_turn:
  "i < length ts \<Longrightarrow> ts ! i = Some t \<Longrightarrow> section_step env t c = Inr (c', outs, t') \<Longrightarrow>
    run_schedule [(env, Turn i)] ts c = Inr (c', map (Pair i) outs, ts[i := t'])"
  by simp

text \<open>Any number of sections of one thread that only look.\<close>

lemma run_selections:
  assumes req: "pf_metadata req = Some md" "pf_chunk req = Some ch" and m: "m = unat (put_count req md ch)"
    and i: "i < length ts"
  shows "j \<le> m \<Longrightarrow> ts ! i = Some (PutSelect req j acs) \<Longrightarrow>
    allocate_chunks (env_nodes env) (ci_size ch) c [j..<m] = Some more_acs \<Longrightarrow>
    run_schedule (replicate (m - j + 1) (env, Turn i)) ts c = Inr (c, [], ts[i := Some (PutCommit req (acs @ more_acs))])"
  using i
proof (induction "m - j" arbitrary: j acs more_acs ts)
  case 0
  then show ?case using req m by (simp add: put_select_def section_simps)
next
  case (Suc d)
  then have up: "[j..<m] = j # [Suc j..<m]" by (simp add: upt_rec)
  obtain a more' where a: "allocate_chunks (env_nodes env) (ci_size ch) c [j] = Some a"
    and more': "allocate_chunks (env_nodes env) (ci_size ch) c [Suc j..<m] = Some more'" "more_acs = a @ more'"
    using Suc.prems(3) by (auto simp: up Let_def split: if_splits)
  let ?ts = "ts[i := Some (PutSelect req (Suc j) (acs @ a))]"
  have "run_schedule (replicate (m - Suc j + 1) (env, Turn i)) ?ts c =
      Inr (c, [], ?ts[i := Some (PutCommit req ((acs @ a) @ more'))])"
    using Suc.hyps(2) Suc.prems more' by (intro Suc.hyps(1)) auto
  moreover have "m - j + 1 = Suc (m - Suc j + 1)" using Suc.hyps(2) by simp
  ultimately show ?case
    using a more' Suc.hyps(2) Suc.prems req m by (simp add: put_select_def section_simps)
qed

text \<open>A request the controller would accept gets to its last section without changing anything.\<close>

lemma accepted_reaches_commit:
  assumes acc: "handlePutFile (env_now env) (env_nodes env) req c = Inr (c1, [Reply (SendPutFileResponse True msg al)])"
    and md: "pf_metadata req = Some md" and i: "i < length ts" "ts ! i = Some (PutFiles req)"
  obtains s acs ch where "run_schedule s ts c = Inr (c, [], ts[i := Some (PutCommit req acs)])"
    "\<And>c'. section_step env (PutCommit req acs) c' =
      finish (c'\<lparr>pendingFiles := (pendingFiles c')(fi_name md \<mapsto> new_upload (env_now env) md (put_count req md ch)),
                 pendingChunks := (pendingChunks c')(fi_name md \<mapsto> put_count req md ch)\<rparr>)
        [Reply (SendPutFileResponse True msg al)]"
    "pf_chunk req = Some ch"
  using acc
proof (cases rule: handlePutFile_cases)
  case (accepted md' ch acs n)
  have [simp]: "md' = md" using accepted md by simp
  have n: "n = put_count req md ch" using accepted by (simp add: put_count_def)
  let ?ts = "ts[i := Some (PutSelect req 0 [])]"
  have "run_schedule [(env, Turn i), (env, Turn i)] ts c = Inr (c, [], ?ts)"
    using i accepted by (simp add: section_simps put_pending_def)
  moreover have "run_schedule (replicate (unat n - 0 + 1) (env, Turn i)) ?ts c = Inr (c, [], ?ts[i := Some (PutCommit req ([] @ acs))])"
    using accepted i n by (intro run_selections [OF md accepted(2)]) auto
  ultimately have "run_schedule ([(env, Turn i), (env, Turn i)] @ replicate (unat n - 0 + 1) (env, Turn i)) ts c
      = Inr (c, [] @ [], ?ts[i := Some (PutCommit req ([] @ acs))])"
    by (rule run_schedule_join)
  note run = this [unfolded append_Nil list_update_overwrite]
  have "section_step env (PutCommit req acs) c' =
      finish (c'\<lparr>pendingFiles := (pendingFiles c')(fi_name md \<mapsto> new_upload (env_now env) md (put_count req md ch)),
                 pendingChunks := (pendingChunks c')(fi_name md \<mapsto> put_count req md ch)\<rparr>)
        [Reply (SendPutFileResponse True msg al)]" for c'
    using accepted allocate_chunks_metas [OF accepted(7)] md n
    by (simp add: section_simps new_upload_def SendPutFileResponse_def)
  from that [OF run this accepted(2)] show ?thesis .
qed (auto simp: SendPutFileResponse_def)

section \<open>Handlers and their critical sections\<close>



text \<open>C2: whatever messages are served at once, and however their critical sections and the background rounds
  interleave, the controller's invariant holds throughout, provided no two of the messages are PUT requests
  for one name and none is a PUT request for a name already pending.\<close>

theorem separate_puts_are_safe:
  assumes "reachable c" "separate_puts ws c" "\<forall>x \<in> set s. background (snd x)"
    "run_schedule s (threads ws) c = Inr (c', outs, ts')"
  shows "ctrl_inv c'"
  using separate_puts_schedule [of c ws s c' outs ts'] reachable_wal_inv [OF assms(1)] assms(2-4)
  by (simp add: wal_inv_def)

theorem separate_puts_are_safe_witness:
  "\<exists>c' outs ts'. run_schedule (map (Pair demo_env) [Turn 0, Turn 1, Turn 0, Timer HeartbeatTimer, Turn 0, Turn 1, Turn 0, Turn 0, Turn 0])
     (threads [Wrapper_PutFileReq demo_put, SendChunkStatusReport ''f'' 0 True ''a'']) demo_ready = Inr (c', outs, ts') \<and>
   pendingFiles c' ''f'' \<noteq> None \<and> ctrl_inv c'"
proof -
  let ?s = "map (Pair demo_env) [Turn 0, Turn 1, Turn 0, Timer HeartbeatTimer, Turn 0, Turn 1, Turn 0, Turn 0, Turn 0]"
  let ?ws = "[Wrapper_PutFileReq demo_put, SendChunkStatusReport ''f'' 0 True ''a'']"
  have one: "allocate_chunks (\<lambda>_. [''a'', ''b'', ''c'']) 100 c [i] =
      Some [(\<lparr>cn_metadata = Some (zero_ChunkInfo\<lparr>ci_id := word_of_nat i\<rparr>), cn_nodes = demo_targets\<rparr>, demo_chunk (word_of_nat i) [])]"
    if "nodes c = nodes demo_ready" for c i
    using demo_selectNodes [OF that] by (simp add: replicationFactor_def Let_def demo_targets_def demo_chunk_def)
  have beat: "monitorHeartbeats 0 demo_ready = demo_ready"
    by (auto simp: monitorHeartbeats_def demo_ready_def demo_node_def newController_def second_def fun_eq_iff)
  have fields: "files demo_ready = Map.empty" "pendingFiles demo_ready = Map.empty" "env_now demo_env = 0"
    "env_nodes demo_env = (\<lambda>_. [''a'', ''b'', ''c''])" "fi_name \<lparr>fi_name = ''f'', fi_size = 150\<rparr> = ''f''"
    by (simp_all add: demo_ready_def newController_def demo_env_def)
  obtain c' outs ts' where run: "run_schedule ?s (threads ?ws) demo_ready = Inr (c', outs, ts')" "pendingFiles c' ''f'' \<noteq> None"
    using one [OF refl]
    by (simp add: threads_def section_simps put_pending_def put_select_def ok_pending_def ok_stored_def put_count_def beat
        demo_put_def demo_num_chunks SendChunkStatusReport_def fields zero_ChunkInfo_def zero_NodeInfo_def
        del: allocate_chunks.simps)
  have "separate_puts ?ws demo_ready"
    by (simp add: separate_puts_def List.map_filter_def demo_put_def SendChunkStatusReport_def demo_ready_def newController_def)
  moreover have "\<forall>x \<in> set ?s. background (snd x)" by (simp add: background_def)
  ultimately have "ctrl_inv c'"
    using separate_puts_are_safe [OF clean_reachable [OF demo_ready_clean] _ _ run(1)] by blast
  with run show ?thesis by blast
qed

section \<open>Interleavings that go wrong\<close>

text \<open>C34: two PUT requests for one name that each would be accepted alone are both accepted when both pass the checks
  before either is entered: both clients are told to upload, and the second entry replaces the first. One after
  the other, the second is refused.\<close>

theorem two_uploads_of_one_name:
  fixes env :: ctrl_env
  assumes acc1: "handlePutFile (env_now env) (env_nodes env) req1 c = Inr (c1, [Reply (SendPutFileResponse True msg1 al1)])"
    and acc2: "handlePutFile (env_now env) (env_nodes env) req2 c = Inr (c2, [Reply (SendPutFileResponse True msg2 al2)])"
    and md: "pf_metadata req1 = Some md1" "pf_metadata req2 = Some md2" "fi_name md2 = fi_name md1"
  shows "\<exists>s c' n. run_schedule s (threads [Wrapper_PutFileReq req1, Wrapper_PutFileReq req2]) c =
      Inr (c', [(0, Reply (SendPutFileResponse True msg1 al1)), (1, Reply (SendPutFileResponse True msg2 al2))], [None, None])
    \<and> pendingFiles c' (fi_name md1) = Some (new_upload (env_now env) md2 n)
    \<and> handlePutFile (env_now env) (env_nodes env) req2 c1 =
      Inr (c1, [Reply (SendPutFileResponse False ''File is currently being uploaded'' [])])"
proof -
  let ?ts = "threads [Wrapper_PutFileReq req1, Wrapper_PutFileReq req2]"
  obtain s1 acs1 ch1 where s1: "run_schedule s1 ?ts c = Inr (c, [], ?ts[0 := Some (PutCommit req1 acs1)])"
    and e1: "\<And>c'. section_step env (PutCommit req1 acs1) c' =
      finish (c'\<lparr>pendingFiles := (pendingFiles c')(fi_name md1 \<mapsto> new_upload (env_now env) md1 (put_count req1 md1 ch1)),
                 pendingChunks := (pendingChunks c')(fi_name md1 \<mapsto> put_count req1 md1 ch1)\<rparr>)
        [Reply (SendPutFileResponse True msg1 al1)]"
    by (rule accepted_reaches_commit [OF acc1 md(1), where i = 0 and ts = ?ts]) (simp_all add: threads_def)
  let ?ts1 = "?ts[0 := Some (PutCommit req1 acs1)]"
  obtain s2 acs2 ch2 where s2: "run_schedule s2 ?ts1 c = Inr (c, [], ?ts1[1 := Some (PutCommit req2 acs2)])"
    and e2: "\<And>c'. section_step env (PutCommit req2 acs2) c' =
      finish (c'\<lparr>pendingFiles := (pendingFiles c')(fi_name md2 \<mapsto> new_upload (env_now env) md2 (put_count req2 md2 ch2)),
                 pendingChunks := (pendingChunks c')(fi_name md2 \<mapsto> put_count req2 md2 ch2)\<rparr>)
        [Reply (SendPutFileResponse True msg2 al2)]"
    by (rule accepted_reaches_commit [OF acc2 md(2), where i = 1 and ts = ?ts1]) (simp_all add: threads_def)
  let ?s3 = "[(env, Turn 0), (env, Turn 1)]"
  obtain c' where s3: "run_schedule ?s3 (?ts1[1 := Some (PutCommit req2 acs2)]) c =
      Inr (c', [(0, Reply (SendPutFileResponse True msg1 al1)), (1, Reply (SendPutFileResponse True msg2 al2))], [None, None])"
    "pendingFiles c' (fi_name md1) = Some (new_upload (env_now env) md2 (put_count req2 md2 ch2))"
    using md(3) by (simp add: threads_def e1 e2 finish_def del: section_step.simps)
  have "handlePutFile (env_now env) (env_nodes env) req2 c1 =
      Inr (c1, [Reply (SendPutFileResponse False ''File is currently being uploaded'' [])])"
    using acc1
  proof (cases rule: handlePutFile_cases)
    case (accepted md' ch acs n)
    then show ?thesis using md by (simp add: handlePutFile_def Let_def)
  qed (simp add: SendPutFileResponse_def)
  with run_schedule_join [OF run_schedule_join [OF s1 s2] s3(1), unfolded append_Nil] s3(2) show ?thesis
    by blast
qed

theorem two_uploads_of_one_name_witness:
  "\<exists>s c'. run_schedule s (threads [Wrapper_PutFileReq demo_put, Wrapper_PutFileReq demo_put]) demo_ready =
     Inr (c', [(0, Reply (SendPutFileResponse True ''Allocation successful'' demo_allocation)),
               (1, Reply (SendPutFileResponse True ''Allocation successful'' demo_allocation))], [None, None])"
proof -
  have "handlePutFile (env_now demo_env) (env_nodes demo_env) demo_put demo_ready =
      Inr (demo_pending demo_empty 2, [Reply (SendPutFileResponse True ''Allocation successful'' demo_allocation)])"
    using demo_put_run by (simp add: demo_env_def)
  from two_uploads_of_one_name [OF this this, of "\<lparr>fi_name = ''f'', fi_size = 150\<rparr>" "\<lparr>fi_name = ''f'', fi_size = 150\<rparr>"]
  show ?thesis by (auto simp: demo_put_def)
qed

text \<open>The two checks of a PUT request look at the file table first and at the pending table later. When the last
  success report of a pending upload comes in between, the name is in neither table when the request looks;
  it is accepted, and the name is stored and pending at once.\<close>

lemma put_between_the_tables:
  fixes env :: ctrl_env
  assumes inv: "ctrl_inv c" and pend: "pendingFiles c n \<noteq> None"
    and rep: "report_success (env_io env 0) n cid addr c = Inr c2" "files c2 n \<noteq> None"
    and req: "pf_metadata req = Some md" "fi_name md = n" "pf_chunk req = Some ch" "ci_size ch \<noteq> 0"
    and room: "allocate_chunks (env_nodes env) (ci_size ch) c2 [0..<unat (put_count req md ch)] = Some acs"
  shows "\<exists>s c'. run_schedule s (threads [Wrapper_PutFileReq req, SendChunkStatusReport n cid True addr]) c =
      Inr (c', [(0, Reply (SendPutFileResponse True ''Allocation successful'' (map fst acs)))], [None, None])
    \<and> files c' n \<noteq> None \<and> pendingFiles c' n \<noteq> None \<and> \<not> ctrl_inv c'"
proof -
  let ?ts = "threads [Wrapper_PutFileReq req, SendChunkStatusReport n cid True addr]"
  have files: "files c n = None" using inv pend by (auto simp: ctrl_inv_def)
  have "ctrl_inv c2" using report_success_inv rep inv by blast
  then have pend2: "pendingFiles c2 n = None" using rep(2) by (auto simp: ctrl_inv_def)
  let ?ts1 = "[Some (PutSelect req 0 []), None]"
  have s1: "run_schedule [(env, Turn 0), (env, Turn 1), (env, Turn 0)] ?ts c = Inr (c2, [], ?ts1)"
    using files pend rep(1) pend2 req
    by (simp add: threads_def SendChunkStatusReport_def section_simps put_pending_def ok_pending_def zero_ChunkInfo_def
        zero_NodeInfo_def)
  let ?m = "unat (put_count req md ch)"
  have s2: "run_schedule (replicate (?m - 0 + 1) (env, Turn 0)) ?ts1 c2 = Inr (c2, [], ?ts1[0 := Some (PutCommit req ([] @ acs))])"
    by (rule run_selections [OF req(1,3) refl _ _ _ room]) simp_all
  obtain c' where s3: "run_schedule [(env, Turn 0)] (?ts1[0 := Some (PutCommit req ([] @ acs))]) c2 =
      Inr (c', [(0, Reply (SendPutFileResponse True ''Allocation successful'' (map fst acs)))], [None, None])"
    "files c' n \<noteq> None" "pendingFiles c' n \<noteq> None"
    using req rep(2) by (simp add: section_simps)
  moreover have "\<not> ctrl_inv c'" using s3(2,3) by (auto simp: ctrl_inv_def)
  ultimately show ?thesis using run_schedule_join [OF run_schedule_join [OF s1 s2] s3(1)] by (metis append_Nil)
qed

theorem put_between_the_tables_witness:
  "\<exists>s c'. run_schedule s (threads [Wrapper_PutFileReq demo_put, SendChunkStatusReport ''f'' 1 True ''b'']) (demo_pending demo_half 1) =
     Inr (c', [(0, Reply (SendPutFileResponse True ''Allocation successful'' demo_allocation))], [None, None]) \<and>
   files c' ''f'' \<noteq> None \<and> pendingFiles c' ''f'' \<noteq> None"
proof -
  let ?c2 = "demo_stored (demo_meta demo_full)"
  have "ctrl_inv (demo_pending demo_half 1)"
    using reachable_wal_inv [OF demo_half_reachable] by (simp add: wal_inv_def)
  moreover have "pendingFiles (demo_pending demo_half 1) ''f'' \<noteq> None" by (simp add: demo_pending_def)
  moreover have "files ?c2 ''f'' \<noteq> None" by (simp add: demo_stored_def)
  moreover have "allocate_chunks (env_nodes demo_env) 100 ?c2 [0..<unat (2 :: u64)] = Some (zip demo_allocation demo_empty)"
    using demo_allocate [of ?c2] by (simp add: demo_stored_def demo_env_def)
  moreover have "map fst (zip demo_allocation demo_empty) = demo_allocation" by (simp add: demo_allocation_def)
  ultimately show ?thesis
    using put_between_the_tables [OF _ _ demo_second_report, where req = demo_put
        and md = "\<lparr>fi_name = ''f'', fi_size = 150\<rparr>" and ch = "zero_ChunkInfo\<lparr>ci_size := 100\<rparr>"
        and acs = "zip demo_allocation demo_empty"]
    by (simp add: demo_put_def put_count_def demo_num_chunks) blast
qed

text \<open>C36: a failure report looks for its file in the file table first and in the pending table later. When the upload
  completes in between, the report finds it in neither: the bad copy stays listed, although the report
  handled before or after the completion would have removed it.\<close>

theorem failure_report_lost:
  fixes env :: ctrl_env
  assumes pend: "files c n = None"
    and rep: "report_success (env_io env 0) n cid' addr' c = Inr c2" "files c2 n = Some m" "pendingFiles c2 n = None"
  shows "run_schedule [(env, Turn 0), (env, Turn 1), (env, Turn 0)]
      (threads [SendChunkStatusReport n cid False addr, SendChunkStatusReport n cid' True addr']) c = Inr (c2, [], [None, None])
    \<and> (\<forall>c3. report_failure (env_io env 0) n cid addr c2 = Inr c3 \<longrightarrow>
         files c3 n = Some (map_chunk cid (drop_node addr) m))"
proof -
  have "pendingFiles c n \<noteq> None"
  proof
    assume "pendingFiles c n = None"
    then have "c2 = c" using pend rep(1) by (simp add: report_success_def)
    with pend rep(2) show False by simp
  qed
  then have "run_schedule [(env, Turn 0), (env, Turn 1), (env, Turn 0)]
      (threads [SendChunkStatusReport n cid False addr, SendChunkStatusReport n cid' True addr']) c = Inr (c2, [], [None, None])"
    using pend rep
    by (simp add: threads_def SendChunkStatusReport_def section_simps ok_pending_def fail_files_def fail_pending_def
        zero_ChunkInfo_def zero_NodeInfo_def)
  moreover have same: "map_chunk cid f m = m" if "find (is_chunk cid) (fm_chunks m) = None" for f
    using update_first_absent [OF that] by (simp add: map_chunk_def)
  have "files c3 n = Some (map_chunk cid (drop_node addr) m)" if "report_failure (env_io env 0) n cid addr c2 = Inr c3" for c3
    using that rep(2,3) same
    by (auto simp: report_failure_def and_then_eq_Inr Let_def ctrl_simps split: option.splits)
  ultimately show ?thesis by blast
qed

theorem failure_report_lost_witness:
  "run_schedule [(demo_env, Turn 0), (demo_env, Turn 1), (demo_env, Turn 0)]
     (threads [SendChunkStatusReport ''f'' 0 False ''a'', SendChunkStatusReport ''f'' 1 True ''b'']) (demo_pending demo_half 1) =
     Inr (demo_stored (demo_meta demo_full), [], [None, None]) \<and>
   chunk_nodes (fm_chunks (demo_meta demo_full) ! 0) = [''a'']"
proof -
  have "files (demo_pending demo_half 1) ''f'' = None" by (simp add: demo_pending_def demo_ready_def newController_def)
  moreover have "files (demo_stored (demo_meta demo_full)) ''f'' = Some (demo_meta demo_full)"
    "pendingFiles (demo_stored (demo_meta demo_full)) ''f'' = None"
    by (simp_all add: demo_stored_def demo_ready_def newController_def)
  ultimately show ?thesis using failure_report_lost [OF _ demo_second_report, of "demo_meta demo_full" 0 "''a''"]
    by (simp add: demo_meta_def demo_chunk_def)
qed

end
