(* ===== verification/NodeLife.thy ===== *)
theory NodeLife
  imports Replication ControllerDemo
begin

text \<open>
  The loops of \<open>registerWithController\<close> and \<open>startHeartbeats\<close> in \<open>dfs/server/server.go\<close>, run against the
  controller: what one pass of each loop sends, what the controller makes of it, where the node goes on and
  how long it sleeps. What the network does to a pass is an input.
\<close>

section \<open>One pass of a loop\<close>

datatype link = DialFails | SendFails | AnswerLost | Delivered

datatype node_phase =
    Registering  \<comment> \<open>at the head of the loop of \<open>registerWithController\<close>\<close>
  | Dialling  \<comment> \<open>at the head of the outer loop of \<open>startHeartbeats\<close>\<close>
  | Beating  \<comment> \<open>at the head of its inner loop, connected\<close>

definition first_reply :: "ctrl_out list \<Rightarrow> wrapper option" where
  "first_reply outs = (case outs of Reply w # _ \<Rightarrow> Some w | _ \<Rightarrow> None)"

text \<open>A message to the controller and the answer the node gets to see.\<close>

definition exchange :: "link \<Rightarrow> ctrl_env \<Rightarrow> wrapper \<Rightarrow> controller \<Rightarrow> (wrapper option \<times> controller) result" where
  "exchange link env w c = (case link of
      DialFails \<Rightarrow> Inr (None, c)
    | SendFails \<Rightarrow> Inr (None, c)
    | AnswerLost \<Rightarrow> and_then (handleConnection env w c) (\<lambda>(c', outs). Inr (None, c'))
    | Delivered \<Rightarrow> and_then (handleConnection env w c) (\<lambda>(c', outs). Inr (first_reply outs, c')))"

type_synonym pass_end = "(node_phase \<times> time \<times> controller) result"

text \<open>Registration: without a connection, an answer or success it sleeps for five seconds and tries again.\<close>

definition registerWithController :: "link \<Rightarrow> ctrl_env \<Rightarrow> string \<times> string \<Rightarrow> controller \<Rightarrow> pass_end" where
  "registerWithController link env me c =
     and_then (exchange link env (SendRegistrationRequest (fst me) (snd me)) c) (\<lambda>(answer, c').
       Inr (if registered answer then (Dialling, 0, c') else (Registering, 5 * second, c')))"

definition dial_controller :: "link \<Rightarrow> controller \<Rightarrow> pass_end" where
  "dial_controller link c = Inr (if link = DialFails then (Dialling, 5 * second, c) else (Beating, 0, c))"

definition send_heartbeat :: "link \<Rightarrow> ctrl_env \<Rightarrow> wrapper \<Rightarrow> controller \<Rightarrow> pass_end" where
  "send_heartbeat link env beat c = and_then (exchange link env beat c) (\<lambda>(answer, c').
     Inr (case heartbeat_answer answer of
       Reconnect \<Rightarrow> (Dialling, 0, c')
     | Reregister \<Rightarrow> (Registering, 0, c')
     | SleepAndRepeat \<Rightarrow> (Beating, 5 * second, c')))"

text \<open>The node's goroutine: the heartbeat carries the space and load the node has at that time.\<close>

fun startHeartbeats ::
    "link \<Rightarrow> ctrl_env \<Rightarrow> string \<times> string \<Rightarrow> u64 \<Rightarrow> u64 \<Rightarrow> storage_node \<Rightarrow> node_phase \<Rightarrow> controller \<Rightarrow> pass_end" where
  "startHeartbeats link env me used free s Registering c = registerWithController link env me c"
| "startHeartbeats link env me used free s Dialling c = dial_controller link c"
| "startHeartbeats link env me used free s Beating c = send_heartbeat link env (heartbeat_message (fst me) used free s) c"

section \<open>A node among the other events\<close>

datatype life = Pass link u64 u64 storage_node | Event ctrl_event

fun node_life :: "string \<times> string \<Rightarrow> (ctrl_env \<times> life) list \<Rightarrow> node_phase \<Rightarrow> controller \<Rightarrow> (node_phase \<times> controller) result" where
  "node_life me [] ph c = Inr (ph, c)"
| "node_life me ((env, Pass link used free s) # es) ph c =
     and_then (startHeartbeats link env me used free s ph c) (\<lambda>(ph', wait, c'). node_life me es ph' c')"
| "node_life me ((env, Event ev) # es) ph c = and_then (ctrl_exec env ev c) (\<lambda>(c', outs). node_life me es ph c')"

section \<open>Who touches the registry\<close>

fun node_message :: "string \<Rightarrow> ctrl_event \<Rightarrow> bool" where
  "node_message nid (Recv (Wrapper_RegistrationReq nd)) \<longleftrightarrow> map_option ni_id nd = Some nid"
| "node_message nid (Recv (Wrapper_Heartbeat nd)) \<longleftrightarrow> map_option ni_id nd = Some nid"
| "node_message nid ev \<longleftrightarrow> False"

lemma report_success_nodes: "report_success io n cid addr c = Inr c' \<Longrightarrow> nodes c' = nodes c"
  by (auto simp: report_success_def count_first_copy_def and_then_eq_Inr Let_def ctrl_simps split: option.splits if_splits)

lemma report_failure_nodes: "report_failure io n cid addr c = Inr c' \<Longrightarrow> nodes c' = nodes c"
  by (erule report_failure_cases) (auto simp: ctrl_simps split: option.splits)

lemma handleConnection_nodes:
  assumes run: "handleConnection env w c = Inr (c', outs)" and other: "\<not> node_message nid (Recv w)"
  shows "nodes c' nid = nodes c nid"
proof (cases w)
  case (Wrapper_PutFileReq req)
  with run have "handlePutFile (env_now env) (env_nodes env) req c = Inr (c', outs)" by simp
  then show ?thesis by (cases rule: handlePutFile_cases) auto
next
  case (Wrapper_ChunkStatusReport req)
  with run show ?thesis
    by (auto simp: handleChunkStatusReport_def and_then_eq_Inr dest: report_success_nodes report_failure_nodes split: if_splits)
qed (use run other in \<open>auto simp: and_then_eq_Inr registerNode_def updateHeartbeat_def handleGetFile_def handleLeaseRenew_def
    handleReplicaNodes_def handleDeleteFile_def handleListFiles_def handleNodeStats_def Let_def ctrl_simps
    split: option.splits if_splits\<close>)

lemma maintain_nodes: "processReplication nord ford ios c = Inr (c', outs) \<Longrightarrow> nodes c' = nodes c"
  by (auto simp: processReplication_def Let_def dest: maintain_files_frame split: if_splits)

text \<open>Another event keeps a node's entry, but for a sweep more than fifteen seconds after its last heartbeat.\<close>

lemma ctrl_exec_nodes:
  assumes run: "ctrl_exec env ev c = Inr (c', outs)" and other: "\<not> node_message nid ev"
  shows "nodes c' nid = nodes c nid \<or>
    nodes c' nid = None \<and> (\<forall>info. nodes c nid = Some info \<longrightarrow> 15 * second < env_now env - lastHeartbeat info)"
proof (cases ev)
  case (Recv w)
  with assms handleConnection_nodes show ?thesis by fastforce
next
  case HeartbeatTimer
  with run show ?thesis by (auto simp: monitorHeartbeats_def split: option.splits if_splits)
next
  case LeaseTimer
  with run show ?thesis by (auto simp: monitorLeases_def Let_def)
next
  case MaintenanceTimer
  with run show ?thesis by (auto dest: maintain_nodes)
qed

section \<open>Coming back\<close>

text \<open>
  The entry is the node's own, or there is none; it is fresh when it was written since an instant; and the
  number of undisturbed passes after which a fresh entry exists.
\<close>

definition own_entry :: "string \<times> string \<Rightarrow> controller \<Rightarrow> bool" where
  "own_entry me c \<longleftrightarrow> (\<forall>info. nodes c (fst me) = Some info \<longrightarrow> node_address info = snd me)"

definition fresh_entry :: "time \<Rightarrow> string \<times> string \<Rightarrow> controller \<Rightarrow> bool" where
  "fresh_entry t me c \<longleftrightarrow> (\<exists>info. nodes c (fst me) = Some info \<and> node_address info = snd me \<and> t \<le> lastHeartbeat info)"

fun passes_left :: "node_phase \<Rightarrow> nat" where
  "passes_left Registering = 1"
| "passes_left Beating = 2"
| "passes_left Dialling = 3"

lemma pass_progress:
  assumes run: "startHeartbeats Delivered env me used free s ph c = Inr (ph', wait, c')"
    and own: "own_entry me c" and t: "t \<le> env_now env"
  shows "own_entry me c' \<and> (fresh_entry t me c \<longrightarrow> fresh_entry t me c') \<and>
    (fresh_entry t me c' \<or> passes_left ph' < passes_left ph)"
  using assms
  by (cases ph)
    (auto simp: registerWithController_def dial_controller_def send_heartbeat_def exchange_def SendRegistrationRequest_def
      heartbeat_message_def SendHeartbeat_def updateHeartbeat_def registerNode_def and_then_eq_Inr registered_def ok_response_def
      first_reply_def SendResponse_def GetResponse_def heartbeat_answer_def zero_NodeInfo_def own_entry_def fresh_entry_def
      split: option.splits if_splits)

lemma event_keeps:
  assumes run: "ctrl_exec env ev c = Inr (c', outs)" and other: "\<not> node_message (fst me) ev"
  shows "own_entry me c \<Longrightarrow> own_entry me c'"
    "fresh_entry t me c \<Longrightarrow> env_now env \<le> t + 15 * second \<Longrightarrow> fresh_entry t me c'"
  using ctrl_exec_nodes [OF run other] by (auto simp: own_entry_def fresh_entry_def)

definition passes :: "(ctrl_env \<times> life) list \<Rightarrow> nat" where
  "passes es = length (filter (\<lambda>(env, e). case e of Pass _ _ _ _ \<Rightarrow> True | _ \<Rightarrow> False) es)"

text \<open>Within a window of fifteen seconds, with every pass served and no other node of the same id.\<close>

definition calm :: "time \<Rightarrow> string \<times> string \<Rightarrow> ctrl_env \<times> life \<Rightarrow> bool" where
  "calm t me e \<longleftrightarrow> t \<le> env_now (fst e) \<and> env_now (fst e) \<le> t + 15 * second \<and>
     (case snd e of Pass link _ _ _ \<Rightarrow> link = Delivered | Event ev \<Rightarrow> \<not> node_message (fst me) ev)"

lemma node_life_fresh:
  "node_life me es ph c = Inr (ph', c') \<Longrightarrow> own_entry me c \<Longrightarrow> \<forall>e \<in> set es. calm t me e \<Longrightarrow>
    fresh_entry t me c \<or> passes_left ph \<le> passes es \<Longrightarrow> own_entry me c' \<and> fresh_entry t me c'"
proof (induction me es ph c rule: node_life.induct)
  case (1 me ph c)
  then show ?case by (cases ph) (auto simp: passes_def)
next
  case (2 me env link used free s es ph c)
  then obtain ph1 w c1 where step: "startHeartbeats Delivered env me used free s ph c = Inr (ph1, w, c1)"
    and rest: "node_life me es ph1 c1 = Inr (ph', c')" and link: "link = Delivered"
    by (auto simp: and_then_eq_Inr calm_def)
  have p: "own_entry me c1" "fresh_entry t me c \<longrightarrow> fresh_entry t me c1" "fresh_entry t me c1 \<or> passes_left ph1 < passes_left ph"
    using pass_progress [OF step] 2(3,4) by (auto simp: calm_def)
  have "passes ((env, Pass link used free s) # es) = Suc (passes es)" by (simp add: passes_def)
  then have "fresh_entry t me c1 \<or> passes_left ph1 \<le> passes es" using p 2(5) by auto
  with 2(1) [OF rest p(1)] 2(4) p(2) show ?case by auto
next
  case (3 me env ev es ph c)
  then obtain c1 outs where step: "ctrl_exec env ev c = Inr (c1, outs)" and rest: "node_life me es ph c1 = Inr (ph', c')"
    by (auto simp: and_then_eq_Inr)
  have ev: "\<not> node_message (fst me) ev" "env_now env \<le> t + 15 * second" using 3(4) by (auto simp: calm_def)
  have "passes ((env, Event ev) # es) = passes es" by (simp add: passes_def)
  with 3(5) event_keeps [OF step ev(1)] ev(2) have "fresh_entry t me c1 \<or> passes_left ph \<le> passes es" by auto
  with 3(1) [OF rest] event_keeps(1) [OF step ev(1) 3(3)] 3(4) show ?case by auto
qed

section \<open>Properties\<close>


definition demo_storage :: storage_node where
  "demo_storage = \<lparr>myAddr = ''d.x:9'', disk = \<lparr>fs_dirs = {}, fs_names = Map.empty, fs_data = (\<lambda>_. []), fs_next = 0\<rparr>,
     activeWrites = {}, activeRequests = 0\<rparr>"


text \<open>C37: a node's id is made of the first label of its host name, its address of the whole name. Of two hosts whose names
  share the first label, at the same port, the one that registers later takes over the entry of the other: the
  other's heartbeats are still acknowledged, so it never registers again, but it is never selected, and the next
  maintenance round removes its copies from every chunk.\<close>

theorem short_name_hides_node:
  assumes ids: "node_identity h1 port = (nid, a1)" "node_identity h2 port = (nid, a2)" "a1 \<noteq> a2"
    and other: "\<forall>k info. nodes c k = Some info \<longrightarrow> k \<noteq> nid \<longrightarrow> node_address info \<noteq> a1"
    and first: "startHeartbeats Delivered env1 (node_identity h1 port) used1 free1 s1 Registering c = Inr (ph1, w1, c1)"
    and snd: "startHeartbeats Delivered env2 (node_identity h2 port) used2 free2 s2 Registering c1 = Inr (ph2, w2, c2)"
  shows "(\<exists>c3. startHeartbeats Delivered env (node_identity h1 port) used free s Beating c2 = Inr (Beating, 5 * second, c3)) \<and>
    a1 \<notin> set (selectNodes n csz excl ord c2) \<and>
    (\<forall>nord ford ios c4 outs. processReplication nord ford ios c2 = Inr (c4, outs) \<longrightarrow> covers nord (nodes c2) \<longrightarrow>
       covers ford (files c2) \<longrightarrow> (\<forall>m \<in> ran (files c4). \<forall>ch \<in> set (fm_chunks m). a1 \<notin> set (chunk_nodes ch)))"
proof -
  have c1: "c1 = registerNode (env_now env1) nid a1 c" and c2: "c2 = registerNode (env_now env2) nid a2 c1"
    using first snd ids
    by (auto simp: registerWithController_def exchange_def SendRegistrationRequest_def zero_NodeInfo_def split: if_splits)
  have gone: "node_address info \<noteq> a1" if "nodes c2 k = Some info" for k info
    using that other ids(3) by (auto simp: c1 c2 registerNode_def split: if_splits)
  have "\<exists>c3. startHeartbeats Delivered env (node_identity h1 port) used free s Beating c2 = Inr (Beating, 5 * second, c3)"
    by (simp add: ids c1 c2 send_heartbeat_def exchange_def heartbeat_message_def SendHeartbeat_def updateHeartbeat_def
        registerNode_def first_reply_def SendResponse_def GetResponse_def heartbeat_answer_def zero_NodeInfo_def)
  moreover have "a1 \<notin> set (selectNodes n csz excl ord c2)"
  proof
    assume "a1 \<in> set (selectNodes n csz excl ord c2)"
    then show False by (rule set_selectNodes) (use gone in auto)
  qed
  moreover have "a1 \<notin> set (chunk_nodes ch)"
    if run: "processReplication nord ford ios c2 = Inr (c4, outs)" and cov: "covers nord (nodes c2)" "covers ford (files c2)"
      and ch: "m \<in> ran (files c4)" "ch \<in> set (fm_chunks m)" for nord ford ios c4 outs m ch
  proof -
    have "nodes c2 \<noteq> Map.empty" by (auto simp: c2 registerNode_def fun_eq_iff)
    with run cov have files: "files c4 k = map_option (maintain_file (active_addresses nord c2)) (files c2 k)" for k
      by (rule processReplication_run(1))
    have "a1 \<notin> set (active_addresses nord c2)"
      using gone by (fastforce simp: active_addresses_def set_range_keys dom_def)
    moreover from ch obtain ch0 where "ch = maintain_chunk (active_addresses nord c2) ch0"
      by (auto simp: ran_def files maintain_file_def)
    ultimately show ?thesis by (simp add: live_nodes_def)
  qed
  ultimately show ?thesis by blast
qed

theorem short_name_hides_node_witness:
  "\<exists>c1 c2. startHeartbeats Delivered demo_env (node_identity ''a.x'' ''9'') 0 0 demo_storage Registering demo_ready = Inr (Dialling, 0, c1) \<and>
     startHeartbeats Delivered demo_env (node_identity ''a.y'' ''9'') 0 0 demo_storage Registering c1 = Inr (Dialling, 0, c2) \<and>
     ''a.x:9'' \<notin> set (selectNodes 3 1 [] [''a:9''] c2)"
proof -
  have ids: "node_identity ''a.x'' ''9'' = (''a:9'', ''a.x:9'')" "node_identity ''a.y'' ''9'' = (''a:9'', ''a.y:9'')" by code_simp+
  have other: "\<forall>k info. nodes demo_ready k = Some info \<longrightarrow> k \<noteq> ''a:9'' \<longrightarrow> node_address info \<noteq> ''a.x:9''"
    by (simp add: demo_ready_def demo_node_def)
  have reg: "startHeartbeats Delivered demo_env me 0 0 demo_storage Registering c =
      Inr (Dialling, 0, registerNode 0 (fst me) (snd me) c)" for me c
    by (simp add: registerWithController_def exchange_def SendRegistrationRequest_def zero_NodeInfo_def registered_def
        ok_response_def first_reply_def SendResponse_def GetResponse_def demo_env_def)
  show ?thesis
    using short_name_hides_node [OF ids _ other reg reg] reg by simp
qed

end
