(* ===== verification/StoreSpec.thy ===== *)
theory StoreSpec
  imports StorageProps
begin

text \<open>
  What a storage node promises, as an abstract machine: a map from chunks to bytes, and what the running stores have
  announced. The detailed node of \<open>ChunkStore\<close> and \<open>Replication\<close>, with paths, shared file handles, checksum files and
  marks, is shown to be an implementation of it.
\<close>

section \<open>The abstract machine\<close>

type_synonym chunk_key = "string \<times> u64"

record chunk_map =
  stored :: "chunk_key \<rightharpoonup> bytes"
  busy :: "chunk_key \<rightharpoonup> ChunkInfo"

definition key_of :: "ChunkInfo \<Rightarrow> chunk_key" where
  "key_of md = (path_base (ci_file_name md), ci_id md)"

text \<open>The bytes a store announced: as many, and with that checksum.\<close>

definition announced :: "(bytes \<Rightarrow> bytes) \<Rightarrow> ChunkInfo \<Rightarrow> bytes \<Rightarrow> bool" where
  "announced md5 md data \<longleftrightarrow> length data = unat (ci_size md) \<and> md5 data = ci_checksum md"

text \<open>The bytes a peer offers in answer to a repair, as announced by the peer.\<close>

definition offered :: "(bytes \<Rightarrow> bytes) \<Rightarrow> (string \<Rightarrow> peer_pull) \<Rightarrow> bytes \<Rightarrow> bool" where
  "offered md5 peers data \<longleftrightarrow> (\<exists>a w resp md. pp_answer (peers a) = Some w \<and> GetRetrieveChunkResp w = Some resp \<and>
     rcr_metadata resp = Some md \<and> announced md5 md data \<and> data = take (unat (ci_size md)) (pp_stream (peers a)))"

text \<open>
  Operations of the machine: a store is opened with what it announces and closed with the bytes that came; a file's
  chunks are deleted; a chunk is repaired from peers.
\<close>

datatype chunk_op =
    SpecOpen "ChunkInfo option"
  | SpecClose chunk_key bytes
  | SpecDelete "FileInfo option"
  | SpecRepair "string \<Rightarrow> peer_pull" chunk_key

text \<open>
  Every operation may leave everything as it is, for want of disk or peers, except a close: that one leaves the bytes that
  came, provided they are what was announced, or nothing. Opening a chunk takes its old contents away; a repair
  leaves the chunk, removes it, or replaces it by what a peer offered.
\<close>

inductive spec_step :: "(bytes \<Rightarrow> bytes) \<Rightarrow> chunk_op \<Rightarrow> chunk_map \<Rightarrow> chunk_map \<Rightarrow> bool" for md5 where
  refuses: "spec_step md5 (SpecOpen md) m m"
| opens: "busy m (key_of md) = None \<Longrightarrow>
    spec_step md5 (SpecOpen (Some md)) m (m\<lparr>stored := (stored m)(key_of md := None), busy := (busy m)(key_of md \<mapsto> md)\<rparr>)"
| closes: "busy m k = Some md \<Longrightarrow>
    (\<forall>data. x = Some data \<longrightarrow> announced md5 md data \<and> data = take (unat (ci_size md)) stream) \<Longrightarrow>
    spec_step md5 (SpecClose k stream) m (m\<lparr>stored := (stored m)(k := x), busy := (busy m)(k := None)\<rparr>)"
| keeps: "spec_step md5 (SpecDelete fi) m m"
| deletes: "spec_step md5 (SpecDelete (Some fi)) m
    (m\<lparr>stored := (\<lambda>k. if fst k = path_base (fi_name fi) then None else stored m k)\<rparr>)"
| repairs: "busy m k = None \<Longrightarrow> x = stored m k \<or> (\<forall>data. x = Some data \<longrightarrow> offered md5 peers data) \<Longrightarrow>
    spec_step md5 (SpecRepair peers k) m (m\<lparr>stored := (stored m)(k := x)\<rparr>)"

inductive spec_run :: "(bytes \<Rightarrow> bytes) \<Rightarrow> chunk_op list \<Rightarrow> chunk_map \<Rightarrow> chunk_map \<Rightarrow> bool" for md5 where
  spec_run_Nil: "spec_run md5 [] m m"
| spec_run_Cons: "spec_step md5 op m m' \<Longrightarrow> spec_run md5 ops m' m'' \<Longrightarrow> spec_run md5 (op # ops) m m''"

text \<open>What a chunk request is answered.\<close>

definition spec_retrieve :: "(bytes \<Rightarrow> bytes) \<Rightarrow> ChunkInfo \<Rightarrow> chunk_map \<Rightarrow> srv_out list" where
  "spec_retrieve md5 md m =
     (if busy m (key_of md) \<noteq> None then [Answer (SendRetrieveChunkResponse False ''Chunk is currently being written'' 0 [])]
      else case stored m (key_of md) of
        None \<Rightarrow> [Answer (SendRetrieveChunkResponse False ''Chunk corrupted'' 0 []), GoRepairChunk (ci_file_name md) (ci_id md)]
      | Some data \<Rightarrow> [Answer (SendRetrieveChunkResponse True ''Ready to send chunk data'' (word_of_nat (length data)) (md5 data)),
          RawBytes (take (unat (word_of_nat (length data) :: u32)) data)])"

section \<open>The abstraction\<close>

definition key_path :: "chunk_key \<Rightarrow> path" where
  "key_path k = chunkPath (fst k) (snd k)"

lemma key_path_inj [simp]: "key_path k = key_path k' \<longleftrightarrow> k = k'"
  by (cases k; cases k') (simp add: key_path_def)

lemma key_path_not_checksum [simp]: "key_path k \<noteq> checksumPath (key_path k')"
  by (simp add: key_path_def)

lemma dir_key_path [simp]: "path_dir (key_path k) = fst k"
  by (simp add: key_path_def)

lemma path_of_key: "chunk_path_of md = key_path (key_of md)"
  by (simp add: key_path_def key_of_def)

definition node_abs :: "storage_node \<times> running \<Rightarrow> chunk_map" where
  "node_abs sw = (case sw of (s, w) \<Rightarrow>
     \<lparr>stored = (\<lambda>k. if key_path k \<in> dom w then None else content_at (disk s) (key_path k)),
      busy = (\<lambda>k. Option.bind (w (key_path k)) (\<lambda>(req, h). scr_metadata req))\<rparr>)"

section \<open>Calls of a node\<close>

text \<open>
  What happens to a node, as a sequence of calls with everything the world brings to each. A store is two
  calls, so that others come in between; \<open>None\<close> for a call that would meet a running store of the same chunk, that closes no
  running store, or that panics.
\<close>

datatype node_call =
    BeginCall store_env StoreChunkRequest
  | FinishCall chunk_key store_input
  | DeleteCall "string option" "FileInfo option"
  | RepairCall "wrapper option option" bool "string \<Rightarrow> peer_pull" string u64

fun serve_call :: "(bytes \<Rightarrow> bytes) \<Rightarrow> node_call \<Rightarrow> storage_node \<times> running \<Rightarrow> (storage_node \<times> running) option" where
  "serve_call md5 (BeginCall env req) (s, w) = Option.bind (scr_metadata req) (\<lambda>md.
     if w (chunk_path_of md) \<noteq> None then None
     else case store_begin env req s of
         Inl e \<Rightarrow> None
       | Inr (s', outs, None) \<Rightarrow> Some (s', w)
       | Inr (s', outs, Some h) \<Rightarrow> Some (s', w(chunk_path_of md \<mapsto> (req, h))))"
| "serve_call md5 (FinishCall k inp) (s, w) = Option.bind (w (key_path k)) (\<lambda>(req, h).
     case store_finish md5 inp req h s of
         Inl e \<Rightarrow> None
       | Inr (s', outs) \<Rightarrow> Some (s', w(key_path k := None)))"
| "serve_call md5 (DeleteCall err fi) (s, w) = (case node_handleDeleteFile err fi s of
         Inl e \<Rightarrow> None
       | Inr (s', outs) \<Rightarrow> Some (s', w))"
| "serve_call md5 (RepairCall answer again peers f cid) (s, w) =
     (if w (chunkPath (path_base f) cid) \<noteq> None then None
      else case repairChunk md5 answer again peers f cid s of
         Inl e \<Rightarrow> None
       | Inr (s', outs) \<Rightarrow> Some (s', w))"

fun serve_calls :: "(bytes \<Rightarrow> bytes) \<Rightarrow> node_call list \<Rightarrow> storage_node \<times> running \<Rightarrow> (storage_node \<times> running) option" where
  "serve_calls md5 [] sw = Some sw"
| "serve_calls md5 (x # xs) sw = Option.bind (serve_call md5 x sw) (serve_calls md5 xs)"

text \<open>The operation of the machine that a call is.\<close>

fun op_of :: "node_call \<Rightarrow> chunk_op" where
  "op_of (BeginCall env req) = SpecOpen (scr_metadata req)"
| "op_of (FinishCall k inp) = SpecClose k (si_stream inp)"
| "op_of (DeleteCall err fi) = SpecDelete fi"
| "op_of (RepairCall answer again peers f cid) = SpecRepair peers (path_base f, cid)"

text \<open>The checksum file of a repaired chunk can be written.\<close>

definition sums_written :: "node_call \<Rightarrow> bool" where
  "sums_written x \<longleftrightarrow> (case x of RepairCall _ _ peers _ _ \<Rightarrow> \<forall>a. pp_checksumWritten (peers a) | _ \<Rightarrow> True)"

lemma begin_call_cases:
  assumes "serve_call md5 (BeginCall env req) (s, w) = Some (s', w')"
  obtains md outs where "scr_metadata req = Some md" "w (chunk_path_of md) = None"
      "store_begin env req s = Inr (s', outs, None)" "w' = w"
    | md outs h where "scr_metadata req = Some md" "w (chunk_path_of md) = None"
      "store_begin env req s = Inr (s', outs, Some h)" "w' = w(chunk_path_of md \<mapsto> (req, h))"
  using assms
  by (auto simp: Option.bind_eq_Some_conv simp del: chunk_path_of_eq not_None_eq split: if_splits sum.splits option.splits)

lemma finish_call_cases:
  assumes "serve_call md5 (FinishCall k inp) (s, w) = Some (s', w')"
  obtains req h outs where "w (key_path k) = Some (req, h)" "store_finish md5 inp req h s = Inr (s', outs)"
    "w' = w(key_path k := None)"
proof -
  obtain req h where w: "w (key_path k) = Some (req, h)" using assms by (auto simp: Option.bind_eq_Some_conv)
  with assms that show thesis by (auto split: sum.splits prod.splits)
qed

lemma node_call_step:
  assumes "serve_call md5 x (s, w) = Some (s', w')" "sums_written x"
  shows "node_step md5 (s, w) (s', w')"
proof (cases x)
  case (BeginCall env req)
  with assms(1) have "serve_call md5 (BeginCall env req) (s, w) = Some (s', w')" by simp
  then show ?thesis by (cases rule: begin_call_cases) (simp_all only: node_step.Rejected node_step.Begin)
next
  case (FinishCall k inp)
  with assms(1) have "serve_call md5 (FinishCall k inp) (s, w) = Some (s', w')" by simp
  then show ?thesis by (cases rule: finish_call_cases) (simp only: node_step.Finish)
next
  case (DeleteCall err fi)
  with assms show ?thesis by (auto split: sum.splits prod.splits intro: node_step.Delete)
next
  case (RepairCall answer again peers f cid)
  with assms show ?thesis by (auto simp: sums_written_def simp del: not_None_eq split: if_splits sum.splits prod.splits intro: node_step.Repair)
qed

lemma finish_content:
  assumes run: "store_finish md5 inp req h s = Inr (s', outs)" and md: "scr_metadata req = Some md"
    and ok: "fs_ok (disk s)" and h: "handle_ok (disk s) (chunk_path_of md) h"
    and c: "content_at (disk s') (chunk_path_of md) = Some data"
  shows "announced md5 md data \<and> data = take (unat (ci_size md)) (si_stream inp)"
proof -
  let ?p = "chunk_path_of md" and ?data = "take (unat (ci_size md)) (si_stream inp)"
  let ?fs = "write_handle h ?data (disk s)"
  note w = write_chunk [OF ok h, where data = ?data]
  have full: "\<not> (length ?data < unat (ci_size md) \<or> si_writeFails inp)"
  proof
    assume "length ?data < unat (ci_size md) \<or> si_writeFails inp"
    then have "disk s' = remove_file ?p ?fs" using run md by (auto simp: store_finish_def Let_def)
    with c show False by simp
  qed
  have sum: "md5 ?data = ci_checksum md"
  proof (rule ccontr)
    assume "md5 ?data \<noteq> ci_checksum md"
    then have "disk s' = remove_file ?p ?fs" using run md full by (auto simp: store_finish_def Let_def VerifyChecksum_def)
    with c show False by simp
  qed
  show ?thesis
  proof (cases "write_file (si_checksumWritten inp) (checksumPath ?p) (md5 ?data) ?fs")
    case None
    then have "disk s' = remove_file (checksumPath ?p) (remove_file ?p ?fs)"
      using run md full sum by (auto simp: store_finish_def Let_def VerifyChecksum_def)
    with c show ?thesis by (simp del: chunk_path_of_eq split: if_splits)
  next
    case (Some fs')
    then have "disk s' = fs'" using run md full sum by (auto simp: store_finish_def Let_def VerifyChecksum_def)
    moreover have "content_at fs' ?p = content_at ?fs ?p" using write_file_facts(4) [OF w(1) Some, of ?p] by simp
    ultimately have "data = ?data" using c w(3) by (simp split: if_splits)
    moreover have "length ?data = unat (ci_size md)" using full by (simp add: min_def split: if_splits)
    ultimately show ?thesis using sum by (simp add: announced_def)
  qed
qed

lemma pull_content:
  assumes run: "pull_from md5 p peer fs = Inr (fs', r)" and ok: "fs_ok fs" and p: "p = chunkPath d cid"
  shows "content_at fs' p = content_at fs p \<or> (\<forall>data. content_at fs' p = Some data \<longrightarrow>
    (\<exists>w resp md. pp_answer peer = Some w \<and> GetRetrieveChunkResp w = Some resp \<and> rcr_metadata resp = Some md \<and>
       announced md5 md data \<and> data = take (unat (ci_size md)) (pp_stream peer)))"
proof (cases "fs' = fs")
  case False
  then obtain w resp md where md: "pull_data md5 p peer md fs = (fs', r)"
    and src: "pp_answer peer = Some w" "GetRetrieveChunkResp w = Some resp" "rcr_metadata resp = Some md"
    using run by (auto simp: pull_from_def and_then_eq_Inr split: if_splits option.splits)
  obtain h fs1 where o: "open_trunc p fs = (h, fs1)" by (cases "open_trunc p fs") auto
  let ?data = "take (unat (ci_size md)) (pp_stream peer)"
  let ?fs2 = "write_handle h ?data fs1"
  note f = open_trunc_facts [OF ok o]
  have h: "handle_ok fs1 p h" unfolding handle_ok_def using f(1,2,4,8) by (auto dest: fs_okD)
  note w = write_chunk [OF f(1) h, where data = ?data]
  have "data = ?data \<and> announced md5 md data" if c: "content_at fs' p = Some data" for data
  proof -
    from md c o have good: "announced md5 md ?data"
      and kept: "fs' = ?fs2 \<or> write_file (pp_checksumWritten peer) (checksumPath p) (ci_checksum md) ?fs2 = Some fs'"
      by (auto simp: pull_data_def Let_def announced_def VerifyChecksum_def split: if_splits option.splits)
    have "content_at fs' p = content_at ?fs2 p"
      using kept write_file_facts(4) [OF w(1), of _ "checksumPath p" "ci_checksum md" fs' p] p by auto
    then show ?thesis using c w(3) good by (simp split: if_splits)
  qed
  with src show ?thesis by blast
qed simp

lemma pull_loop_content:
  assumes p: "p = chunkPath d cid" and sums: "\<forall>a. pp_checksumWritten (peers a)"
  shows "pull_loop md5 p peers addrs marked fs = Inr (fs', marked', success) \<Longrightarrow> fs_ok fs \<Longrightarrow> chunk_intact md5 fs p \<Longrightarrow>
    content_at fs' p = content_at fs p \<or> (\<forall>data. content_at fs' p = Some data \<longrightarrow> offered md5 peers data)"
proof (induction addrs arbitrary: marked fs)
  case (Cons addr addrs)
  obtain fs1 r where pull: "pull_from md5 p (peers addr) fs = Inr (fs1, r)"
    and rest: "fs' = fs1 \<or> pull_loop md5 p peers addrs (marked \<or> r = Failed) fs1 = Inr (fs', marked', success)"
    using Cons.prems(1) by (auto simp: and_then_eq_Inr split: if_splits)
  note e = pull_effect [OF pull Cons.prems(2,3) p sums [rule_format]]
  have one: "content_at fs1 p = content_at fs p \<or> (\<forall>data. content_at fs1 p = Some data \<longrightarrow> offered md5 peers data)"
    using pull_content [OF pull Cons.prems(2) p] unfolding offered_def by blast
  show ?case
  proof (cases "fs' = fs1")
    case False
    with rest have "pull_loop md5 p peers addrs (marked \<or> r = Failed) fs1 = Inr (fs', marked', success)" by simp
    from Cons.IH [OF this] e one show ?thesis unfolding only_at_def by metis
  qed (use one in simp)
qed simp

lemma repair_content:
  assumes run: "repairChunk md5 answer again peers f cid s = Inr (s', outs)" and ok: "fs_ok (disk s)"
    and intact: "chunk_intact md5 (disk s) (chunkPath (path_base f) cid)" and sums: "\<forall>a. pp_checksumWritten (peers a)"
  defines "p \<equiv> chunkPath (path_base f) cid"
  shows "content_at (disk s') p = content_at (disk s) p \<or> (\<forall>data. content_at (disk s') p = Some data \<longrightarrow> offered md5 peers data)"
proof (cases "s' = s")
  case False
  from False run obtain w resp where w: "answer = Some (Some w)" "GetGetFileResp w = Some resp"
    by (auto simp: repairChunk_def Let_def split: option.splits)
  from False run obtain addrs fs' marked success where
    "pull_loop md5 (chunkPath (path_base f) cid) peers addrs False (disk s) = Inr (fs', marked, success)" "disk s' = fs'"
    by (auto simp: repairChunk_def w Let_def and_then_eq_Inr simp del: if_split split: if_splits(2))
  with pull_loop_content [OF refl sums _ ok intact] show ?thesis unfolding p_def by blast
qed simp

section \<open>Every step of a node is a step of the machine\<close>

lemma node_absI:
  assumes "\<And>k. stored m k = (if key_path k \<in> dom w then None else content_at (disk s) (key_path k))"
    "\<And>k. busy m k = Option.bind (w (key_path k)) (\<lambda>(req, h). scr_metadata req)"
  shows "node_abs (s, w) = m"
  using assms by (intro chunk_map.equality) (auto simp: node_abs_def fun_eq_iff)

lemma node_abs_simps [simp]:
  "stored (node_abs (s, w)) k = (if key_path k \<in> dom w then None else content_at (disk s) (key_path k))"
  "busy (node_abs (s, w)) k = Option.bind (w (key_path k)) (\<lambda>(req, h). scr_metadata req)"
  by (simp_all add: node_abs_def)

lemma refine_begin:
  assumes inv: "node_inv md5 (s, w)" and run: "store_begin env req s = Inr (s', outs, Some h)"
    and md: "scr_metadata req = Some md" and free: "w (chunk_path_of md) = None"
  shows "spec_step md5 (SpecOpen (Some md)) (node_abs (s, w)) (node_abs (s', w(chunk_path_of md \<mapsto> (req, h))))"
proof -
  note e = begin_effect [OF run md node_invD(1) [OF inv]]
  have same: "content_at (disk s') (key_path k) = content_at (disk s) (key_path k)" if "k \<noteq> key_of md" for k
    using e that unfolding only_at_def path_of_key by simp
  have "node_abs (s', w(chunk_path_of md \<mapsto> (req, h))) =
      node_abs (s, w)\<lparr>stored := (stored (node_abs (s, w)))(key_of md := None), busy := (busy (node_abs (s, w)))(key_of md \<mapsto> md)\<rparr>"
    by (rule node_absI) (use same md in \<open>auto simp: path_of_key simp del: chunk_path_of_eq\<close>)
  then show ?thesis using free by (auto intro!: opens simp: path_of_key simp del: chunk_path_of_eq)
qed

lemma refine_finish:
  assumes inv: "node_inv md5 (s, w)" and p: "w (key_path k) = Some (req, h)"
    and run: "store_finish md5 inp req h s = Inr (s', outs)"
  shows "spec_step md5 (SpecClose k (si_stream inp)) (node_abs (s, w)) (node_abs (s', w(key_path k := None)))"
proof -
  obtain md where md: "scr_metadata req = Some md" "key_path k = chunk_path_of md"
    using node_invD(7) [OF inv p] by blast
  have h: "handle_ok (disk s) (chunk_path_of md) h" using node_invD(6) [OF inv p] md(2) by simp
  note e = finish_effect [OF run md(1) node_invD(1) [OF inv] h]
  have same: "content_at (disk s') (key_path k') = content_at (disk s) (key_path k')" if "k' \<noteq> k" for k'
    using e that unfolding md(2) [symmetric] by simp
  let ?x = "content_at (disk s') (key_path k)"
  have abs: "node_abs (s', w(key_path k := None)) =
      node_abs (s, w)\<lparr>stored := (stored (node_abs (s, w)))(k := ?x), busy := (busy (node_abs (s, w)))(k := None)\<rparr>"
    by (rule node_absI) (use same in auto)
  have content: "\<forall>data. ?x = Some data \<longrightarrow> announced md5 md data \<and> data = take (unat (ci_size md)) (si_stream inp)"
    using finish_content [OF run md(1) node_invD(1) [OF inv] h, folded md(2)] by blast
  have busy: "busy (node_abs (s, w)) k = Some md" using p md(1) by simp
  show ?thesis unfolding abs by (rule closes [OF busy content])
qed

lemma refine_rejected:
  assumes inv: "node_inv md5 (s, w)" and run: "store_begin env req s = Inr (s', outs, None)" and md: "scr_metadata req = Some md"
  shows "node_abs (s', w) = node_abs (s, w)"
  using begin_effect [OF run md node_invD(1) [OF inv]] by (simp add: node_abs_def cong: if_cong)

lemma refine_delete:
  assumes inv: "node_inv md5 (s, w)" and run: "node_handleDeleteFile err fi s = Inr (s', outs)"
  shows "spec_step md5 (SpecDelete fi) (node_abs (s, w)) (node_abs (s', w))"
proof (cases "s' = s")
  case False
  then obtain md where fi: "fi = Some md" "err = None"
    using run by (cases fi; cases err) (auto simp: node_handleDeleteFile_def)
  then have s': "s' = s\<lparr>disk := remove_dir (path_base (fi_name md)) (disk s)\<rparr>"
    using run by (simp add: node_handleDeleteFile_def)
  have "node_abs (s', w) = node_abs (s, w)\<lparr>stored := (\<lambda>k. if fst k = path_base (fi_name md) then None else stored (node_abs (s, w)) k)\<rparr>"
    by (rule node_absI) (simp_all add: s')
  then show ?thesis unfolding fi(1) by (simp only:) (rule deletes)
qed (simp add: keeps)

lemma refine_repair:
  assumes inv: "node_inv md5 (s, w)" and run: "repairChunk md5 answer again peers f cid s = Inr (s', outs)"
    and free: "w (chunkPath (path_base f) cid) = None" and sums: "\<forall>a. pp_checksumWritten (peers a)"
  shows "spec_step md5 (SpecRepair peers (path_base f, cid)) (node_abs (s, w)) (node_abs (s', w))"
proof -
  let ?k = "(path_base f, cid)"
  have p: "key_path ?k = chunkPath (path_base f) cid" by (simp add: key_path_def)
  have intact: "chunk_intact md5 (disk s) (chunkPath (path_base f) cid)" using node_invD(8) [OF inv] free by auto
  note e = repair_effect [OF run node_invD(1) [OF inv] intact sums]
  note c = repair_content [OF run node_invD(1) [OF inv] intact sums, folded p]
  have same: "content_at (disk s') (key_path k) = content_at (disk s) (key_path k)" if "k \<noteq> ?k" for k
    using e that unfolding only_at_def p [symmetric] by simp
  have notin: "w (key_path ?k) = None" using free p by simp
  have "node_abs (s', w) = node_abs (s, w)\<lparr>stored := (stored (node_abs (s, w)))(?k := content_at (disk s') (key_path ?k))\<rparr>"
    by (rule node_absI) (use same notin in auto)
  moreover have "spec_step md5 (SpecRepair peers ?k) (node_abs (s, w))
      (node_abs (s, w)\<lparr>stored := (stored (node_abs (s, w)))(?k := content_at (disk s') (key_path ?k))\<rparr>)"
    by (rule repairs) (use notin c in auto)
  ultimately show ?thesis by simp
qed

lemma node_call_refines:
  assumes inv: "node_inv md5 (s, w)" and call: "serve_call md5 x (s, w) = Some (s', w')" and sums: "sums_written x"
  shows "spec_step md5 (op_of x) (node_abs (s, w)) (node_abs (s', w'))"
proof (cases x)
  case (BeginCall env req)
  with call have "serve_call md5 (BeginCall env req) (s, w) = Some (s', w')" by simp
  then show ?thesis
  proof (cases rule: begin_call_cases)
    case (1 md outs)
    then show ?thesis using refine_rejected [OF inv 1(3,1)] BeginCall by (simp only: op_of.simps refuses)
  next
    case (2 md outs h)
    then show ?thesis using refine_begin [OF inv 2(3,1,2)] BeginCall by (simp only: op_of.simps)
  qed
next
  case (FinishCall k inp)
  with call have "serve_call md5 (FinishCall k inp) (s, w) = Some (s', w')" by simp
  then show ?thesis by (cases rule: finish_call_cases) (simp only: FinishCall op_of.simps refine_finish [OF inv])
next
  case (DeleteCall err fi)
  then show ?thesis using call refine_delete [OF inv] by (auto split: sum.splits)
next
  case (RepairCall answer again peers f cid)
  then show ?thesis using call refine_repair [OF inv] sums
    by (auto simp: sums_written_def simp del: not_None_eq node_abs_simps split: if_splits sum.splits)
qed

lemma node_calls_refine:
  "serve_calls md5 xs (s, w) = Some (s', w') \<Longrightarrow> node_inv md5 (s, w) \<Longrightarrow> \<forall>x \<in> set xs. sums_written x \<Longrightarrow>
   spec_run md5 (map op_of xs) (node_abs (s, w)) (node_abs (s', w')) \<and> node_inv md5 (s', w')"
proof (induction xs arbitrary: s w)
  case (Cons x xs)
  then obtain s1 w1 where one: "serve_call md5 x (s, w) = Some (s1, w1)" and rest: "serve_calls md5 xs (s1, w1) = Some (s', w')"
    by (auto simp: Option.bind_eq_Some_conv)
  have ok: "sums_written x" using Cons.prems(3) by simp
  have "node_inv md5 (s1, w1)" using node_step_inv [OF node_call_step [OF one ok] Cons.prems(2)] .
  from Cons.IH [OF rest this] Cons.prems(3) node_call_refines [OF Cons.prems(2) one ok] show ?case
    by (auto intro: spec_run_Cons)
qed (simp add: spec_run_Nil)

lemma fresh_node_abs: "node_abs (fresh_node addr, Map.empty) = \<lparr>stored = Map.empty, busy = Map.empty\<rparr>"
  by (rule node_absI) (simp_all add: fresh_node_def content_at_def)

section \<open>Properties\<close>



end
