(* ===== verification/WholeJob.thy ===== *)
theory WholeJob
  imports SchedulingProps WorkerProps JobProps
begin

text \<open>
  Whole jobs: the master of \<open>Scheduling\<close> and the workers of \<open>WorkerTask\<close> together. The master sends an assignment to
  a worker, the worker runs it and answers with a report, the master enters the report in its books; when
  all map tasks are over, the books tell the workers of the reduce tasks where to fetch the intermediate
  data, and the workers that ran the map tasks serve it.
\<close>

section \<open>Master and workers\<close>

text \<open>The running workers by address.\<close>

type_synonym worker_net = "string \<rightharpoonup> worker"

text \<open>
  One attempt to have a map task run: the worker, what its operating system brings, and whether the connection
  lasts until the report is received.
\<close>

record map_attempt =
  ma_task :: nat
  ma_addr :: string
  ma_env :: task_env
  ma_lasts :: bool

definition sent_messages :: "worker_out list \<Rightarrow> MapReduceWrapper option list" where
  "sent_messages outs = map (\<lambda>out. case out of Message m \<Rightarrow> Some m | Raw _ \<Rightarrow> None) outs"

text \<open>What the master makes of an attempt: its outcome when it was the last one of the task, a success.\<close>

definition attempt_outcome :: "map_attempt \<Rightarrow> worker_out list \<Rightarrow> map_outcome list" where
  "attempt_outcome x outs =
     (if \<not> ma_lasts x then []
      else case await_report (sent_messages outs) of
        Some (Some report) \<Rightarrow> [(ma_task x, Some (ma_addr x, tr_reduceData report))]
      | _ \<Rightarrow> [])"

fun run_attempts :: "jobState \<Rightarrow> map_attempt list \<Rightarrow> worker_net \<Rightarrow> (worker_net \<times> map_outcome list) result" where
  "run_attempts job [] ws = Inr (ws, [])"
| "run_attempts job (x # xs) ws = (case ws (ma_addr x) of
      None \<Rightarrow> run_attempts job xs ws
    | Some w \<Rightarrow> and_then (worker_handleConnection (ma_env x) [map_assignment job (job_mapTaskList job ! ma_task x)] w) (\<lambda>(w', outs).
        and_then (run_attempts job xs (ws(ma_addr x \<mapsto> w'))) (\<lambda>(ws', outcomes).
          Inr (ws', attempt_outcome x outs @ outcomes))))"

section \<open>Names of map tasks\<close>

lemma dash_number_inj:
  assumes "f @ CHR ''-'' # dec_str m = g @ CHR ''-'' # dec_str n"
  shows "f = g \<and> m = n"
proof -
  have nodash: "CHR ''-'' \<notin> set (rev (dec_str k))" for k
    using dec_str_digits [of k] by (auto simp: is_digit_def)
  have split: "takeWhile (\<lambda>c. c \<noteq> CHR ''-'') (rev (dec_str k) @ CHR ''-'' # xs) = rev (dec_str k)" for k xs
    using nodash [of k] by (subst takeWhile_append2) auto
  have eq: "rev (dec_str m) @ CHR ''-'' # rev f = rev (dec_str n) @ CHR ''-'' # rev g"
    using arg_cong [OF assms, where f = rev] by simp
  have "rev (dec_str m) = rev (dec_str n)" using arg_cong [OF eq, where f = "takeWhile (\<lambda>c. c \<noteq> CHR ''-'')"] unfolding split .
  then have "m = n" by (simp add: dec_str_inj)
  with eq show ?thesis by simp
qed

lemma map_task_id_inj: "map_task_id t = map_task_id u \<longleftrightarrow> mt_fileName t = mt_fileName u \<and> mt_chunkId t = mt_chunkId u"
proof
  assume "map_task_id t = map_task_id u"
  from dash_number_inj [OF this [unfolded map_task_id_def]]
  show "mt_fileName t = mt_fileName u \<and> mt_chunkId t = mt_chunkId u" by (simp add: word_unat_eq_iff)
qed (simp add: map_task_id_def)

text \<open>The tasks of a job whose input files are named once each.\<close>

lemma collect_inputs_tasks:
  "collect_inputs dfs fs cn ts = Inr (Inr (cn', ts')) \<Longrightarrow>
    \<exists>new. ts' = ts @ new \<and> (\<forall>t \<in> set new. mt_fileName t \<in> set fs \<and> mt_nodeAddr t = []) \<and>
      (distinct fs \<longrightarrow> (\<forall>f. length (filter (\<lambda>t. mt_fileName t = f) new) < 2 ^ 64) \<longrightarrow> distinct (map map_task_id new))"
proof (induction fs arbitrary: cn ts)
  case (Cons f fs)
  obtain x where x: "getChunkInfoFromDFS (dfs f) = Inr x" using Cons.prems by (auto simp: and_then_eq_Inr)
  with Cons.prems obtain c n where r: "getChunkInfoFromDFS (dfs f) = Inr (Inr (c, n))" by (cases x) auto
  let ?new = "map (\<lambda>i. \<lparr>mt_fileName = f, mt_chunkId = word_of_nat i, mt_nodeAddr = []\<rparr>) [0..<n]"
  have "collect_inputs dfs fs (cn(f \<mapsto> c)) (ts @ ?new) = Inr (Inr (cn', ts'))" using Cons.prems r by simp
  from Cons.IH [OF this] obtain new where new: "ts' = (ts @ ?new) @ new"
    "\<forall>t \<in> set new. mt_fileName t \<in> set fs \<and> mt_nodeAddr t = []"
    "distinct fs \<longrightarrow> (\<forall>f. length (filter (\<lambda>t. mt_fileName t = f) new) < 2 ^ 64) \<longrightarrow> distinct (map map_task_id new)"
    by blast
  have "distinct (map map_task_id (?new @ new))"
    if d: "distinct (f # fs)" and small: "\<forall>f. length (filter (\<lambda>t. mt_fileName t = f) (?new @ new)) < 2 ^ 64"
  proof -
    have "\<forall>g. length (filter (\<lambda>t. mt_fileName t = g) new) < 2 ^ 64" using small by (metis add_lessD1 add.commute filter_append length_append)
    then have "distinct (map map_task_id new)" using new(3) d by simp
    moreover have "n < 2 ^ 64" using small [rule_format, of f] by (simp add: comp_def)
    then have "distinct (map map_task_id ?new)"
      by (auto simp: distinct_map inj_on_def map_task_id_inj word_of_nat_inj64)
    moreover have "map_task_id ` set ?new \<inter> map_task_id ` set new = {}"
      using new(2) d by (auto simp: map_task_id_inj)
    ultimately show ?thesis by (simp only: map_append distinct_append set_map)
  qed
  with new show ?case by (intro exI [of _ "?new @ new"]) auto
qed simp

lemma num_reducers_nonzero: "num_reducers requested n \<noteq> 0"
proof -
  let ?k = "max 1 (min ((n + numChunksPerReducers - 1) div numChunksPerReducers) roundedMaxReducers)"
  have "1 \<le> ?k" "?k \<le> 100" by (auto simp: roundedMaxReducers_def)
  then have "unat (word_of_nat ?k :: u32) = ?k" by (simp add: unat_of_nat)
  with \<open>1 \<le> ?k\<close> have "(word_of_nat ?k :: u32) \<noteq> 0" by (metis not_one_le_zero unat_0)
  then show ?thesis by (simp add: num_reducers_def)
qed

section \<open>The map phase\<close>

definition task_name :: "jobState \<Rightarrow> nat \<Rightarrow> string" where
  "task_name job i = map_task_id (job_mapTaskList job ! i)"

text \<open>What an attempt's environment is: the job's plugin, and the chunk of the task wherever it is read.\<close>

definition plugin_ok :: "(string \<Rightarrow> KeyValue list) \<Rightarrow> (bytes \<Rightarrow> bytes list \<Rightarrow> bytes) \<Rightarrow> jobState \<Rightarrow> task_env \<Rightarrow> bool" where
  "plugin_ok mapFunc reduceFunc job env \<longleftrightarrow> jr_jobBinary (job_request job) \<noteq> [] \<and> te_pluginWrite env = Written \<and>
     plugin_functions (te_pluginOpen env) (jr_jobBinary (job_request job)) = Inr (mapFunc, reduceFunc)"

definition attempt_ok ::
    "(string \<Rightarrow> KeyValue list) \<Rightarrow> (bytes \<Rightarrow> bytes list \<Rightarrow> bytes) \<Rightarrow> (KeyValue list \<Rightarrow> KeyValue list) \<Rightarrow> (nat \<Rightarrow> string) \<Rightarrow>
      jobState \<Rightarrow> map_attempt \<Rightarrow> bool" where
  "attempt_ok mapFunc reduceFunc srt chunk job x \<longleftrightarrow> ma_task x < length (job_mapTaskList job) \<and>
     plugin_ok mapFunc reduceFunc job (ma_env x) \<and> te_sort (ma_env x) = srt \<and>
     (\<forall>w task c. open_chunk (te_chunk (ma_env x)) (te_chunkDir (ma_env x)) w task = Inr c \<longrightarrow> c = chunk (ma_task x))"

text \<open>The output of a task, wherever it runs.\<close>

definition task_output ::
    "(string \<Rightarrow> KeyValue list) \<Rightarrow> (KeyValue list \<Rightarrow> KeyValue list) \<Rightarrow> (nat \<Rightarrow> string) \<Rightarrow> jobState \<Rightarrow> nat \<Rightarrow> map_output" where
  "task_output mapFunc srt chunk job i = projr (runMap mapFunc srt (job_numReducers job) (chunk i))"

lemma task_output:
  assumes "job_numReducers job \<noteq> 0"
  shows "runMap mapFunc srt (job_numReducers job) (chunk i) = Inr (task_output mapFunc srt chunk job i)"
proof -
  obtain bs where "runMap mapFunc srt (job_numReducers job) (chunk i) =
      Inr (mergeSpills (job_numReducers job) (map (write_parts \<circ> spill_parts srt (job_numReducers job)) bs))"
    by (rule runMap_spills [OF assms, of mapFunc srt "chunk i"]) blast
  then show ?thesis by (simp add: task_output_def)
qed

text \<open>A worker's files of the job: the plugin, if any, is the job's; an output, if any, is the task's.\<close>

definition worker_ok :: "(nat \<Rightarrow> map_output) \<Rightarrow> jobState \<Rightarrow> worker \<Rightarrow> bool" where
  "worker_ok out job w \<longleftrightarrow> w_plugins w (job_id job) \<in> {None, Some (jr_jobBinary (job_request job))} \<and>
     (\<forall>i < length (job_mapTaskList job). w_inter w (job_id job, task_name job i) \<in> {None, Some (map_file (out i))})"

lemma loadPlugin_ok:
  assumes "plugin_ok mapFunc reduceFunc job env" "w_plugins w (job_id job) \<in> {None, Some (jr_jobBinary (job_request job))}"
  obtains w' where "loadPlugin (te_pluginOpen env) (te_pluginWrite env) (jr_jobBinary (job_request job)) (job_id job) w =
      (w', Inr (mapFunc, reduceFunc))"
    "w_plugins w' (job_id job) = Some (jr_jobBinary (job_request job))" "w_inter w' = w_inter w" "w_results w' = w_results w"
  using assms by (auto simp: loadPlugin_def plugin_ok_def)

lemma map_assignment_eq: "GetTaskAssign (map_assignment job t) = Some
    \<lparr>ta_jobId = job_id job, ta_taskId = map_task_id t, ta_type = TaskType_MAP, ta_inputFile = mt_fileName t,
     ta_chunkId = mt_chunkId t, ta_jobBinary = jr_jobBinary (job_request job), ta_numReducers = job_numReducers job,
     ta_reducerId = 0, ta_mapTaskInfo = Map.empty\<rparr>"
  by (simp add: map_assignment_def SendTaskAssignment_def GetTaskAssign_def)

lemma failed_report [simp]:
  "await_report [Some (SendTaskReport j t False e ds)] = Some None"
  "await_report [Some (SendTaskReport j t True e ds)] =
    Some (Some \<lparr>tr_jobId = j, tr_taskId = t, tr_success = True, tr_message = e, tr_reduceData = ds\<rparr>)"
  by (simp_all add: SendTaskReport_def GetTaskReport_def)

lemma map_attempt_effect:
  assumes ok: "attempt_ok mapFunc reduceFunc srt chunk job x" and R: "job_numReducers job \<noteq> 0"
    and w: "worker_ok out job w" and names: "inj_on (task_name job) {..<length (job_mapTaskList job)}"
    and out: "out = task_output mapFunc srt chunk job"
    and run: "worker_handleConnection (ma_env x) [map_assignment job (job_mapTaskList job ! ma_task x)] w = Inr (w', sent)"
  shows "worker_ok out job w' \<and> w_results w' = w_results w \<and>
    (\<forall>i < length (job_mapTaskList job). \<forall>f. w_inter w (job_id job, task_name job i) = Some f \<longrightarrow>
       w_inter w' (job_id job, task_name job i) = Some f) \<and>
    (attempt_outcome x sent = [] \<or> attempt_outcome x sent = [(ma_task x, Some (ma_addr x, reduce_data (out (ma_task x))))] \<and>
       w_inter w' (job_id job, task_name job (ma_task x)) = Some (map_file (out (ma_task x))))"
proof -
  let ?t = "job_mapTaskList job ! ma_task x" and ?env = "ma_env x"
  define task where "task = the (GetTaskAssign (map_assignment job ?t))"
  have task: "ta_jobId task = job_id job" "ta_taskId task = task_name job (ma_task x)" "ta_type task = TaskType_MAP"
    "ta_jobBinary task = jr_jobBinary (job_request job)" "ta_numReducers task = job_numReducers job"
    by (simp_all add: task_def map_assignment_eq task_name_def)
  have i: "ma_task x < length (job_mapTaskList job)" using ok by (simp add: attempt_ok_def)
  obtain report where h: "handleTask ?env task w = Inr (w', report)" and sent: "sent = [Message report]"
    using run by (auto simp: task_def map_assignment_eq and_then_eq_Inr)
  let ?w1 = "w\<lparr>activeTasks := activeTasks w + 1\<rparr>"
  show ?thesis
  proof (cases "open_chunk (te_chunk ?env) (te_chunkDir ?env) ?w1 task")
    case (Inl e)
    with h task have "w' = w\<lparr>activeTasks := activeTasks w'\<rparr>" "report = SendTaskReport (job_id job) (task_name job (ma_task x)) False e []"
      by (auto simp: handleTask_def Let_def map_task_def)
    moreover from this(1) have "w_plugins w' = w_plugins w" "w_inter w' = w_inter w" "w_results w' = w_results w"
      by (metis worker.select_convs worker.update_convs worker.surjective)+
    ultimately show ?thesis using w
      by (simp add: worker_ok_def sent attempt_outcome_def sent_messages_def del: await_report.simps)
  next
    case (Inr c)
    then have c: "c = chunk (ma_task x)" using ok by (auto simp: attempt_ok_def)
    have "w_plugins ?w1 (job_id job) \<in> {None, Some (jr_jobBinary (job_request job))}" using w by (simp add: worker_ok_def)
    with ok obtain w2 where load: "loadPlugin (te_pluginOpen ?env) (te_pluginWrite ?env) (jr_jobBinary (job_request job)) (job_id job) ?w1 =
        (w2, Inr (mapFunc, reduceFunc))"
      and w2: "w_plugins w2 (job_id job) = Some (jr_jobBinary (job_request job))" "w_inter w2 = w_inter w" "w_results w2 = w_results w"
      by (auto simp: attempt_ok_def elim!: loadPlugin_ok [where w = ?w1])
    have srt: "te_sort ?env = srt" using ok by (simp add: attempt_ok_def)
    have run: "runMap mapFunc srt (job_numReducers job) c = Inr (out (ma_task x))" unfolding c out by (rule task_output [OF R])
    let ?inter = "(w_inter w)((job_id job, task_name job (ma_task x)) \<mapsto> map_file (out (ma_task x)))"
    have w': "w' = w2\<lparr>w_inter := ?inter, activeTasks := activeTasks w'\<rparr>"
      and report: "report = SendTaskReport (job_id job) (task_name job (ma_task x)) True [] (reduce_data (out (ma_task x)))"
      using h by (auto simp: handleTask_def Let_def map_task_def task Inr load srt run w2)
    have files: "w_plugins w' = w_plugins w2" "w_inter w' = ?inter" "w_results w' = w_results w2"
      by (subst w', simp)+
    have same: "task_name job j = task_name job (ma_task x) \<longleftrightarrow> j = ma_task x" if "j < length (job_mapTaskList job)" for j
      using names that i by (auto simp: inj_on_def)
    show ?thesis using w w2 same
      by (auto simp: files worker_ok_def sent report attempt_outcome_def sent_messages_def simp del: await_report.simps)
  qed
qed

definition workers_ok :: "(nat \<Rightarrow> map_output) \<Rightarrow> jobState \<Rightarrow> worker_net \<Rightarrow> bool" where
  "workers_ok out job ws \<longleftrightarrow> (\<forall>w \<in> ran ws. worker_ok out job w)"

text \<open>The worker at an address holds the output of a task.\<close>

definition holds :: "(nat \<Rightarrow> map_output) \<Rightarrow> jobState \<Rightarrow> worker_net \<Rightarrow> nat \<Rightarrow> string \<Rightarrow> bool" where
  "holds out job ws i addr \<longleftrightarrow> (\<exists>w. ws addr = Some w \<and> w_inter w (job_id job, task_name job i) = Some (map_file (out i)))"

lemma run_attempts_effect:
  assumes R: "job_numReducers job \<noteq> 0" and names: "inj_on (task_name job) {..<length (job_mapTaskList job)}"
    and out: "out = task_output mapFunc srt chunk job"
  shows "run_attempts job xs ws = Inr (ws', outcomes) \<Longrightarrow> \<forall>x \<in> set xs. attempt_ok mapFunc reduceFunc srt chunk job x \<Longrightarrow>
    workers_ok out job ws \<Longrightarrow> workers_ok out job ws' \<and>
      (\<forall>i < length (job_mapTaskList job). \<forall>addr. holds out job ws i addr \<longrightarrow> holds out job ws' i addr) \<and>
      (\<forall>(i, r) \<in> set outcomes. i < length (job_mapTaskList job) \<and>
         (\<exists>addr. r = Some (addr, reduce_data (out i)) \<and> holds out job ws' i addr))"
proof (induction xs arbitrary: ws outcomes)
  case (Cons x xs)
  show ?case
  proof (cases "ws (ma_addr x)")
    case None
    with Cons show ?thesis by simp
  next
    case (Some w)
    obtain w' sent rest where run: "worker_handleConnection (ma_env x) [map_assignment job (job_mapTaskList job ! ma_task x)] w = Inr (w', sent)"
      and rest: "run_attempts job xs (ws(ma_addr x \<mapsto> w')) = Inr (ws', rest)" and outcomes: "outcomes = attempt_outcome x sent @ rest"
      using Cons.prems(1) Some by (auto simp: and_then_eq_Inr simp del: worker_handleConnection.simps)
    have ok: "attempt_ok mapFunc reduceFunc srt chunk job x" and i: "ma_task x < length (job_mapTaskList job)"
      using Cons.prems(2) by (simp_all add: attempt_ok_def)
    have "worker_ok out job w" using Cons.prems(3) Some by (auto simp: workers_ok_def ran_def)
    note e = map_attempt_effect [OF ok R this names out run]
    have "workers_ok out job (ws(ma_addr x \<mapsto> w'))"
      using e Cons.prems(3) by (auto simp: workers_ok_def ran_def)
    with Cons.IH [OF rest] Cons.prems(2) have IH: "workers_ok out job ws'"
      "\<And>i addr. i < length (job_mapTaskList job) \<Longrightarrow> holds out job (ws(ma_addr x \<mapsto> w')) i addr \<Longrightarrow> holds out job ws' i addr"
      "\<forall>(i, r) \<in> set rest. i < length (job_mapTaskList job) \<and> (\<exists>addr. r = Some (addr, reduce_data (out i)) \<and> holds out job ws' i addr)"
      by (simp_all del: fun_upd_apply)
    have keep: "holds out job (ws(ma_addr x \<mapsto> w')) j addr" if "j < length (job_mapTaskList job)" "holds out job ws j addr" for j addr
      using that e Some by (auto simp: holds_def)
    have "holds out job (ws(ma_addr x \<mapsto> w')) (ma_task x) (ma_addr x)" if "attempt_outcome x sent \<noteq> []"
      using e that by (auto simp: holds_def)
    then have "\<forall>(i, r) \<in> set (attempt_outcome x sent). i < length (job_mapTaskList job) \<and>
        (\<exists>addr. r = Some (addr, reduce_data (out i)) \<and> holds out job ws' i addr)"
      using e i IH(2) [OF i] by (auto simp del: fun_upd_apply)
    then show ?thesis using IH keep unfolding outcomes by (auto simp del: fun_upd_apply)
  qed
qed auto

text \<open>The master's part: the books after the map phase.\<close>

lemma run_attempts_end:
  assumes job: "job = new_job jobId req chunkNodes tasks"
    and run: "run_attempts job xs ws = Inr (ws', outcomes)" and ok: "\<forall>x \<in> set xs. attempt_ok mapFunc reduceFunc srt chunk job x"
    and ws: "workers_ok (task_output mapFunc srt chunk job) job ws"
    and names: "inj_on (task_name job) {..<length (job_mapTaskList job)}"
    and once: "mset (map fst outcomes) = mset [0..<length tasks]" and reduces: "length reduces = unat (job_numReducers job)"
  shows "all_tasks_end job outcomes reduces"
proof -
  have R: "job_numReducers job \<noteq> 0" by (simp add: job new_job_def Let_def num_reducers_nonzero)
  have "length (reduce_data (task_output mapFunc srt chunk job i)) = unat (job_numReducers job)" for i
    using runMap_reduce_data [OF task_output [OF R]] .
  then show ?thesis
    using run_attempts_effect [OF R names refl run ok ws] once reduces R
    by (fastforce simp: all_tasks_end_def job new_job_def Let_def)
qed

lemma map_task_info_map_of:
  assumes "distinct (map map_task_id (job_mapTaskList job))" "i < length (job_mapTaskList job)"
  shows "map_task_info job (task_name job i) = Some (mt_nodeAddr (job_mapTaskList job ! i))"
proof -
  let ?kvs = "map (\<lambda>t. (map_task_id t, mt_nodeAddr t)) (job_mapTaskList job)"
  have d: "distinct (map fst (rev ?kvs))" using assms(1) by (simp add: rev_map [symmetric] comp_def)
  have "(task_name job i, mt_nodeAddr (job_mapTaskList job ! i)) \<in> set (rev ?kvs)"
    using assms(2) by (auto simp: task_name_def)
  with d show ?thesis unfolding map_task_info_def by (rule map_of_is_SomeI)
qed

lemma map_task_info_dom:
  "map_task_info job t = Some a \<Longrightarrow> \<exists>i < length (job_mapTaskList job). t = task_name job i"
  by (force simp: map_task_info_def task_name_def in_set_conv_nth dest!: map_of_SomeD)

section \<open>The reduce phase\<close>

text \<open>
  A reducer's environment: it goes through the entries it was told in some order, reaches every other worker, which
  serves it whole, and takes an address that begins with its own short host name for its own, which it is.
\<close>

definition reducer_ok ::
    "(string \<Rightarrow> KeyValue list) \<Rightarrow> (bytes \<Rightarrow> bytes list \<Rightarrow> bytes) \<Rightarrow> jobState \<Rightarrow> worker_net \<Rightarrow> string \<Rightarrow> task_env \<Rightarrow> bool" where
  "reducer_ok mapFunc reduceFunc job ws addr env \<longleftrightarrow> plugin_ok mapFunc reduceFunc job env \<and>
     distinct (map fst (te_order env)) \<and> set (te_order env) = {(t, a). map_task_info job t = Some a} \<and>
     (\<forall>(t, a) \<in> set (te_order env). if has_prefix a (short_name (te_hostname env)) then a = addr
        else \<exists>v. ws a = Some v \<and> te_connect env t a = Peer (w_inter v (job_id job, t)) Complete)"

text \<open>What such a connection delivers is what the other worker sends for a fetch request.\<close>

lemma peer_serves:
  "worker_handleConnection env [SendFetchIntermediateRequest jobId r t] v = Inr (v,
     case fetch (unat r) (Peer (w_inter v (jobId, t)) Complete) of
       None \<Rightarrow> [Message (Mr_SendResponse False ''intermediate data index not found'')]
     | Some content \<Rightarrow> [Message (Mr_SendResponse True ''sending intermediate data...''), Raw content])"
  by (simp add: SendFetchIntermediateRequest_def GetTaskAssign_def GetFetchInter_def fetch_def split: prod.splits bool.splits)

lemma reduce_assignment_eq: "GetTaskAssign (reduce_assignment job r) = Some
    \<lparr>ta_jobId = job_id job, ta_taskId = ''reduce-'' @ dec_str (unat r), ta_type = TaskType_REDUCE, ta_inputFile = [],
     ta_chunkId = 0, ta_jobBinary = jr_jobBinary (job_request job), ta_numReducers = job_numReducers job,
     ta_reducerId = r, ta_mapTaskInfo = map_task_info job\<rparr>"
  by (simp add: reduce_assignment_def SendTaskAssignment_def GetTaskAssign_def)

text \<open>The entries name the tasks, each once.\<close>

lemma entries_of_tasks:
  assumes "distinct (map fst es)" "fst ` set es = f ` {..<n}" "inj_on f {..<n}"
  obtains js where "map fst es = map f js" "mset js = mset [0..<n]"
proof -
  define js where "js = map (\<lambda>e. the_inv_into {..<n} f (fst e)) es"
  have recovers: "f (the_inv_into {..<n} f (fst e)) = fst e" if "e \<in> set es" for e
    using assms that by (intro f_the_inv_into_f) auto
  then have 1: "map fst es = map f js" by (simp add: js_def)
  have "distinct js" using assms(1) unfolding 1 by (simp add: distinct_map)
  moreover have "set js = {..<n}"
  proof -
    have "f ` set js = f ` {..<n}" using arg_cong [OF 1, where f = set] assms(2) by simp
    moreover have "set js \<subseteq> {..<n}"
      using assms by (auto simp: js_def intro!: the_inv_into_into [THEN lessThan_iff [THEN iffD1]])
    ultimately show ?thesis using assms(3) by (metis inj_on_image_eq_iff order_refl)
  qed
  ultimately have "mset js = mset [0..<n]"
    by (metis atLeast_upt distinct_upt set_eq_iff_mset_eq_distinct)
  with 1 that show ?thesis by blast
qed

text \<open>Pairs emitted, in another order of the chunks.\<close>

lemma job_emitted_perm:
  assumes "mset cs = mset cs'"
  shows "mset (job_emitted mapFunc cs) = mset (job_emitted mapFunc cs')"
proof -
  have "mset (job_emitted mapFunc cs) = (\<Sum>c \<in># mset cs. mset (emitted mapFunc c))" for cs
    unfolding job_emitted_def by (induction cs) simp_all
  then show ?thesis using assms by simp
qed

lemma same_pairs:
  assumes "mset kvs = mset kvs'"
  shows "reducer_keys R r kvs = reducer_keys R r kvs'" "mset (values_of k kvs) = mset (values_of k kvs')"
    "key_line_length k kvs = key_line_length k kvs'" "list_all P kvs \<longleftrightarrow> list_all P kvs'"
proof -
  show "reducer_keys R r kvs = reducer_keys R r kvs'" using mset_eq_setD [OF assms] by (simp add: reducer_keys_def)
  show m: "mset (values_of k kvs) = mset (values_of k kvs')"
    unfolding values_of_def using assms by (metis mset_filter mset_map)
  have "mset (map (\<lambda>v. length v + 1) (values_of k kvs)) = mset (map (\<lambda>v. length v + 1) (values_of k kvs'))"
    using m by simp
  then have "sum_list (map (\<lambda>v. length v + 1) (values_of k kvs)) = sum_list (map (\<lambda>v. length v + 1) (values_of k kvs'))"
    by (metis sum_mset_sum_list)
  then show "key_line_length k kvs = key_line_length k kvs'" by (simp add: key_line_length_def)
  show "list_all P kvs \<longleftrightarrow> list_all P kvs'" using mset_eq_setD [OF assms] by (simp add: list_all_iff)
qed

text \<open>Everything the job's map tasks emit, and the lines a reducer should write.\<close>

definition all_pairs :: "(string \<Rightarrow> KeyValue list) \<Rightarrow> (nat \<Rightarrow> string) \<Rightarrow> jobState \<Rightarrow> KeyValue list" where
  "all_pairs mapFunc chunk job = job_emitted mapFunc (map chunk [0..<length (job_mapTaskList job)])"

definition right_result ::
    "(bytes \<Rightarrow> bytes list \<Rightarrow> bytes) \<Rightarrow> u32 \<Rightarrow> nat \<Rightarrow> KeyValue list \<Rightarrow> string option \<Rightarrow> bool" where
  "right_result reduceFunc R r kvs res \<longleftrightarrow> (\<exists>vals. (\<forall>k \<in> set (reducer_keys R r kvs). mset (vals k) = mset (values_of k kvs)) \<and>
     res = Some (concat (map (\<lambda>k. k @ '': '' @ reduceFunc k (vals k) @ [nl]) (reducer_keys R r kvs))))"

lemma sources_delivered:
  assumes names: "distinct (map map_task_id (job_mapTaskList job))"
    and held: "\<forall>i < length (job_mapTaskList job). holds out job ws i (mt_nodeAddr (job_mapTaskList job ! i))"
    and env: "reducer_ok mapFunc reduceFunc job ws addr env" and task: "ta_jobId task = job_id job"
    and w: "ws addr = Some w" and w1: "w_inter w1 = w_inter w"
  obtains js where "mset js = mset [0..<length (job_mapTaskList job)]"
    "all_delivered (shuffle_sources env task w1) (map out js)"
proof -
  let ?n = "length (job_mapTaskList job)" and ?tn = "task_name job" and ?a = "\<lambda>i. mt_nodeAddr (job_mapTaskList job ! i)"
  have inj: "inj_on ?tn {..<?n}"
    using names by (auto simp: inj_on_def task_name_def distinct_conv_nth)
  have info: "map_task_info job (?tn i) = Some (?a i)" if "i < ?n" for i
    using map_task_info_map_of [OF names that] .
  have es: "set (te_order env) = (\<lambda>i. (?tn i, ?a i)) ` {..<?n}"
  proof -
    have "map_task_info job t = Some a \<longleftrightarrow> (\<exists>i < ?n. t = ?tn i \<and> a = ?a i)" for t a
    proof
      assume "map_task_info job t = Some a"
      with map_task_info_dom [OF this] info show "\<exists>i < ?n. t = ?tn i \<and> a = ?a i" by fastforce
    qed (use info in auto)
    then have "{(t, a). map_task_info job t = Some a} = (\<lambda>i. (?tn i, ?a i)) ` {..<?n}" by auto
    then show ?thesis using env by (simp add: reducer_ok_def)
  qed
  have keys: "fst ` set (te_order env) = ?tn ` {..<?n}" unfolding es by (simp add: image_image)
  have d: "distinct (map fst (te_order env))" using env by (simp add: reducer_ok_def)
  obtain js where js: "map fst (te_order env) = map ?tn js" "mset js = mset [0..<?n]"
    by (rule entries_of_tasks [OF d keys inj])
  have below: "i < ?n" if "i \<in> set js" for i using that mset_eq_setD [OF js(2)] by auto
  have order: "te_order env = map (\<lambda>i. (?tn i, ?a i)) js"
  proof (rule nth_equalityI)
    show len: "length (te_order env) = length (map (\<lambda>i. (?tn i, ?a i)) js)" using js(1) by (metis length_map)
    fix k assume k: "k < length (te_order env)"
    then have "te_order env ! k \<in> set (te_order env)" by simp
    then have "map_task_info job (fst (te_order env ! k)) = Some (snd (te_order env ! k))" using env by (auto simp: reducer_ok_def)
    moreover have "fst (te_order env ! k) = ?tn (js ! k)" using arg_cong [OF js(1), where f = "\<lambda>xs. xs ! k"] k len by simp
    ultimately show "te_order env ! k = map (\<lambda>i. (?tn i, ?a i)) js ! k"
      using info [of "js ! k"] below [of "js ! k"] k len by (auto simp: prod_eq_iff)
  qed
  have "delivers (if has_prefix (?a i) (short_name (te_hostname env)) then LocalDisk (w_inter w (job_id job, ?tn i))
      else te_connect env (?tn i) (?a i)) (map_file (out i))" if i: "i \<in> set js" for i
  proof -
    have "(?tn i, ?a i) \<in> set (te_order env)" using i order by auto
    then have "if has_prefix (?a i) (short_name (te_hostname env)) then ?a i = addr
        else \<exists>v. ws (?a i) = Some v \<and> te_connect env (?tn i) (?a i) = Peer (w_inter v (job_id job, ?tn i)) Complete"
      using env by (auto simp: reducer_ok_def)
    moreover have "holds out job ws i (?a i)" using held below [OF i] by blast
    ultimately show ?thesis using w by (auto simp: holds_def delivers_def split: if_splits)
  qed
  then have "all_delivered (shuffle_sources env task w1) (map out js)"
    by (simp add: all_delivered_def shuffle_sources_def order w1 task list.rel_map list_all2_same comp_def cong: if_cong split del: if_split)
  with js(2) that show ?thesis by blast
qed

lemma reduce_attempt_effect:
  assumes R: "job_numReducers job \<noteq> 0" "r < unat (job_numReducers job)" and srt: "sorts srt"
    and names: "distinct (map map_task_id (job_mapTaskList job))" and out: "out = task_output mapFunc srt chunk job"
    and held: "\<forall>i < length (job_mapTaskList job). holds out job ws i (mt_nodeAddr (job_mapTaskList job ! i))"
    and w0: "ws addr = Some w0" "w_inter w = w_inter w0" and w: "worker_ok out job w"
    and env: "reducer_ok mapFunc reduceFunc job ws addr env"
    and ok: "list_all pair_ok (all_pairs mapFunc chunk job)"
    and fit: "\<forall>k \<in> set (reducer_keys (job_numReducers job) r (all_pairs mapFunc chunk job)).
      key_line_length k (all_pairs mapFunc chunk job) < maxTokenSize"
    and run: "worker_handleConnection env [reduce_assignment job (word_of_nat r)] w = Inr (w', sent)"
  shows "right_result reduceFunc (job_numReducers job) r (all_pairs mapFunc chunk job) (w_results w' (job_id job, word_of_nat r)) \<and>
    w_inter w' = w_inter w \<and> worker_ok out job w' \<and>
    (\<forall>k. k \<noteq> (job_id job, word_of_nat r) \<longrightarrow> w_results w' k = w_results w k)"
proof -
  let ?R = "job_numReducers job" and ?kvs = "all_pairs mapFunc chunk job" and ?r = "word_of_nat r :: u32"
  define task where "task = the (GetTaskAssign (reduce_assignment job ?r))"
  have task: "ta_jobId task = job_id job" "ta_type task = TaskType_REDUCE" "ta_reducerId task = ?r"
    "ta_jobBinary task = jr_jobBinary (job_request job)" "ta_numReducers task = ?R"
    by (simp_all add: task_def reduce_assignment_eq)
  have "r < 2 ^ 32" using R(2) unsigned_less [of ?R, where ?'a = nat] by simp
  then have ur: "unat ?r = r" by (simp add: unat_of_nat)
  let ?w1 = "w\<lparr>activeTasks := activeTasks w + 1\<rparr>"
  obtain js where js: "mset js = mset [0..<length (job_mapTaskList job)]" and del: "all_delivered (shuffle_sources env task ?w1) (map out js)"
    by (rule sources_delivered [OF names held env task(1) w0(1), of ?w1]) (use w0(2) in auto)
  let ?kvs' = "job_emitted mapFunc (map chunk js)"
  have "mset (map chunk js) = mset (map chunk [0..<length (job_mapTaskList job)])" using js by simp
  then have perm: "mset ?kvs' = mset ?kvs" unfolding all_pairs_def by (rule job_emitted_perm)
  have maps: "maps_done mapFunc srt ?R (map chunk js) (map out js)"
    unfolding maps_done_def out using task_output [OF R(1)] by (simp add: list_all2_conv_all_nth)
  have ok': "list_all pair_ok ?kvs'" using ok same_pairs(4) [OF perm] by blast
  have tw: "takeWhile (\<lambda>k. key_line_length k ?kvs' < maxTokenSize) (reducer_keys ?R r ?kvs') = reducer_keys ?R r ?kvs"
    using fit by (simp add: same_pairs(1) [OF perm] same_pairs(3) [OF perm] takeWhile_eq_all_conv)
  obtain vals where vals: "\<forall>k \<in> set (reducer_keys ?R r ?kvs'). mset (vals k) = mset (values_of k ?kvs')"
    and res: "runReduce reduceFunc r (shuffle_sources env task ?w1) =
      Some (concat (map (\<lambda>k. k @ '': '' @ reduceFunc k (vals k) @ [nl]) (reducer_keys ?R r ?kvs)))"
    using runReduce_lines [OF srt R ok' maps del, of reduceFunc] unfolding tw by blast
  then obtain merged where sh: "shuffle r (shuffle_sources env task ?w1) = Some merged" by (auto simp: runReduce_def)
  have "w_plugins ?w1 (job_id job) \<in> {None, Some (jr_jobBinary (job_request job))}" using w by (simp add: worker_ok_def)
  with env obtain w2 where load: "loadPlugin (te_pluginOpen env) (te_pluginWrite env) (jr_jobBinary (job_request job)) (job_id job) ?w1 =
      (w2, Inr (mapFunc, reduceFunc))"
    and w2: "w_plugins w2 (job_id job) = Some (jr_jobBinary (job_request job))" "w_inter w2 = w_inter w" "w_results w2 = w_results w"
    by (auto simp: reducer_ok_def elim!: loadPlugin_ok [where w = ?w1])
  obtain report where h: "handleTask env task w = Inr (w', report)"
    using run by (auto simp: task_def reduce_assignment_eq and_then_eq_Inr)
  have w': "w_results w' = (w_results w)((job_id job, ?r) := runReduce reduceFunc r (shuffle_sources env task ?w1))"
    "w_inter w' = w_inter w" "w_plugins w' = w_plugins w2"
    using h w2 by (auto simp: handleTask_def Let_def reduce_task_def task ur sh load split: option.splits)
  then have "worker_ok out job w'" using w w2(1) by (simp add: worker_ok_def)
  moreover have "right_result reduceFunc ?R r ?kvs (w_results w' (job_id job, ?r))"
    using vals res unfolding right_result_def same_pairs(1,2) [OF perm] w'(1) by auto
  ultimately show ?thesis using w' by simp
qed

record reduce_attempt =
  ra_reducer :: nat
  ra_addr :: string
  ra_env :: task_env

fun run_reduces :: "jobState \<Rightarrow> reduce_attempt list \<Rightarrow> worker_net \<Rightarrow> worker_net result" where
  "run_reduces job [] ws = Inr ws"
| "run_reduces job (y # ys) ws = (case ws (ra_addr y) of
      None \<Rightarrow> run_reduces job ys ws
    | Some w \<Rightarrow> and_then (worker_handleConnection (ra_env y) [reduce_assignment job (word_of_nat (ra_reducer y))] w) (\<lambda>(w', sent).
        run_reduces job ys (ws(ra_addr y \<mapsto> w'))))"

text \<open>The workers after some reduce tasks: their intermediate files are as they were, their results right.\<close>

definition reduced ::
    "(nat \<Rightarrow> map_output) \<Rightarrow> (u32 \<Rightarrow> string option \<Rightarrow> bool) \<Rightarrow> jobState \<Rightarrow> worker_net \<Rightarrow> (string \<times> u32) set \<Rightarrow> worker_net \<Rightarrow> bool" where
  "reduced out right job ws ended ws' \<longleftrightarrow> dom ws' = dom ws \<and>
     (\<forall>a w'. ws' a = Some w' \<longrightarrow> worker_ok out job w' \<and> w_inter w' = w_inter (the (ws a)) \<and>
        (\<forall>r. (a, r) \<in> ended \<longrightarrow> right r (w_results w' (job_id job, r))))"

lemma reducedD: "reduced out right job ws ended ws' \<Longrightarrow> ws' a = Some w \<Longrightarrow> (a, r) \<in> ended \<Longrightarrow> right r (w_results w (job_id job, r))"
  by (simp add: reduced_def)

definition reduce_attempt_ok ::
    "(string \<Rightarrow> KeyValue list) \<Rightarrow> (bytes \<Rightarrow> bytes list \<Rightarrow> bytes) \<Rightarrow> jobState \<Rightarrow> worker_net \<Rightarrow> reduce_attempt \<Rightarrow> bool" where
  "reduce_attempt_ok mapFunc reduceFunc job ws y \<longleftrightarrow> ra_reducer y < unat (job_numReducers job) \<and> ra_addr y \<in> dom ws \<and>
     reducer_ok mapFunc reduceFunc job ws (ra_addr y) (ra_env y)"

lemma run_reduces_effect:
  assumes R: "job_numReducers job \<noteq> 0" and srt: "sorts srt"
    and names: "distinct (map map_task_id (job_mapTaskList job))" and out: "out = task_output mapFunc srt chunk job"
    and held: "\<forall>i < length (job_mapTaskList job). holds out job ws i (mt_nodeAddr (job_mapTaskList job ! i))"
    and ok: "list_all pair_ok (all_pairs mapFunc chunk job)"
    and fit: "\<forall>k \<in> kv_key ` set (all_pairs mapFunc chunk job). key_line_length k (all_pairs mapFunc chunk job) < maxTokenSize"
    and right: "right = (\<lambda>r. right_result reduceFunc (job_numReducers job) (unat r) (all_pairs mapFunc chunk job))"
  shows "run_reduces job ys ws1 = Inr ws2 \<Longrightarrow> \<forall>y \<in> set ys. reduce_attempt_ok mapFunc reduceFunc job ws y \<Longrightarrow>
    reduced out right job ws ended ws1 \<Longrightarrow>
    reduced out right job ws (ended \<union> set (map (\<lambda>y. (ra_addr y, word_of_nat (ra_reducer y))) ys)) ws2"
proof (induction ys arbitrary: ws1 ended)
  case (Cons y ys)
  let ?a = "ra_addr y" and ?r = "ra_reducer y"
  have y: "?r < unat (job_numReducers job)" "?a \<in> dom ws" "reducer_ok mapFunc reduceFunc job ws ?a (ra_env y)"
    using Cons.prems(2) by (auto simp: reduce_attempt_ok_def)
  have "?a \<in> dom ws1" using Cons.prems(3) y(2) by (simp add: reduced_def)
  then obtain w where w: "ws1 ?a = Some w" by blast
  obtain w0 where w0: "ws ?a = Some w0" using y(2) by auto
  obtain w' sent where run: "worker_handleConnection (ra_env y) [reduce_assignment job (word_of_nat ?r)] w = Inr (w', sent)"
    and rest: "run_reduces job ys (ws1(?a \<mapsto> w')) = Inr ws2"
    using Cons.prems(1) w by (auto simp: and_then_eq_Inr simp del: worker_handleConnection.simps)
  have wok: "worker_ok out job w" "w_inter w = w_inter w0" using Cons.prems(3) w w0 by (auto simp: reduced_def)
  have fit': "\<forall>k \<in> set (reducer_keys (job_numReducers job) ?r (all_pairs mapFunc chunk job)).
      key_line_length k (all_pairs mapFunc chunk job) < maxTokenSize"
    using fit by (auto simp: reducer_keys_def)
  note e = reduce_attempt_effect [OF R y(1) srt names out held w0 wok(2,1) y(3) ok fit' run]
  have "unat (word_of_nat ?r :: u32) = ?r"
    using y(1) unsigned_less [of "job_numReducers job", where ?'a = nat] by (simp add: unat_of_nat)
  then have new: "right (word_of_nat ?r) (w_results w' (job_id job, word_of_nat ?r))" using e by (simp add: right)
  have here: "right r (w_results w' (job_id job, r))" if "(?a, r) \<in> insert (?a, word_of_nat ?r) ended" for r
  proof (cases "r = word_of_nat ?r")
    case False
    then have "right r (w_results w (job_id job, r))" using that Cons.prems(3) w by (auto simp: reduced_def)
    with False e show ?thesis by simp
  qed (use new in simp)
  have "reduced out right job ws (insert (?a, word_of_nat ?r) ended) (ws1(?a \<mapsto> w'))"
    unfolding reduced_def
  proof (intro conjI allI impI)
    show "dom (ws1(?a \<mapsto> w')) = dom ws" using Cons.prems(3) y(2) by (auto simp: reduced_def)
    fix a v assume v: "(ws1(?a \<mapsto> w')) a = Some v"
    show "worker_ok out job v" "w_inter v = w_inter (the (ws a))"
      using v e w0 wok(2) Cons.prems(3) by (auto simp: reduced_def split: if_splits)
    fix r assume "(a, r) \<in> insert (?a, word_of_nat ?r) ended"
    then show "right r (w_results v (job_id job, r))"
      using v here Cons.prems(3) by (auto simp: reduced_def split: if_splits)
  qed
  from Cons.IH [OF rest _ this] Cons.prems(2) show ?case by simp
qed simp

section \<open>From submission to result\<close>

lemma key_of_one_reducer:
  assumes "R \<noteq> 0" "k \<in> kv_key ` set kvs"
  shows "\<exists>!r. r < unat R \<and> k \<in> set (reducer_keys R r kvs)"
proof
  let ?r = "unat (ihash k mod R)"
  have "ihash k mod R < R" using assms(1) by (simp add: word_mod_less_divisor word_gt_0)
  then have "?r < unat R" by (simp add: word_less_nat_alt)
  with assms(2) show "?r < unat R \<and> k \<in> set (reducer_keys R ?r kvs)" by (simp add: reducer_keys_def)
  fix r assume r: "r < unat R \<and> k \<in> set (reducer_keys R r kvs)"
  then have "ihash k mod R = word_of_nat r" by (auto simp: reducer_keys_def)
  moreover have "r < 2 ^ 32" using r unsigned_less [of R, where ?'a = nat] by simp
  ultimately show "r = ?r" by (simp add: unat_of_nat)
qed

lemma submitted_job:
  assumes "handleJobSubmission jobId dfs req m0 = Inr (m1, answer, Some job)" "distinct (jr_inputFiles req)"
    "length (job_mapTaskList job) < 2 ^ 64"
  obtains chunkNodes tasks where "job = new_job jobId req chunkNodes tasks" "\<forall>t \<in> set tasks. mt_nodeAddr t = []"
    "distinct (map map_task_id tasks)"
proof -
  obtain x where x: "collect_inputs dfs (jr_inputFiles req) Map.empty [] = Inr x"
    using assms(1) by (auto simp: handleJobSubmission_def and_then_eq_Inr)
  with assms(1) obtain chunkNodes tasks where c: "collect_inputs dfs (jr_inputFiles req) Map.empty [] = Inr (Inr (chunkNodes, tasks))"
    and job: "job = new_job jobId req chunkNodes tasks"
    by (cases x) (auto simp: handleJobSubmission_def Let_def)
  have "length tasks < 2 ^ 64" using assms(3) by (simp add: job new_job_def Let_def)
  then have "length (filter P tasks) < 2 ^ 64" for P by (rule le_less_trans [OF length_filter_le])
  with collect_inputs_tasks [OF c] assms(2) have "\<forall>t \<in> set tasks. mt_nodeAddr t = []" "distinct (map map_task_id tasks)" by auto
  with job that show ?thesis by blast
qed


text \<open>One file of one chunk, one worker, one reducer.\<close>

definition demo_req :: JobRequest where
  "demo_req = \<lparr>jr_inputFiles = [''f''], jr_jobBinary = ''so'', jr_numReducers = 1\<rparr>"

definition demo_dfs :: "string \<Rightarrow> string + wrapper" where
  "demo_dfs f = Inr (SendGetFileResponse True ''File found'' [\<lparr>cn_metadata = Some zero_ChunkInfo, cn_nodes = []\<rparr>] 0)"

definition demo_submitted :: jobState where
  "demo_submitted = new_job ''j'' demo_req [''f'' \<mapsto> [[]]] [\<lparr>mt_fileName = ''f'', mt_chunkId = 0, mt_nodeAddr = []\<rparr>]"

definition demo_env1 :: task_env where
  "demo_env1 = demo_task_env\<lparr>te_chunk := demo_chunk_env\<lparr>ce_first := Opened demo_chunk_text\<rparr>,
     te_pluginOpen := (\<lambda>_. Inr (\<lambda>s. Inr (if s = ''Map'' then MapSymbol UniqueIps_Map else ReduceSymbol Count_Reduce))),
     te_hostname := ''h'', te_order := [(''f-0'', ''h:1'')]\<rparr>"

definition demo_net :: worker_net where
  "demo_net = [''h:1'' \<mapsto> newWorker ''h'' ''m:1'' ''1'' ''c:1'' ''client'']"

lemma demo_submission: "\<exists>m1. handleJobSubmission ''j'' demo_dfs demo_req newMaster = Inr (m1, SendJobResponse True ''Job accepted'' ''j'', Some demo_submitted)"
  by (simp add: handleJobSubmission_def demo_req_def demo_dfs_def getChunkInfoFromDFS_def SendGetFileResponse_def GetGetFileResp_def
      zero_ChunkInfo_def demo_submitted_def Let_def)

lemma demo_submitted_fields [simp]: "job_id demo_submitted = ''j''" "job_request demo_submitted = demo_req"
  "job_mapTaskList demo_submitted = [\<lparr>mt_fileName = ''f'', mt_chunkId = 0, mt_nodeAddr = []\<rparr>]"
  "job_numReducers demo_submitted = 1" "job_reduceData demo_submitted = [Map.empty]"
  by (simp_all add: demo_submitted_def new_job_def num_reducers_def demo_req_def Let_def)

lemma demo_plugin: "job_request job = demo_req \<Longrightarrow> plugin_ok UniqueIps_Map Count_Reduce job demo_env1"
  by (simp add: plugin_ok_def demo_env1_def demo_task_env_def demo_req_def plugin_functions_def)

lemma demo_task_name: "map_task_id \<lparr>mt_fileName = ''f'', mt_chunkId = 0, mt_nodeAddr = a\<rparr> = ''f-0''"
proof -
  have "dec_str 0 = ''0''" by code_simp
  then show ?thesis by (simp add: map_task_id_def)
qed

lemma handle_reduce_task: "\<exists>w' sent. worker_handleConnection env [reduce_assignment job r] w = Inr (w', sent)"
  by (simp add: reduce_assignment_eq handleTask_def Let_def split: prod.splits option.splits)


end
