(* ===== verification/LeaseLife.thy ===== *)
theory LeaseLife
  imports NodeLife ControllerDemo
begin

text \<open>
  The lease of an upload: the goroutine of the client's \<open>put\<close> that renews it (\<open>dfs/client/client.go\<close>), tick by tick, against
  the controller and everything else that happens there, lease sweeps included.
\<close>

section \<open>Ticks\<close>

text \<open>
  One tick: a connection, a renewal, an answer that is not looked at. A tick that does not get through changes nothing.
\<close>

definition renew_tick :: "link \<Rightarrow> ctrl_env \<Rightarrow> string \<Rightarrow> controller \<Rightarrow> controller result" where
  "renew_tick link env fileName c =
     and_then (exchange link env (SendLeaseRenewRequest (path_base fileName)) c) (\<lambda>(answer, c'). Inr c')"

datatype upload_event = Tick link | Other ctrl_event

fun upload_life :: "string \<Rightarrow> (ctrl_env \<times> upload_event) list \<Rightarrow> controller \<Rightarrow> controller result" where
  "upload_life f [] c = Inr c"
| "upload_life f ((env, Tick link) # es) c = and_then (renew_tick link env f c) (upload_life f es)"
| "upload_life f ((env, Other ev) # es) c = and_then (ctrl_exec env ev c) (\<lambda>(c', outs). upload_life f es c')"

text \<open>
  The time until which the lease of a name runs after an event, given until when it ran before; and that no sweep comes
  later than that.
\<close>

fun lease_after :: "string \<Rightarrow> time \<Rightarrow> ctrl_env \<Rightarrow> ctrl_event \<Rightarrow> time" where
  "lease_after n t env (Recv (Wrapper_LeaseRenewReq (Some md))) = (if fi_name md = n then env_now env + 60 * second else t)"
| "lease_after n t env ev = t"

fun leased :: "string \<Rightarrow> time \<Rightarrow> (ctrl_env \<times> upload_event) list \<Rightarrow> bool" where
  "leased n t [] \<longleftrightarrow> True"
| "leased n t ((env, Tick link) # es) \<longleftrightarrow> leased n (if link \<in> {AnswerLost, Delivered} then env_now env + 60 * second else t) es"
| "leased n t ((env, Other ev) # es) \<longleftrightarrow> (ev = LeaseTimer \<longrightarrow> env_now env \<le> t) \<and> leased n (lease_after n t env ev) es"

section \<open>What happens to a lease\<close>

text \<open>The upload is in progress and its lease runs until the given time.\<close>

definition on_lease :: "string \<Rightarrow> time \<Rightarrow> controller \<Rightarrow> bool" where
  "on_lease n t c \<longleftrightarrow> files c n = None \<and> (\<exists>m. pendingFiles c n = Some m \<and> fm_leaseExpiry m = t)"

lemma on_lease_same: "same_at n c c' \<Longrightarrow> on_lease n t c \<Longrightarrow> on_lease n t c'"
  by (simp add: on_lease_def same_at_def)

lemma report_success_lease:
  assumes run: "report_success io k cid addr c = Inr c'" and l: "on_lease n t c"
  shows "on_lease n t c' \<or> files c' n \<noteq> None"
proof (cases "k = n")
  case False
  then show ?thesis using on_lease_same [OF report_success_other [OF run, of n] l] by simp
next
  case True
  with l obtain m where m: "pendingFiles c k = Some m" "fm_leaseExpiry m = t" "files c k = None" by (auto simp: on_lease_def)
  have l': "on_lease n t (c\<lparr>pendingFiles := (pendingFiles c)(k \<mapsto> map_chunk cid (add_node addr) m)\<rparr>)"
    using m True by (simp add: on_lease_def map_chunk_def)
  from run m(1) show ?thesis
  proof (cases rule: report_success_pending_cases)
    case (first ch)
    from first(3) show ?thesis
      by (cases rule: count_first_copy_cases) (use l' True in \<open>auto simp: on_lease_def ctrl_simps\<close>)
  qed (use l l' in auto)
qed

lemma report_failure_lease:
  assumes run: "report_failure io k cid addr c = Inr c'" and l: "on_lease n t c"
  shows "on_lease n t c'"
proof (cases "k = n")
  case True
  from run show ?thesis
    by (cases rule: report_failure_cases) (use True l in \<open>auto simp: on_lease_def map_chunk_def\<close>)
qed (use on_lease_same [OF report_failure_other [OF run, of n] l] in simp)

lemma handleConnection_lease:
  assumes run: "handleConnection env w c = Inr (c', outs)" and l: "on_lease n t c"
  shows "on_lease n (lease_after n t env (Recv w)) c' \<or> files c' n \<noteq> None"
proof (cases w)
  case (Wrapper_PutFileReq req)
  with run have "handlePutFile (env_now env) (env_nodes env) req c = Inr (c', outs)" by simp
  then show ?thesis
    by (cases rule: handlePutFile_cases) (use l Wrapper_PutFileReq in \<open>auto simp: on_lease_def\<close>)
next
  case (Wrapper_ChunkStatusReport req)
  with run l show ?thesis
    by (auto simp: handleChunkStatusReport_def and_then_eq_Inr dest: report_success_lease report_failure_lease split: if_splits)
next
  case (Wrapper_LeaseRenewReq fi)
  with run l show ?thesis
    by (auto simp: handleLeaseRenew_def and_then_eq_Inr on_lease_def SendResponse_def split: option.splits if_splits)
qed (use run l in \<open>auto simp: and_then_eq_Inr on_lease_def registerNode_def updateHeartbeat_def handleGetFile_def
    handleReplicaNodes_def handleDeleteFile_def handleListFiles_def handleNodeStats_def Let_def ctrl_simps
    split: option.splits if_splits\<close>)

lemma ctrl_exec_lease:
  assumes run: "ctrl_exec env ev c = Inr (c', outs)" and l: "on_lease n t c" and sweep: "ev = LeaseTimer \<longrightarrow> env_now env \<le> t"
  shows "on_lease n (lease_after n t env ev) c' \<or> files c' n \<noteq> None"
proof (cases ev)
  case (Recv w)
  with run l handleConnection_lease show ?thesis by simp
next
  case LeaseTimer
  have "n \<notin> set (expired_names (env_now env) (env_pending env) c)"
    using l sweep LeaseTimer by (auto simp: expired_names_def on_lease_def)
  with run l LeaseTimer show ?thesis by (auto simp: monitorLeases_def Let_def on_lease_def)
next
  case MaintenanceTimer
  with run show ?thesis using l
    by (auto simp: processReplication_def Let_def on_lease_def dest: maintain_files_frame split: if_splits)
next
  case HeartbeatTimer
  with run l show ?thesis by (auto simp: monitorHeartbeats_def on_lease_def)
qed

lemma renew_tick_lease:
  assumes run: "renew_tick link env f c = Inr c'" and l: "on_lease (path_base f) t c"
  shows "on_lease (path_base f) (if link \<in> {AnswerLost, Delivered} then env_now env + 60 * second else t) c'"
  using run l
  by (cases link) (auto simp: renew_tick_def exchange_def and_then_eq_Inr SendLeaseRenewRequest_def handleLeaseRenew_def
      on_lease_def split: option.splits)

section \<open>Properties\<close>



end
