(* ===== verification/WorkerLife.thy ===== *)
theory WorkerLife
  imports Scheduling WorkerTask SysStats
begin

text \<open>
  The loop in which a worker reports its load (\<open>startHeartbeats\<close> of \<open>mapreduce/worker/worker.go\<close>), one pass at a time,
  against the master: what the master makes of the load when it looks for a worker.
\<close>

section \<open>One pass of the loop\<close>

datatype delivery = NotSent | Lost | Received

datatype worker_phase =
    WorkerDialling  \<comment> \<open>at the head of the outer loop\<close>
  | WorkerBeating  \<comment> \<open>at the head of the inner loop, connected\<close>

record load_env =
  le_before :: "string option"
  le_after :: "string option"
  le_meminfo :: "string option"
  le_other :: "string \<Rightarrow> float64"
  le_wild :: "float64 \<Rightarrow> 8 word"

record master_env =
  me_now :: time
  me_jobId :: string
  me_dfs :: "string \<Rightarrow> string + wrapper"

definition load_heartbeat :: "load_env \<Rightarrow> worker \<Rightarrow> MapReduceWrapper" where
  "load_heartbeat le w = worker_heartbeat (GetCpuUsage (le_wild le) (le_before le) (le_after le))
     (GetMemoryUsage (le_other le) (le_wild le) (le_meminfo le)) w"

text \<open>The next phase, what the worker sleeps before it, and the master.\<close>

fun worker_startHeartbeats ::
    "delivery \<Rightarrow> master_env \<Rightarrow> load_env \<Rightarrow> worker \<Rightarrow> worker_phase \<Rightarrow> master \<Rightarrow> (worker_phase \<times> time \<times> master) result" where
  "worker_startHeartbeats d me le w WorkerDialling m =
     Inr (if d = NotSent then (WorkerDialling, 5 * second, m) else (WorkerBeating, 0, m))"
| "worker_startHeartbeats d me le w WorkerBeating m = (case d of
      NotSent \<Rightarrow> Inr (WorkerDialling, 0, m)
    | Lost \<Rightarrow> Inr (WorkerBeating, 2 * second, m)
    | Received \<Rightarrow> and_then (master_handleConnection (me_now me) (me_jobId me) (me_dfs me) (load_heartbeat le w) m)
        (\<lambda>(m', answers, job). Inr (WorkerBeating, 2 * second, m')))"

section \<open>Thresholds\<close>

lemma percent_threshold:
  assumes "percent_of p a b"
  shows "100 * of_nat a / of_nat b < (80 - 1 / 1000 :: rat) \<Longrightarrow> (ucast p :: u32) < 80"
    and "(80 + 1 / 1000 :: rat) \<le> 100 * of_nat a / of_nat b \<Longrightarrow> \<not> (ucast p :: u32) < 80"
proof -
  have "unat p < 2 ^ 8" using unsigned_less [of p, where ?'a = nat] by simp
  then have "take_bit 32 (unat p) = unat p" by (intro take_bit_nat_eq_self) simp
  then have u: "(ucast p :: u32) < 80 \<longleftrightarrow> unat p < 80"
    by (simp add: word_less_nat_alt unsigned_ucast_eq)
  have up: "of_nat (unat p) \<le> 100 * of_nat a / of_nat b + (1 / 1000 :: rat)"
    and low: "100 * of_nat a / of_nat b < of_nat (unat p) + 1 + (1 / 1000 :: rat)"
    using assms by (simp_all add: percent_of_def)
  show "(ucast p :: u32) < 80" if "100 * of_nat a / of_nat b < (80 - 1 / 1000 :: rat)"
  proof -
    have "of_nat (unat p) < (of_nat 80 :: rat)" using up that by simp
    then show ?thesis by (simp only: of_nat_less_iff u)
  qed
  show "\<not> (ucast p :: u32) < 80" if "(80 + 1 / 1000 :: rat) \<le> 100 * of_nat a / of_nat b"
  proof -
    have "(of_nat 79 :: rat) < of_nat (unat p)" using low that by simp
    then show ?thesis by (simp only: of_nat_less_iff u)
  qed
qed

section \<open>Properties\<close>

text \<open>C1: a heartbeat that reaches the master registers the worker under its address with the time and the load of this pass,
  measured from readings of \<open>/proc\<close>: the worker then counts as one with resources when less than 80 percent of the ticks and
  of the memory are in use, and not when 80 percent of either are, up to the thousandth the float roundings take.\<close>

theorem load_decides:
  assumes cpu: "cpu_reading s1 s2 a b" "le_before le = Some s1" "le_after le = Some s2"
    and mem: "mem_reading info m n" "le_meminfo le = Some info"
  shows "\<exists>ma' ws. worker_startHeartbeats Received me le w WorkerBeating ma = Inr (WorkerBeating, 2 * second, ma') \<and>
    workers ma' (w_id w) = Some ws \<and> wi_address (ws_info ws) = w_address w \<and> ws_lastHeartbeat ws = me_now me \<and>
    (100 * of_nat a / of_nat b < (80 - 1 / 1000 :: rat) \<and> 100 * of_nat (n - m) / of_nat n < (80 - 1 / 1000 :: rat) \<longrightarrow>
       has_resources ws) \<and>
    ((80 + 1 / 1000 :: rat) \<le> 100 * of_nat a / of_nat b \<or> (80 + 1 / 1000 :: rat) \<le> 100 * of_nat (n - m) / of_nat n \<longrightarrow>
       \<not> has_resources ws)"
proof -
  obtain p where p: "GetCpuUsage (le_wild le) (le_before le) (le_after le) = Some p" "percent_of p a b"
    using GetCpuUsage_reading [OF cpu(1)] cpu by metis
  obtain q where q: "GetMemoryUsage (le_other le) (le_wild le) (le_meminfo le) = Some q" "percent_of q (n - m) n"
    using GetMemoryUsage_reading [OF mem(1)] mem by metis
  let ?info = "\<lparr>wi_id = w_id w, wi_address = w_address w, wi_cpuLoad = ucast p, wi_memLoad = ucast q, wi_activeTasks = activeTasks w\<rparr>"
  let ?ws = "\<lparr>ws_info = ?info, ws_lastHeartbeat = me_now me\<rparr>"
  have "worker_startHeartbeats Received me le w WorkerBeating ma =
      Inr (WorkerBeating, 2 * second, ma\<lparr>workers := (workers ma)(w_id w \<mapsto> ?ws)\<rparr>)"
    by (simp add: load_heartbeat_def worker_heartbeat_def p q Mr_SendHeartbeat_def master_handleConnection_def handleWorkerHeartbeat_def)
  moreover have "has_resources ?ws" if "100 * of_nat a / of_nat b < (80 - 1 / 1000 :: rat)"
      "100 * of_nat (n - m) / of_nat n < (80 - 1 / 1000 :: rat)"
    using percent_threshold(1) [OF p(2) that(1)] percent_threshold(1) [OF q(2) that(2)]
    by (simp add: has_resources_def cpuThreshold_def memThreshold_def)
  moreover have "\<not> has_resources ?ws" if "(80 + 1 / 1000 :: rat) \<le> 100 * of_nat a / of_nat b"
    using percent_threshold(2) [OF p(2) that] by (simp add: has_resources_def cpuThreshold_def memThreshold_def)
  moreover have "\<not> has_resources ?ws" if "(80 + 1 / 1000 :: rat) \<le> 100 * of_nat (n - m) / of_nat n"
    using percent_threshold(2) [OF q(2) that] by (simp add: has_resources_def cpuThreshold_def memThreshold_def)
  ultimately show ?thesis
    by (intro exI [of _ "ma\<lparr>workers := (workers ma)(w_id w \<mapsto> ?ws)\<rparr>"] exI [of _ ?ws]) auto
qed

definition demo_load :: load_env where
  "demo_load = \<lparr>le_before = Some (''cpu 0 0 0 0 0'' @ [nl]), le_after = Some (''cpu 29 0 0 71 0'' @ [nl]),
     le_meminfo = Some (''MemTotal: 100 kB'' @ nl # ''MemFree: 1 kB'' @ nl # ''MemAvailable: 50 kB'' @ [nl]),
     le_other = (\<lambda>_. NaN), le_wild = (\<lambda>_. 0)\<rparr>"

theorem load_decides_witness:
  "\<exists>ma' ws. worker_startHeartbeats Received \<lparr>me_now = 0, me_jobId = [], me_dfs = (\<lambda>_. Inl [])\<rparr> demo_load
      (newWorker ''h.x'' ''m:1'' ''1'' ''c:1'' ''client'') WorkerBeating newMaster = Inr (WorkerBeating, 2 * second, ma') \<and>
    workers ma' ''h-1'' = Some ws \<and> has_resources ws"
proof -
  have "w_id (newWorker ''h.x'' ''m:1'' ''1'' ''c:1'' ''client'') = ''h-1''" by code_simp
  then show ?thesis
    using load_decides [OF demo_cpu_reading _ _ demo_mem_reading, of demo_load
        "\<lparr>me_now = 0, me_jobId = [], me_dfs = (\<lambda>_. Inl [])\<rparr>" "newWorker ''h.x'' ''m:1'' ''1'' ''c:1'' ''client''" newMaster]
    by (auto simp: demo_load_def)
qed

end
