(* ===== verification/Listing.thy ===== *)
theory Listing
  imports Lifecycle
begin

text \<open>
  Which nodes the controller lists as holders of a chunk, in either of its tables, and what an event can add to the
  list: only a success report of that node for that chunk.
\<close>

definition copy_in :: "fileMetadata \<Rightarrow> u64 \<Rightarrow> string \<Rightarrow> bool" where
  "copy_in m cid a \<longleftrightarrow> (\<exists>ch \<in> set (fm_chunks m). chunkId ch = cid \<and> a \<in> set (chunk_nodes ch))"

definition lists_copy :: "controller \<Rightarrow> string \<Rightarrow> u64 \<Rightarrow> string \<Rightarrow> bool" where
  "lists_copy c n cid a \<longleftrightarrow> (case files c n of None \<Rightarrow> False | Some m \<Rightarrow> copy_in m cid a) \<or>
     (case pendingFiles c n of None \<Rightarrow> False | Some m \<Rightarrow> copy_in m cid a)"

text \<open>The event is a success report of the node for the chunk.\<close>

definition reports_copy :: "string \<Rightarrow> u64 \<Rightarrow> string \<Rightarrow> ctrl_event \<Rightarrow> bool" where
  "reports_copy n cid a ev \<longleftrightarrow> (\<exists>req md nd. ev = Recv (Wrapper_ChunkStatusReport req) \<and> csr_success req \<and>
     csr_metadata req = Some md \<and> ci_file_name md = n \<and> ci_id md = cid \<and> csr_node req = Some nd \<and> ni_address nd = a)"

lemma set_update_first: "y \<in> set (update_first P f xs) \<Longrightarrow> y \<in> set xs \<or> (\<exists>x \<in> set xs. P x \<and> y = f x)"
  by (induction xs) (auto split: if_splits)

lemma copy_in_drop: "copy_in (map_chunk k (drop_node b) m) cid a \<Longrightarrow> copy_in m cid a"
  by (force simp: copy_in_def map_chunk_def drop_node_def dest: set_update_first)

lemma copy_in_add: "copy_in (map_chunk k (add_node b) m) cid a \<Longrightarrow> copy_in m cid a \<or> k = cid \<and> b = a"
  by (fastforce simp: copy_in_def map_chunk_def add_node_def is_chunk_def dest: set_update_first split: if_splits)

lemma copy_in_maintain: "copy_in (maintain_file active m) cid a \<Longrightarrow> copy_in m cid a"
  by (force simp: copy_in_def maintain_file_def maintain_chunk_def live_nodes_def)

lemma copy_in_lease [simp]: "copy_in (m\<lparr>fm_leaseExpiry := t\<rparr>) cid a \<longleftrightarrow> copy_in m cid a"
  by (simp add: copy_in_def)

lemma copy_in_new: "\<not> copy_in (new_upload now md n) cid a"
  by (auto simp: copy_in_def new_upload_def)

lemma lists_same: "same_at n c c' \<Longrightarrow> lists_copy c' n cid a \<longleftrightarrow> lists_copy c n cid a"
  by (simp add: lists_copy_def same_at_def)

lemma report_success_lists:
  assumes run: "report_success io k kid b c = Inr c'" and l: "lists_copy c' n cid a"
  shows "lists_copy c n cid a \<or> k = n \<and> kid = cid \<and> b = a"
proof (cases "k = n")
  case False
  then show ?thesis using lists_same [OF report_success_other [OF run, of n]] l by blast
next
  case True
  show ?thesis
  proof (cases "pendingFiles c k")
    case None
    with run show ?thesis
      by (cases rule: report_success_stored_cases) (use l True in \<open>auto simp: lists_copy_def ctrl_simps dest: copy_in_add split: option.splits\<close>)
  next
    case (Some m)
    with run show ?thesis
    proof (cases rule: report_success_pending_cases)
      case (first ch)
      from first(3) show ?thesis
        by (cases rule: count_first_copy_cases) (use l True Some in \<open>auto simp: lists_copy_def ctrl_simps dest: copy_in_add split: option.splits\<close>)
    qed (use l True Some in \<open>auto simp: lists_copy_def dest: copy_in_add split: option.splits\<close>)
  qed
qed

lemma report_failure_lists:
  assumes run: "report_failure io k kid b c = Inr c'" and l: "lists_copy c' n cid a"
  shows "lists_copy c n cid a"
proof (cases "k = n")
  case False
  then show ?thesis using lists_same [OF report_failure_other [OF run, of n]] l by blast
next
  case True
  from run show ?thesis
    by (cases rule: report_failure_cases)
      (use l True in \<open>auto simp: lists_copy_def ctrl_simps dest: copy_in_drop split: option.splits\<close>)
qed

lemma lists_fewer:
  assumes "(files c' n = files c n \<or> files c' n = None) \<and> pendingFiles c' = pendingFiles c" "lists_copy c' n cid a"
  shows "lists_copy c n cid a"
  using assms by (elim conjE disjE) (simp_all add: lists_copy_def)

text \<open>The other messages leave the tables alone, but for a file that is deleted.\<close>

lemma handleConnection_tables:
  assumes run: "handleConnection env w c = Inr (c', outs)" and w: "\<And>req. w \<noteq> Wrapper_PutFileReq req"
    "\<And>req. w \<noteq> Wrapper_ChunkStatusReport req" "\<And>fi. w \<noteq> Wrapper_LeaseRenewReq fi"
  shows "(files c' n = files c n \<or> files c' n = None) \<and> pendingFiles c' = pendingFiles c"
  using run w
  by (cases w) (auto simp: and_then_eq_Inr registerNode_def updateHeartbeat_def handleGetFile_def handleReplicaNodes_def
      handleDeleteFile_def handleListFiles_def handleNodeStats_def Let_def ctrl_simps split: option.splits if_splits)

lemma handleConnection_lists:
  assumes run: "handleConnection env w c = Inr (c', outs)" and l: "lists_copy c' n cid a"
  shows "lists_copy c n cid a \<or> reports_copy n cid a (Recv w)"
proof (cases w)
  case (Wrapper_PutFileReq req)
  with run have "handlePutFile (env_now env) (env_nodes env) req c = Inr (c', outs)" by simp
  then show ?thesis
    by (cases rule: handlePutFile_cases) (use l in \<open>auto simp: lists_copy_def copy_in_new split: if_splits option.splits\<close>)
next
  case (Wrapper_ChunkStatusReport req)
  with run l show ?thesis
    by (auto simp: handleChunkStatusReport_def and_then_eq_Inr reports_copy_def dest: report_success_lists report_failure_lists
        split: if_splits)
next
  case (Wrapper_LeaseRenewReq fi)
  with run l show ?thesis
    by (auto simp: handleLeaseRenew_def and_then_eq_Inr lists_copy_def split: option.splits if_splits)
qed (use lists_fewer [OF handleConnection_tables [OF run] l] in simp_all)

lemma ctrl_exec_lists:
  assumes run: "ctrl_exec env ev c = Inr (c', outs)" and l: "lists_copy c' n cid a"
  shows "lists_copy c n cid a \<or> reports_copy n cid a ev"
proof (cases ev)
  case (Recv w)
  with run l handleConnection_lists show ?thesis by simp
next
  case LeaseTimer
  with run l show ?thesis by (auto simp: monitorLeases_def Let_def lists_copy_def split: if_splits option.splits)
next
  case HeartbeatTimer
  with run l show ?thesis by (auto simp: monitorHeartbeats_def lists_copy_def)
next
  case MaintenanceTimer
  let ?act = "active_addresses (env_nodes env 0) c"
  show ?thesis
  proof (cases "?act = []")
    case True
    with run l MaintenanceTimer show ?thesis by (simp add: processReplication_def)
  next
    case False
    with run MaintenanceTimer have m: "maintain_files ?act (env_io env) 0 (range_keys (env_files env) (files c)) c = Inr (c', outs)"
      by (simp add: processReplication_def Let_def)
    have "files c' n = files c n \<or> files c' n = map_option (maintain_file ?act) (files c n)"
      using maintain_files_files [OF m] by auto
    then show ?thesis using maintain_files_frame [OF m] l
      by (auto simp: lists_copy_def dest: copy_in_maintain split: option.splits)
  qed
qed

end
