(* ===== verification/Cluster.thy ===== *)
theory Cluster
  imports Listing StoreSpec
begin

text \<open>
  The controller and its storage nodes together. What they send each other is in flight until it arrives or is
  lost: status reports of the nodes, and the orders of the controller. Stores on a node are two events, so that stores, reports
  and orders of all nodes interleave.
\<close>

section \<open>The cluster\<close>

record cluster =
  cl_ctrl :: controller
  cl_node :: "string \<Rightarrow> storage_node \<times> running"
  cl_reports :: "wrapper list"
  cl_orders :: "(string \<times> wrapper) list"

definition orders_of :: "ctrl_out list \<Rightarrow> (string \<times> wrapper) list" where
  "orders_of outs = List.map_filter (\<lambda>out. case out of ToNode a w \<Rightarrow> Some (a, w) | _ \<Rightarrow> None) outs"

definition drop_at :: "nat \<Rightarrow> 'a list \<Rightarrow> 'a list" where
  "drop_at i xs = take i xs @ drop (Suc i) xs"

datatype cluster_event =
    ControllerEvent ctrl_env ctrl_event
  | ReportArrives ctrl_env nat
  | ReportLost nat
  | OrderArrives nat "string option"
  | OrderLost nat
  | BeginStore string store_env StoreChunkRequest
  | FinishStore string chunk_key store_input

text \<open>
  One event; \<open>None\<close> when it cannot happen. An order to copy a chunk makes its node send stores to other nodes, which are
  events of their own.
\<close>

definition at_controller :: "ctrl_env \<Rightarrow> ctrl_event \<Rightarrow> cluster \<Rightarrow> cluster option" where
  "at_controller env ev x = (case ctrl_exec env ev (cl_ctrl x) of
      Inl e \<Rightarrow> None
    | Inr (c, outs) \<Rightarrow> Some (x\<lparr>cl_ctrl := c, cl_orders := cl_orders x @ orders_of outs\<rparr>))"

definition order_at :: "string option \<Rightarrow> string \<times> wrapper \<Rightarrow> cluster \<Rightarrow> cluster option" where
  "order_at err order x = (case order of (a, w) \<Rightarrow> case cl_node x a of (s, running) \<Rightarrow> (case w of
      Wrapper_DeleteFileReq fi \<Rightarrow> (case node_handleDeleteFile err fi s of
          Inl e \<Rightarrow> None
        | Inr (s', outs) \<Rightarrow> Some (x\<lparr>cl_node := (cl_node x)(a := (s', running))\<rparr>))
    | _ \<Rightarrow> Some x))"

fun cluster_exec :: "(bytes \<Rightarrow> bytes) \<Rightarrow> cluster_event \<Rightarrow> cluster \<Rightarrow> cluster option" where
  "cluster_exec md5 (ControllerEvent env ev) x = at_controller env ev x"
| "cluster_exec md5 (ReportArrives env i) x =
     (if i < length (cl_reports x)
      then at_controller env (Recv (cl_reports x ! i)) (x\<lparr>cl_reports := drop_at i (cl_reports x)\<rparr>) else None)"
| "cluster_exec md5 (ReportLost i) x =
     (if i < length (cl_reports x) then Some (x\<lparr>cl_reports := drop_at i (cl_reports x)\<rparr>) else None)"
| "cluster_exec md5 (OrderArrives i err) x =
     (if i < length (cl_orders x) then order_at err (cl_orders x ! i) (x\<lparr>cl_orders := drop_at i (cl_orders x)\<rparr>) else None)"
| "cluster_exec md5 (OrderLost i) x =
     (if i < length (cl_orders x) then Some (x\<lparr>cl_orders := drop_at i (cl_orders x)\<rparr>) else None)"
| "cluster_exec md5 (BeginStore a env req) x = (case cl_node x a of (s, w) \<Rightarrow>
     Option.bind (scr_metadata req) (\<lambda>md.
       if w (chunk_path_of md) \<noteq> None then None
       else case store_begin env req s of
           Inl e \<Rightarrow> None
         | Inr (s', outs, h) \<Rightarrow> Some (x\<lparr>cl_reports := cl_reports x @ reports outs,
             cl_node := (cl_node x)(a := (s', case h of None \<Rightarrow> w | Some h' \<Rightarrow> w(chunk_path_of md \<mapsto> (req, h'))))\<rparr>)))"
| "cluster_exec md5 (FinishStore a k inp) x = (case cl_node x a of (s, w) \<Rightarrow>
     Option.bind (w (key_path k)) (\<lambda>(req, h).
       case store_finish md5 inp req h s of
           Inl e \<Rightarrow> None
         | Inr (s', outs) \<Rightarrow> Some (x\<lparr>cl_reports := cl_reports x @ reports outs,
             cl_node := (cl_node x)(a := (s', w(key_path k := None)))\<rparr>)))"

fun cluster_run :: "(bytes \<Rightarrow> bytes) \<Rightarrow> cluster_event list \<Rightarrow> cluster \<Rightarrow> cluster option" where
  "cluster_run md5 [] x = Some x"
| "cluster_run md5 (e # es) x = Option.bind (cluster_exec md5 e x) (cluster_run md5 es)"

definition new_cluster :: "controller \<Rightarrow> cluster" where
  "new_cluster c = \<lparr>cl_ctrl = c, cl_node = (\<lambda>a. (fresh_node a, Map.empty)), cl_reports = [], cl_orders = []\<rparr>"

section \<open>Runs in which no copy is taken away\<close>

text \<open>
  Status reports come from the nodes, no node is made to delete a file, and no chunk is stored on a node that has it.
\<close>

fun careful_event :: "cluster_event \<Rightarrow> cluster \<Rightarrow> bool" where
  "careful_event (ControllerEvent env (Recv (Wrapper_ChunkStatusReport req))) x \<longleftrightarrow> False"
| "careful_event (OrderArrives i err) x \<longleftrightarrow>
     (case snd (cl_orders x ! i) of Wrapper_DeleteFileReq fi \<Rightarrow> False | _ \<Rightarrow> True)"
| "careful_event (BeginStore a env req) x \<longleftrightarrow> (case scr_metadata req of
      None \<Rightarrow> True
    | Some md \<Rightarrow> content_at (disk (fst (cl_node x a))) (chunk_path_of md) = None)"
| "careful_event e x \<longleftrightarrow> True"

fun careful_run :: "(bytes \<Rightarrow> bytes) \<Rightarrow> cluster_event list \<Rightarrow> cluster \<Rightarrow> bool" where
  "careful_run md5 [] x \<longleftrightarrow> True"
| "careful_run md5 (e # es) x \<longleftrightarrow> careful_event e x \<and>
     (case cluster_exec md5 e x of None \<Rightarrow> True | Some x' \<Rightarrow> careful_run md5 es x')"

section \<open>One store on one node\<close>

lemma begin_names:
  assumes "store_begin env req s = Inr (s', outs, h)" "scr_metadata req = Some md"
  shows "myAddr s' = myAddr s \<and> fs_names (disk s') = (case h of
      None \<Rightarrow> fs_names (disk s) | Some h' \<Rightarrow> (fs_names (disk s))(chunk_path_of md \<mapsto> h')) \<and>
    (\<forall>w \<in> set (reports outs). w = SendChunkStatusReport (path_base (ci_file_name md)) (ci_id md) False (myAddr s))"
proof -
  have "fs_names fs' = (fs_names fs)(p \<mapsto> h)" if "open_trunc p fs = (h, fs')" for p fs h fs'
    using that by (auto simp: open_trunc_def split: option.splits)
  then show ?thesis using assms
    by (auto simp: store_begin_def Let_def reports_def List.map_filter_def reportStatus_def make_dir_def
        simp del: chunk_path_of_eq split: if_splits option.splits prod.splits)
qed

lemma finish_names:
  assumes run: "store_finish md5 inp req h s = Inr (s', outs)" and md: "scr_metadata req = Some md"
    and q: "q \<noteq> chunk_path_of md" "q \<noteq> checksumPath (chunk_path_of md)"
  shows "myAddr s' = myAddr s \<and> fs_names (disk s') q = fs_names (disk s) q"
proof -
  have "fs_names fs' q = fs_names fs q" if "write_file b (checksumPath (chunk_path_of md)) d fs = Some fs'" for b d fs fs'
    using that q(2) by (auto simp: write_file_def open_trunc_def write_handle_def split: if_splits option.splits prod.splits)
  then show ?thesis using assms
    by (auto simp: store_finish_def Let_def remove_file_def write_handle_def simp del: chunk_path_of_eq
        split: if_splits option.splits)
qed

text \<open>A success is reported only with the chunk on disk, if nothing has taken its name away meanwhile.\<close>

lemma finish_report:
  assumes run: "store_finish md5 inp req h s = Inr (s', outs)" and md: "scr_metadata req = Some md"
    and ok: "fs_ok (disk s)" and h: "handle_ok (disk s) (chunk_path_of md) h" and name: "fs_names (disk s) (chunk_path_of md) = Some h"
    and w: "w \<in> set (reports outs)"
  shows "w = SendChunkStatusReport (path_base (ci_file_name md)) (ci_id md) False (myAddr s) \<or>
    w = SendChunkStatusReport (path_base (ci_file_name md)) (ci_id md) True (myAddr s) \<and>
      (\<exists>data. content_at (disk s') (chunk_path_of md) = Some data \<and> length data < 2 ^ 32)"
proof -
  let ?p = "chunk_path_of md" and ?data = "take (unat (ci_size md)) (si_stream inp)"
  let ?fs = "write_handle h ?data (disk s)"
  note wr = write_chunk [OF ok h, where data = ?data]
  have "length ?data \<le> unat (ci_size md)" by simp
  then have len: "length ?data < 2 ^ 32" using unsigned_less [of "ci_size md", where ?'a = nat] by simp
  have c: "content_at ?fs ?p = Some ?data" using wr(3) name by simp
  have good: "content_at fs' ?p = Some ?data" if "write_file (si_checksumWritten inp) (checksumPath ?p) (md5 ?data) ?fs = Some fs'" for fs'
    using write_file_facts(4) [OF wr(1) that, of ?p] c by simp
  show ?thesis
  proof (cases "write_file (si_checksumWritten inp) (checksumPath ?p) (md5 ?data) ?fs")
    case None
    then show ?thesis using run md w
      by (auto simp: store_finish_def Let_def reports_def List.map_filter_def reportStatus_def
          simp del: chunk_path_of_eq split: if_splits)
  next
    case (Some fs')
    then show ?thesis using run md w good [OF Some] len
      by (auto simp: store_finish_def Let_def reports_def List.map_filter_def reportStatus_def
          simp del: chunk_path_of_eq split: if_splits)
  qed
qed

lemma finish_addr: "store_finish md5 inp req h s = Inr (s', outs) \<Longrightarrow> myAddr s' = myAddr s"
  by (auto simp: store_finish_def and_then_eq_Inr Let_def split: if_splits option.splits)

section \<open>The invariant\<close>

text \<open>The node has the whole chunk, and nothing is writing it.\<close>

definition has_copy :: "cluster \<Rightarrow> string \<Rightarrow> u64 \<Rightarrow> string \<Rightarrow> bool" where
  "has_copy x n cid a \<longleftrightarrow> (case cl_node x a of (s, w) \<Rightarrow> w (key_path (n, cid)) = None \<and>
     (\<exists>data. content_at (disk s) (key_path (n, cid)) = Some data \<and> length data < 2 ^ 32))"

definition node_ok :: "(bytes \<Rightarrow> bytes) \<Rightarrow> string \<Rightarrow> storage_node \<times> running \<Rightarrow> bool" where
  "node_ok md5 a sw \<longleftrightarrow> node_inv md5 sw \<and> myAddr (fst sw) = a \<and>
     (\<forall>p req h. snd sw p = Some (req, h) \<longrightarrow> fs_names (disk (fst sw)) p = Some h)"

definition true_report :: "cluster \<Rightarrow> wrapper \<Rightarrow> bool" where
  "true_report x w \<longleftrightarrow> (\<exists>n cid b a. w = SendChunkStatusReport n cid b a \<and> (b \<longrightarrow> has_copy x n cid a))"

definition cluster_inv :: "(bytes \<Rightarrow> bytes) \<Rightarrow> cluster \<Rightarrow> bool" where
  "cluster_inv md5 x \<longleftrightarrow> (\<forall>a. node_ok md5 a (cl_node x a)) \<and> (\<forall>w \<in> set (cl_reports x). true_report x w) \<and>
     (\<forall>n cid a. lists_copy (cl_ctrl x) n cid a \<longrightarrow> has_copy x n cid a)"

lemma has_copy_cong: "cl_node x' = cl_node x \<Longrightarrow> has_copy x' n cid a = has_copy x n cid a"
  by (simp add: has_copy_def)

lemma cluster_inv_cong:
  assumes node: "cl_node x' = cl_node x" and ctrl: "cl_ctrl x' = cl_ctrl x"
    and reports: "set (cl_reports x') \<subseteq> set (cl_reports x)" and inv: "cluster_inv md5 x"
  shows "cluster_inv md5 x'"
proof -
  have same: "has_copy x' n cid a = has_copy x n cid a" for n cid a by (rule has_copy_cong [OF node])
  show ?thesis using inv reports unfolding cluster_inv_def true_report_def same node ctrl by blast
qed

lemma set_drop_at: "set (drop_at i xs) \<subseteq> set xs"
  by (auto simp: drop_at_def dest: in_set_takeD in_set_dropD)

text \<open>An event at the controller, with the report it came by, if any.\<close>

lemma at_controller_inv:
  assumes inv: "cluster_inv md5 x" and run: "at_controller env ev x = Some x'"
    and rep: "\<And>n cid a. reports_copy n cid a ev \<Longrightarrow> has_copy x n cid a"
  shows "cluster_inv md5 x'"
proof -
  obtain c outs where c: "ctrl_exec env ev (cl_ctrl x) = Inr (c, outs)"
    and x': "x' = x\<lparr>cl_ctrl := c, cl_orders := cl_orders x @ orders_of outs\<rparr>"
    using run by (auto simp: at_controller_def split: sum.splits)
  have same: "has_copy x' n cid a = has_copy x n cid a" for n cid a by (rule has_copy_cong) (simp add: x')
  have "has_copy x n cid a" if "lists_copy c n cid a" for n cid a
    using ctrl_exec_lists [OF c that] rep inv by (auto simp: cluster_inv_def)
  then show ?thesis using inv unfolding cluster_inv_def true_report_def same by (simp add: x')
qed

text \<open>An event at a node that touches one chunk, which the node did not have before.\<close>

lemma at_node_inv:
  assumes inv: "cluster_inv md5 x" and a: "cl_node x a = (s, w)"
    and x': "x' = x\<lparr>cl_reports := cl_reports x @ rs, cl_node := (cl_node x)(a := (s', w'))\<rparr>"
    and same: "\<And>k. k \<noteq> k0 \<Longrightarrow> w' (key_path k) = w (key_path k) \<and> content_at (disk s') (key_path k) = content_at (disk s) (key_path k)"
    and absent: "\<not> has_copy x (fst k0) (snd k0) a" and ok: "node_ok md5 a (s', w')"
    and rs: "\<And>v. v \<in> set rs \<Longrightarrow> true_report x' v"
  shows "cluster_inv md5 x'"
proof -
  have keep: "has_copy x' n cid b" if "has_copy x n cid b" for n cid b
  proof (cases "b = a")
    case True
    with that absent have "(n, cid) \<noteq> k0" by auto
    then show ?thesis using same [of "(n, cid)"] that True a by (simp add: has_copy_def x')
  next
    case False
    then show ?thesis using that by (simp add: has_copy_def x')
  qed
  then have "true_report x' v" if "v \<in> set (cl_reports x)" for v
    using inv that unfolding cluster_inv_def true_report_def by blast
  then show ?thesis using inv keep ok rs by (auto simp: cluster_inv_def x')
qed

lemma begin_store_inv:
  assumes inv: "cluster_inv md5 x" and run: "cluster_exec md5 (BeginStore a env req) x = Some x'"
    and careful: "careful_event (BeginStore a env req) x"
  shows "cluster_inv md5 x'"
proof -
  obtain s w where a: "cl_node x a = (s, w)" by (cases "cl_node x a") auto
  obtain md s' outs h where md: "scr_metadata req = Some md" "w (chunk_path_of md) = None"
    and b: "store_begin env req s = Inr (s', outs, h)"
    and x': "x' = x\<lparr>cl_reports := cl_reports x @ reports outs,
        cl_node := (cl_node x)(a := (s', case h of None \<Rightarrow> w | Some h' \<Rightarrow> w(chunk_path_of md \<mapsto> (req, h'))))\<rparr>"
    using run a by (auto simp: Option.bind_eq_Some_conv simp del: chunk_path_of_eq not_None_eq split: if_splits sum.splits)
  let ?w' = "case h of None \<Rightarrow> w | Some h' \<Rightarrow> w(chunk_path_of md \<mapsto> (req, h'))" and ?k = "key_of md"
  have ok: "node_ok md5 a (s, w)" using inv a by (metis cluster_inv_def)
  then have ninv: "node_inv md5 (s, w)" and addr: "myAddr s = a" by (simp_all add: node_ok_def)
  note e = begin_effect [OF b md(1) node_invD(1) [OF ninv]] and names = begin_names [OF b md(1)]
  have absent: "content_at (disk s) (chunk_path_of md) = None" using careful a md(1) by simp
  show ?thesis
  proof (rule at_node_inv [OF inv a x'])
    show "\<not> has_copy x (fst ?k) (snd ?k) a" using absent a by (simp add: has_copy_def path_of_key del: chunk_path_of_eq)
    show "?w' (key_path k) = w (key_path k) \<and> content_at (disk s') (key_path k) = content_at (disk s) (key_path k)" if "k \<noteq> ?k" for k
      using e that unfolding only_at_def path_of_key by (simp split: option.splits)
    have "node_inv md5 (s', ?w')"
    proof (cases h)
      case None
      then show ?thesis using rejected_inv [OF ninv _ md] b by simp
    next
      case (Some h')
      then show ?thesis using begin_inv [OF ninv _ md] b by (simp del: chunk_path_of_eq)
    qed
    then show "node_ok md5 a (s', ?w')" using ok names md(2)
      by (auto simp: node_ok_def simp del: chunk_path_of_eq split: option.splits if_splits)
    show "true_report x' v" if "v \<in> set (reports outs)" for v
      using names that unfolding true_report_def by blast
  qed
qed

lemma finish_store_inv:
  assumes inv: "cluster_inv md5 x" and run: "cluster_exec md5 (FinishStore a k inp) x = Some x'"
  shows "cluster_inv md5 x'"
proof -
  obtain s w where a: "cl_node x a = (s, w)" by (cases "cl_node x a") auto
  obtain req h where w: "w (key_path k) = Some (req, h)" using run a by (auto simp: Option.bind_eq_Some_conv)
  obtain s' outs where f: "store_finish md5 inp req h s = Inr (s', outs)"
    and x': "x' = x\<lparr>cl_reports := cl_reports x @ reports outs, cl_node := (cl_node x)(a := (s', w(key_path k := None)))\<rparr>"
    using run a w by (auto split: sum.splits prod.splits)
  have ok: "node_ok md5 a (s, w)" using inv a by (metis cluster_inv_def)
  then have ninv: "node_inv md5 (s, w)" and addr: "myAddr s = a"
    and held: "\<And>p req h. w p = Some (req, h) \<Longrightarrow> fs_names (disk s) p = Some h" by (simp_all add: node_ok_def)
  obtain md where md: "scr_metadata req = Some md" "key_path k = chunk_path_of md" using node_invD(7) [OF ninv w] by blast
  have k: "k = key_of md" using md(2) by (simp add: path_of_key del: chunk_path_of_eq)
  have h: "handle_ok (disk s) (chunk_path_of md) h" using node_invD(6) [OF ninv w] md(2) by simp
  note e = finish_effect [OF f md(1) node_invD(1) [OF ninv] h]
  show ?thesis
  proof (rule at_node_inv [OF inv a x'])
    show "\<not> has_copy x (fst k) (snd k) a" using w a by (simp add: has_copy_def)
    show "(w(key_path k := None)) (key_path k') = w (key_path k') \<and> content_at (disk s') (key_path k') = content_at (disk s) (key_path k')"
      if "k' \<noteq> k" for k' using e that unfolding md(2) [symmetric] by simp
    have inv': "node_inv md5 (s', w(key_path k := None))" by (rule finish_inv [OF ninv w f])
    have names: "fs_names (disk s') p = Some h'" if "p \<noteq> key_path k" "w p = Some (r, h')" for p r h'
    proof -
      have "p \<noteq> checksumPath (chunk_path_of md)" using running_not_checksum [OF ninv that(2)] by simp
      then show ?thesis using finish_names [OF f md(1), of p] held [OF that(2)] that(1) md(2) by simp
    qed
    show "node_ok md5 a (s', w(key_path k := None))"
      using inv' names finish_addr [OF f] addr by (auto simp: node_ok_def split: if_splits)
    show "true_report x' v" if "v \<in> set (reports outs)" for v
    proof -
      from finish_report [OF f md(1) node_invD(1) [OF ninv] h held [OF w, unfolded md(2)] that]
      have "v = SendChunkStatusReport (fst k) (snd k) False a \<or> v = SendChunkStatusReport (fst k) (snd k) True a \<and>
          (\<exists>data. content_at (disk s') (key_path k) = Some data \<and> length data < 2 ^ 32)"
        by (simp add: addr k key_of_def path_of_key del: chunk_path_of_eq)
      moreover have "has_copy x' (fst k) (snd k) a" if "content_at (disk s') (key_path k) = Some data" "length data < 2 ^ 32" for data
        using that by (simp add: has_copy_def x')
      ultimately show ?thesis unfolding true_report_def by blast
    qed
  qed
qed

lemma careful_step_inv:
  assumes inv: "cluster_inv md5 x" and run: "cluster_exec md5 e x = Some x'" and careful: "careful_event e x"
  shows "cluster_inv md5 x'"
proof (cases e)
  case (ControllerEvent env ev)
  have "\<not> reports_copy n cid a ev" for n cid a
    using careful ControllerEvent by (auto simp: reports_copy_def)
  moreover from run ControllerEvent have run': "at_controller env ev x = Some x'" by simp
  ultimately show ?thesis by (intro at_controller_inv [OF inv run']) blast
next
  case (ReportArrives env i)
  let ?x = "x\<lparr>cl_reports := drop_at i (cl_reports x)\<rparr>" and ?w = "cl_reports x ! i"
  have i: "i < length (cl_reports x)" and run': "at_controller env (Recv ?w) ?x = Some x'"
    using run ReportArrives by (auto split: if_splits)
  have same: "has_copy ?x n cid a = has_copy x n cid a" for n cid a by (rule has_copy_cong) simp
  have inv': "cluster_inv md5 ?x" by (rule cluster_inv_cong [OF _ _ _ inv]) (simp_all add: set_drop_at)
  have "true_report x ?w" using inv i by (simp add: cluster_inv_def)
  then obtain n cid b a where w: "?w = SendChunkStatusReport n cid b a" "b \<longrightarrow> has_copy x n cid a"
    unfolding true_report_def by blast
  show ?thesis
  proof (rule at_controller_inv [OF inv' run'])
    fix n' cid' a' assume "reports_copy n' cid' a' (Recv ?w)"
    then have "n' = n \<and> cid' = cid \<and> a' = a \<and> b"
      by (auto simp: reports_copy_def w(1) SendChunkStatusReport_def zero_ChunkInfo_def zero_NodeInfo_def)
    then show "has_copy ?x n' cid' a'" using w(2) same by simp
  qed
next
  case (ReportLost i)
  with run have "x' = x\<lparr>cl_reports := drop_at i (cl_reports x)\<rparr>" by (auto split: if_splits)
  then show ?thesis by (intro cluster_inv_cong [OF _ _ _ inv]) (simp_all add: set_drop_at)
next
  case (OrderArrives i err)
  then have "x' = x\<lparr>cl_orders := drop_at i (cl_orders x)\<rparr>"
    using run careful by (cases "cl_orders x ! i") (auto simp: order_at_def split: if_splits wrapper.splits prod.splits)
  then show ?thesis by (intro cluster_inv_cong [OF _ _ _ inv]) simp_all
next
  case (OrderLost i)
  with run have "x' = x\<lparr>cl_orders := drop_at i (cl_orders x)\<rparr>" by (auto split: if_splits)
  then show ?thesis by (intro cluster_inv_cong [OF _ _ _ inv]) simp_all
next
  case (BeginStore a env req)
  with begin_store_inv inv run careful show ?thesis by blast
next
  case (FinishStore a k inp)
  with finish_store_inv inv run show ?thesis by blast
qed

lemma careful_run_inv:
  "cluster_run md5 es x = Some x' \<Longrightarrow> careful_run md5 es x \<Longrightarrow> cluster_inv md5 x \<Longrightarrow> cluster_inv md5 x'"
  by (induction es arbitrary: x) (auto simp: Option.bind_eq_Some_conv dest: careful_step_inv)

end
