(* ===== verification/ClusterRun.thy ===== *)
theory ClusterRun
  imports Cluster ClientProps ControllerDemo
begin

text \<open>
  What a client of the cluster gets: after any run in which no copy is taken away, the controller's answer to a
  GET request leads the client to nodes that serve every chunk.
\<close>

section \<open>Downloads from nodes that serve\<close>

lemma getChunk_some:
  assumes "addrs \<noteq> []" "\<forall>a \<in> set addrs. \<exists>data. chunk_from md5 (holders a) = Inr (Some data) \<and> Q a data"
  shows "\<exists>a \<in> set addrs. \<exists>data. getChunk md5 holders addrs = Inr (Some data) \<and> Q a data"
  using assms by (cases addrs) auto

lemma get_parts_each:
  assumes "\<forall>loc \<in> set locs. \<exists>md data. cn_metadata loc = Some md \<and> Q (ci_id md) data \<and>
      getChunk md5 (holders (ci_id md)) (sortNodeAddresses hostname (map ni_address (cn_nodes loc))) = Inr (Some data)"
  shows "\<exists>parts. get_parts md5 hostname holders locs = Inr parts \<and>
    (\<forall>loc \<in> set locs. \<exists>data. parts (ci_id (the (cn_metadata loc))) = Some data \<and> Q (ci_id (the (cn_metadata loc))) data)"
  using assms
proof (induction locs)
  case (Cons loc locs)
  then obtain parts where parts: "get_parts md5 hostname holders locs = Inr parts"
    "\<forall>loc \<in> set locs. \<exists>data. parts (ci_id (the (cn_metadata loc))) = Some data \<and> Q (ci_id (the (cn_metadata loc))) data"
    by auto
  from Cons.prems obtain md data where loc: "cn_metadata loc = Some md" "Q (ci_id md) data"
    "getChunk md5 (holders (ci_id md)) (sortNodeAddresses hostname (map ni_address (cn_nodes loc))) = Inr (Some data)"
    by auto
  have "get_parts md5 hostname holders (loc # locs) = Inr (parts(ci_id md \<mapsto> data))" using loc parts(1) by simp
  then show ?case using parts(2) loc(1,2) by (intro exI [of _ "parts(ci_id md \<mapsto> data)"]) auto
qed simp

lemma mergeChunks_distinct:
  "distinct cids \<Longrightarrow> \<forall>cid \<in> set cids. parts cid = Some (piece cid) \<Longrightarrow> mergeChunks parts cids = Inr (concat (map piece cids))"
proof (induction cids arbitrary: parts)
  case (Cons cid cids)
  have "mergeChunks (parts(cid := None)) cids = Inr (concat (map piece cids))"
    by (rule Cons.IH) (use Cons.prems in auto)
  then show ?case using Cons.prems by simp
qed simp

text \<open>A node of the cluster that has the copy gives it to the client.\<close>

lemma copy_is_served:
  assumes inv: "cluster_inv md5 x" and copy: "has_copy x (path_base fileName) cid a"
  shows "\<exists>data. chunk_from md5 (fetch_session md5 fileName cid (fst (cl_node x a))) = Inr (Some data) \<and>
    content_at (disk (fst (cl_node x a))) (chunkPath (path_base fileName) cid) = Some data"
proof -
  obtain s w where a: "cl_node x a = (s, w)" by (cases "cl_node x a") auto
  have "node_ok md5 a (s, w)" using inv a by (metis cluster_inv_def)
  then have ninv: "node_inv md5 (s, w)" by (simp add: node_ok_def)
  let ?p = "chunkPath (path_base fileName) cid"
  obtain data where data: "w ?p = None" "content_at (disk s) ?p = Some data" "length data < 2 ^ 32"
    using copy a by (auto simp: has_copy_def key_path_def)
  then have "holds_chunk ?p data s" "may_hold_chunk ?p data s"
    using node_invD(2) [OF ninv] by (auto simp: holds_chunk_def may_hold_chunk_def)
  then show ?thesis using fetch_from_node [OF ninv _ data(3)] data(2) a by simp
qed

text \<open>The tables of the controller stay well formed, whatever happens.\<close>

lemma at_controller_ctrl_inv: "at_controller env ev x = Some x' \<Longrightarrow> ctrl_inv (cl_ctrl x) \<Longrightarrow> ctrl_inv (cl_ctrl x')"
  by (auto simp: at_controller_def dest: ctrl_exec_inv simp del: ctrl_exec.simps split: sum.splits)

lemma cluster_exec_ctrl_inv:
  assumes "cluster_exec md5 e x = Some x'" "ctrl_inv (cl_ctrl x)"
  shows "ctrl_inv (cl_ctrl x')"
proof (cases e)
  case (OrderArrives i err)
  then show ?thesis using assms by (auto simp: order_at_def split: if_splits sum.splits prod.splits wrapper.splits)
next
  case (BeginStore a env req)
  then show ?thesis using assms by (auto simp: Option.bind_eq_Some_conv split: if_splits sum.splits prod.splits)
next
  case (FinishStore a k inp)
  obtain s w where "cl_node x a = (s, w)" by fastforce
  moreover from this assms FinishStore obtain req h where "w (key_path k) = Some (req, h)" by (auto simp: Option.bind_eq_Some_conv)
  ultimately show ?thesis using assms FinishStore by (cases "store_finish md5 inp req h s") auto
qed (use assms in \<open>auto split: if_splits dest: at_controller_ctrl_inv\<close>)

lemma cluster_run_ctrl_inv:
  "cluster_run md5 es x = Some x' \<Longrightarrow> ctrl_inv (cl_ctrl x) \<Longrightarrow> ctrl_inv (cl_ctrl x')"
  by (induction es arbitrary: x) (auto simp: Option.bind_eq_Some_conv dest: cluster_exec_ctrl_inv)

lemma new_cluster_inv:
  assumes "start_controller None = Inr c0"
  shows "cluster_inv md5 (new_cluster c0) \<and> ctrl_inv c0"
proof -
  have "reachable c0" by (rule reachable.boot [OF assms])
  then have "ctrl_inv c0" using reachable_wal_inv by (simp add: wal_inv_def)
  moreover have "c0 = demo_boot" using assms demo_start by simp
  then have "\<not> lists_copy c0 n cid a" for n cid a by (simp add: lists_copy_def newController_def)
  ultimately show ?thesis using fresh_node_inv
    by (simp add: cluster_inv_def new_cluster_def node_ok_def) (simp add: fresh_node_def)
qed

text \<open>What the controller answers about a file of which every chunk is listed somewhere.\<close>

lemma get_from_cluster:
  assumes inv: "cluster_inv md5 x" and cinv: "ctrl_inv (cl_ctrl x)"
    and stored: "files (cl_ctrl x) (path_base fileName) = Some m" and copied: "fully_copied m"
    and answer: "handleGetFile (Some \<lparr>fi_name = path_base fileName, fi_size = 0\<rparr>) (cl_ctrl x) = Inr (c, [Reply w])"
    and space: "\<not> free_space < fm_size m + spacePadding" and merge: "fm_size m \<le> mergeThreshold"
  shows "\<exists>piece. get md5 hostname (Some w) free_space reply (\<lambda>cid a. fetch_session md5 fileName cid (fst (cl_node x a))) =
      Inr (Merged (concat (map (\<lambda>ch. piece (chunkId ch)) (fm_chunks m)))) \<and>
    (\<forall>ch \<in> set (fm_chunks m). \<exists>a. copy_in m (chunkId ch) a \<and>
      content_at (disk (fst (cl_node x a))) (chunkPath (path_base fileName) (chunkId ch)) = Some (piece (chunkId ch)))"
proof -
  let ?n = "path_base fileName" and ?holders = "\<lambda>cid a. fetch_session md5 fileName cid (fst (cl_node x a))"
  let ?loc = "\<lambda>ch. \<lparr>cn_metadata = Some (zero_ChunkInfo\<lparr>ci_id := chunkId ch, ci_size := chunk_size ch,
      ci_checksum := chunk_checksum ch\<rparr>), cn_nodes = MapArrayAddressesToNodeInfo (chunk_nodes ch)\<rparr>"
  let ?Q = "\<lambda>cid data. \<exists>a. copy_in m cid a \<and> content_at (disk (fst (cl_node x a))) (chunkPath ?n cid) = Some data"
  have w: "w = SendGetFileResponse True ''File found'' (map ?loc (fm_chunks m)) (fm_size m)"
    using answer stored by (simp add: handleGetFile_def)
  have ids: "distinct (map chunkId (fm_chunks m))"
    using cinv stored by (intro meta_ok_distinct_ids) (auto simp: ctrl_inv_def intro: ranI)
  have "\<exists>data. ?Q (chunkId ch) data \<and> getChunk md5 (?holders (chunkId ch))
      (sortNodeAddresses hostname (chunk_nodes ch)) = Inr (Some data)" if ch: "ch \<in> set (fm_chunks m)" for ch
  proof -
    have listed: "copy_in m (chunkId ch) a" if "a \<in> set (chunk_nodes ch)" for a using that ch by (auto simp: copy_in_def)
    have copy: "has_copy x ?n (chunkId ch) a" if "a \<in> set (chunk_nodes ch)" for a
      using inv stored listed [OF that] by (auto simp: cluster_inv_def lists_copy_def)
    have each: "\<forall>a \<in> set (sortNodeAddresses hostname (chunk_nodes ch)). \<exists>data. chunk_from md5 (?holders (chunkId ch) a) = Inr (Some data) \<and>
        (copy_in m (chunkId ch) a \<and> content_at (disk (fst (cl_node x a))) (chunkPath ?n (chunkId ch)) = Some data)"
      using copy_is_served [OF inv copy] listed by fastforce
    have some: "sortNodeAddresses hostname (chunk_nodes ch) \<noteq> []"
      using copied ch set_sortNodeAddresses [of hostname "chunk_nodes ch"] by (force simp: fully_copied_def simp del: set_sortNodeAddresses)
    from getChunk_some [OF some each] show ?thesis by blast
  qed
  then have "\<forall>loc \<in> set (map ?loc (fm_chunks m)). \<exists>md data. cn_metadata loc = Some md \<and> ?Q (ci_id md) data \<and>
      getChunk md5 (?holders (ci_id md)) (sortNodeAddresses hostname (map ni_address (cn_nodes loc))) = Inr (Some data)"
    by simp
  from get_parts_each [OF this] obtain parts where
    got: "get_parts md5 hostname ?holders (map ?loc (fm_chunks m)) = Inr parts"
    and parts: "\<forall>ch \<in> set (fm_chunks m). \<exists>data. parts (chunkId ch) = Some data \<and> ?Q (chunkId ch) data" by auto
  let ?piece = "\<lambda>cid. the (parts cid)"
  have "mergeChunks parts (map chunkId (fm_chunks m)) = Inr (concat (map ?piece (map chunkId (fm_chunks m))))"
    using parts by (intro mergeChunks_distinct [OF ids]) auto
  then have "get md5 hostname (Some w) free_space reply ?holders = Inr (Merged (concat (map (\<lambda>ch. ?piece (chunkId ch)) (fm_chunks m))))"
    using got space merge
    by (simp add: w get_def SendGetFileResponse_def GetGetFileResp_def checked_def zero_FileInfo_def comp_def)
  moreover have "\<forall>ch \<in> set (fm_chunks m). ?Q (chunkId ch) (?piece (chunkId ch))" using parts by force
  ultimately show ?thesis by (intro exI [of _ ?piece] conjI)
qed

text \<open>C5: in a cluster that starts empty, whatever stores, status reports, timers, lost messages, nodes given up and
  requests of clients follow each other in whatever order, as long as no node carries out a delete and no node stores a
  chunk anew that it has, every stored file can be downloaded: if every chunk is listed on some node, the client
  that asks the controller and then the nodes it names gets a merged file, whose pieces are, chunk by chunk, what a node
  listed for the chunk has on its disk.\<close>

theorem stored_files_download:
  assumes start: "start_controller None = Inr c0" and run: "cluster_run md5 es (new_cluster c0) = Some x"
    and careful: "careful_run md5 es (new_cluster c0)"
    and stored: "files (cl_ctrl x) (path_base fileName) = Some m" and copied: "fully_copied m"
    and answer: "handleGetFile (Some \<lparr>fi_name = path_base fileName, fi_size = 0\<rparr>) (cl_ctrl x) = Inr (c, [Reply w])"
    and space: "\<not> free_space < fm_size m + spacePadding" and merge: "fm_size m \<le> mergeThreshold"
  shows "\<exists>piece. get md5 hostname (Some w) free_space reply (\<lambda>cid a. fetch_session md5 fileName cid (fst (cl_node x a))) =
      Inr (Merged (concat (map (\<lambda>ch. piece (chunkId ch)) (fm_chunks m)))) \<and>
    (\<forall>ch \<in> set (fm_chunks m). \<exists>a. copy_in m (chunkId ch) a \<and>
      content_at (disk (fst (cl_node x a))) (chunkPath (path_base fileName) (chunkId ch)) = Some (piece (chunkId ch)))"
proof -
  have "cluster_inv md5 x" "ctrl_inv (cl_ctrl x)"
    using new_cluster_inv [OF start] careful_run_inv [OF run careful] cluster_run_ctrl_inv [OF run] by (simp_all add: new_cluster_def)
  then show ?thesis by (rule get_from_cluster [OF _ _ stored copied answer space merge])
qed

text \<open>A run of a cluster of three nodes: they register, a client puts a file of two chunks, and two nodes store and report them.\<close>

definition demo_join :: "string \<Rightarrow> cluster_event list" where
  "demo_join n = [ControllerEvent ControllerDemo.demo_env (Recv (SendRegistrationRequest n n)),
     ControllerEvent ControllerDemo.demo_env (Recv (SendHeartbeat n 0 1000 0))]"

definition demo_request :: "u64 \<Rightarrow> bytes \<Rightarrow> StoreChunkRequest" where
  "demo_request cid data = \<lparr>scr_metadata = Some \<lparr>ci_id = cid, ci_file_name = ''f'', ci_size = 2, ci_checksum = rev data\<rparr>,
     scr_is_original = True\<rparr>"

definition demo_store_events :: "string \<Rightarrow> u64 \<Rightarrow> bytes \<Rightarrow> cluster_event list" where
  "demo_store_events a cid data = [BeginStore a StorageProps.demo_env (demo_request cid data), FinishStore a (''f'', cid) (demo_input data)]"

lemma demo_join_run:
  assumes "cl_ctrl x = c"
  shows "cluster_run md5 (demo_join n @ es) x = cluster_run md5 es (x\<lparr>cl_ctrl := c\<lparr>nodes := (nodes c)(n \<mapsto> demo_node n)\<rparr>\<rparr>) \<and>
    careful_run md5 (demo_join n @ es) x = careful_run md5 es (x\<lparr>cl_ctrl := c\<lparr>nodes := (nodes c)(n \<mapsto> demo_node n)\<rparr>\<rparr>)"
  using assms
  by (simp add: demo_join_def at_controller_def orders_of_def List.map_filter_def SendRegistrationRequest_def SendHeartbeat_def
      updateHeartbeat_def registerNode_def ControllerDemo.demo_env_def demo_node_def zero_NodeInfo_def)

lemma demo_store_run:
  assumes node: "cl_node x a = (s0, Map.empty)" "node_ok rev a (s0, Map.empty)" and len: "length data = 2"
  shows "\<exists>s. content_at (disk s) (chunkPath ''f'' cid) = Some data \<and> (\<forall>es.
    let x' = x\<lparr>cl_reports := cl_reports x @ [SendChunkStatusReport ''f'' cid True a], cl_node := (cl_node x)(a := (s, Map.empty))\<rparr>
    in cluster_run rev (demo_store_events a cid data @ es) x = cluster_run rev es x' \<and>
       (content_at (disk s0) (chunkPath ''f'' cid) = None \<longrightarrow>
         careful_run rev (demo_store_events a cid data @ es) x = careful_run rev es x'))"
proof -
  let ?req = "demo_request cid data" and ?p = "chunkPath ''f'' cid"
  let ?md = "\<lparr>ci_id = cid, ci_file_name = ''f'', ci_size = 2, ci_checksum = rev data\<rparr>"
  have base: "path_base ''f'' = ''f''" by (simp add: path_base_def)
  have md: "scr_metadata ?req = Some ?md" by (simp add: demo_request_def)
  obtain s1 h where b: "store_begin StorageProps.demo_env ?req s0 =
      Inr (s1, [Answer (SendResponse True ''Ready to receive chunk data'')], Some h)"
    using store_begin_accepts [of ?req ?md StorageProps.demo_env s0]
    by (auto simp: accepts_def demo_store_defs demo_request_def)
  obtain s2 outs where f: "store_finish rev (demo_input data) ?req h s1 = Inr (s2, outs)"
    using store_finish_runs [OF md] by blast
  have ok: "fs_ok (disk s0)" and addr: "myAddr s0 = a" using node(2) node_invD(1) by (auto simp: node_ok_def)
  have "handleStoreChunk rev StorageProps.demo_env (demo_input data) ?req s0 =
      Inr (s2, Answer (SendResponse True ''Ready to receive chunk data'') # outs)"
    using b f by (simp add: handleStoreChunk_def)
  from handleStoreChunk_outcome [OF ok md this] len have at: "content_at (disk s2) ?p = Some data"
    and reports: "reports outs = [SendChunkStatusReport ''f'' cid True a]"
    by (simp_all add: accepts_def arrives_def demo_store_defs base addr reports_def List.map_filter_def)
  show ?thesis using at b f node(1) reports
    by (intro exI [of _ s2]) (auto simp: demo_store_events_def Let_def md base key_path_def reports_def List.map_filter_def
        fun_upd_idem)
qed

lemma two_reports_run:
  assumes "cl_reports x = [r1, r2]" "ctrl_exec env (Recv r1) (cl_ctrl x) = Inr (c1, [])" "ctrl_exec env (Recv r2) c1 = Inr (c2, [])"
  shows "cluster_run md5 [ReportArrives env 0, ReportArrives env 0] x = Some (x\<lparr>cl_ctrl := c2, cl_reports := []\<rparr>) \<and>
    careful_run md5 [ReportArrives env 0, ReportArrives env 0] x"
  using assms by (simp add: at_controller_def drop_at_def orders_of_def List.map_filter_def del: ctrl_exec.simps)

lemma demo_cluster:
  "\<exists>es s t. let x = \<lparr>cl_ctrl = demo_stored (demo_meta demo_full),
        cl_node = (\<lambda>a. (fresh_node a, Map.empty))(''a'' := (s, Map.empty), ''b'' := (t, Map.empty)), cl_reports = [], cl_orders = []\<rparr>
     in cluster_run rev es (new_cluster demo_boot) = Some x \<and> careful_run rev es (new_cluster demo_boot) \<and>
       content_at (disk s) (chunkPath ''f'' 0) = Some ''ab'' \<and> content_at (disk t) (chunkPath ''f'' 1) = Some ''cd''"
proof -
  let ?env = ControllerDemo.demo_env
  let ?es3 = "[ReportArrives ?env 0, ReportArrives ?env 0]"
  let ?es2 = "demo_store_events ''a'' 0 ''ab'' @ demo_store_events ''b'' 1 ''cd'' @ ?es3"
  let ?es1 = "ControllerEvent ?env (Recv (Wrapper_PutFileReq demo_put)) # ?es2"
  let ?es = "demo_join ''a'' @ demo_join ''b'' @ demo_join ''c'' @ ?es1"
  let ?start = "new_cluster demo_boot" and ?ready = "new_cluster demo_ready" and ?open = "new_cluster (demo_pending demo_empty 2)"
  have fresh: "node_ok md5 a (fresh_node a, Map.empty)" "content_at (disk (fresh_node a)) p = None" for md5 a p
    using fresh_node_inv by (simp_all add: node_ok_def) (simp_all add: fresh_node_def content_at_def)
  have 1: "cluster_run rev ?es ?start = cluster_run rev ?es1 ?ready" "careful_run rev ?es ?start = careful_run rev ?es1 ?ready"
    by (simp_all add: demo_join_run new_cluster_def demo_ready_def newController_def)
  have "at_controller ?env (Recv (Wrapper_PutFileReq demo_put)) ?ready = Some ?open"
    using demo_put_run by (simp add: at_controller_def new_cluster_def ControllerDemo.demo_env_def orders_of_def List.map_filter_def)
  then have 2: "cluster_run rev ?es1 ?ready = cluster_run rev ?es2 ?open" "careful_run rev ?es1 ?ready = careful_run rev ?es2 ?open"
    by simp_all
  obtain s where s: "content_at (disk s) (chunkPath ''f'' 0) = Some ''ab''" and run_s: "\<And>es.
      let x' = ?open\<lparr>cl_reports := cl_reports ?open @ [SendChunkStatusReport ''f'' 0 True ''a''], cl_node := (cl_node ?open)(''a'' := (s, Map.empty))\<rparr>
      in cluster_run rev (demo_store_events ''a'' 0 ''ab'' @ es) ?open = cluster_run rev es x' \<and>
         careful_run rev (demo_store_events ''a'' 0 ''ab'' @ es) ?open = careful_run rev es x'"
    using demo_store_run [of ?open "''a''" "fresh_node ''a''" "''ab''" 0] fresh by (auto simp: new_cluster_def)
  let ?half = "?open\<lparr>cl_reports := cl_reports ?open @ [SendChunkStatusReport ''f'' 0 True ''a''], cl_node := (cl_node ?open)(''a'' := (s, Map.empty))\<rparr>"
  obtain t where t: "content_at (disk t) (chunkPath ''f'' 1) = Some ''cd''" and run_t: "\<And>es.
      let x' = ?half\<lparr>cl_reports := cl_reports ?half @ [SendChunkStatusReport ''f'' 1 True ''b''], cl_node := (cl_node ?half)(''b'' := (t, Map.empty))\<rparr>
      in cluster_run rev (demo_store_events ''b'' 1 ''cd'' @ es) ?half = cluster_run rev es x' \<and>
         careful_run rev (demo_store_events ''b'' 1 ''cd'' @ es) ?half = careful_run rev es x'"
    using demo_store_run [of ?half "''b''" "fresh_node ''b''" "''cd''" 1] fresh by (auto simp: new_cluster_def)
  let ?full = "?half\<lparr>cl_reports := cl_reports ?half @ [SendChunkStatusReport ''f'' 1 True ''b''], cl_node := (cl_node ?half)(''b'' := (t, Map.empty))\<rparr>"
  have 3: "cluster_run rev ?es2 ?open = cluster_run rev ?es3 ?full" "careful_run rev ?es2 ?open = careful_run rev ?es3 ?full"
    using run_s run_t by (simp_all add: Let_def)
  have 4: "cluster_run rev ?es3 ?full = Some (?full\<lparr>cl_ctrl := demo_stored (demo_meta demo_full), cl_reports := []\<rparr>)"
    "careful_run rev ?es3 ?full"
    using two_reports_run [OF _ _ exec_report [OF demo_second_report], of ?full] exec_report [OF demo_first_report, of ?env]
    by (simp_all add: new_cluster_def del: ctrl_exec.simps cluster_run.simps careful_run.simps)
  have "cluster_run rev ?es ?start = Some (?full\<lparr>cl_ctrl := demo_stored (demo_meta demo_full), cl_reports := []\<rparr>)"
    "careful_run rev ?es ?start" by (simp_all only: 1 2 3 4)
  then show ?thesis using s t
    by (intro exI [of _ ?es] exI [of _ s] exI [of _ t]) (simp add: Let_def new_cluster_def del: cluster_run.simps careful_run.simps)
qed

theorem stored_files_download_witness:
  "\<exists>es x w. cluster_run rev es (new_cluster demo_boot) = Some x \<and> careful_run rev es (new_cluster demo_boot) \<and>
     handleGetFile (Some \<lparr>fi_name = ''f'', fi_size = 0\<rparr>) (cl_ctrl x) = Inr (cl_ctrl x, [Reply w]) \<and>
     get rev None (Some w) 1000000000 [] (\<lambda>cid a. fetch_session rev ''f'' cid (fst (cl_node x a))) = Inr (Merged ''abcd'')"
proof -
  have base: "path_base ''f'' = ''f''" by (simp add: path_base_def)
  obtain es s t where run: "cluster_run rev es (new_cluster demo_boot) = Some \<lparr>cl_ctrl = demo_stored (demo_meta demo_full),
        cl_node = (\<lambda>a. (fresh_node a, Map.empty))(''a'' := (s, Map.empty), ''b'' := (t, Map.empty)), cl_reports = [], cl_orders = []\<rparr>"
      (is "_ = Some ?x") and careful: "careful_run rev es (new_cluster demo_boot)"
    and s: "content_at (disk s) (chunkPath ''f'' 0) = Some ''ab''" and t: "content_at (disk t) (chunkPath ''f'' 1) = Some ''cd''"
    using demo_cluster by (auto simp: Let_def)
  have at: "files (cl_ctrl ?x) (path_base ''f'') = Some (demo_meta demo_full)" by (simp add: base demo_stored_def)
  then obtain w where answer: "handleGetFile (Some \<lparr>fi_name = path_base ''f'', fi_size = 0\<rparr>) (cl_ctrl ?x) = Inr (cl_ctrl ?x, [Reply w])"
    by (simp add: handleGetFile_def base)
  have "\<exists>piece. get rev None (Some w) 1000000000 [] (\<lambda>cid a. fetch_session rev ''f'' cid (fst (cl_node ?x a))) =
      Inr (Merged (concat (map (\<lambda>ch. piece (chunkId ch)) (fm_chunks (demo_meta demo_full))))) \<and>
    (\<forall>ch \<in> set (fm_chunks (demo_meta demo_full)). \<exists>a. copy_in (demo_meta demo_full) (chunkId ch) a \<and>
      content_at (disk (fst (cl_node ?x a))) (chunkPath (path_base ''f'') (chunkId ch)) = Some (piece (chunkId ch)))"
    by (rule stored_files_download [OF demo_start run careful at _ answer])
      (simp_all add: fully_copied_def demo_meta_def demo_chunk_def spacePadding_def mergeThreshold_def)
  then have "get rev None (Some w) 1000000000 [] (\<lambda>cid a. fetch_session rev ''f'' cid (fst (cl_node ?x a))) = Inr (Merged ''abcd'')"
    using s t by (auto simp: demo_meta_def demo_chunk_def copy_in_def base)
  with run careful answer show ?thesis unfolding base by blast
qed

end
