(* ===== verification/LateDelete.thy ===== *)
theory LateDelete
  imports ClusterRun
begin

text \<open>
  A delete of a file frees its name before the nodes have carried it out: the orders to the nodes are still in
  flight when the name can be uploaded again.
\<close>

fun takes_order :: "cluster_event \<Rightarrow> bool" where
  "takes_order (OrderArrives i err) \<longleftrightarrow> True"
| "takes_order (OrderLost i) \<longleftrightarrow> True"
| "takes_order e \<longleftrightarrow> False"

section \<open>Nodes and orders in any run\<close>

lemma cluster_exec_node_inv:
  assumes run: "cluster_exec md5 e x = Some x'" and inv: "\<And>a. node_inv md5 (cl_node x a)"
  shows "node_inv md5 (cl_node x' a)"
proof (cases e)
  case (OrderArrives i err)
  obtain b w where o': "cl_orders x ! i = (b, w)" by fastforce
  obtain s v where sv: "cl_node x b = (s, v)" by fastforce
  have "node_inv md5 (s', v)" if "node_handleDeleteFile err fi s = Inr (s', outs)" for fi s' outs
    using delete_inv [OF _ that] inv [of b] sv by simp
  then show ?thesis using run OrderArrives inv o' sv
    by (cases w) (auto simp: order_at_def split: if_splits sum.splits prod.splits)
next
  case (BeginStore b env req)
  obtain s w where sw: "cl_node x b = (s, w)" by fastforce
  obtain md s' outs h where md: "scr_metadata req = Some md" "w (chunk_path_of md) = None"
    and st: "store_begin env req s = Inr (s', outs, h)"
    and x': "cl_node x' = (cl_node x)(b := (s', case h of None \<Rightarrow> w | Some h' \<Rightarrow> w(chunk_path_of md \<mapsto> (req, h'))))"
    using run sw BeginStore by (auto simp: Option.bind_eq_Some_conv simp del: chunk_path_of_eq not_None_eq split: if_splits sum.splits)
  have sinv: "node_inv md5 (s, w)" using inv [of b] sw by simp
  have "node_inv md5 (s', case h of None \<Rightarrow> w | Some h' \<Rightarrow> w(chunk_path_of md \<mapsto> (req, h')))"
    using rejected_inv [OF sinv _ md] begin_inv [OF sinv _ md] st by (cases h) (simp_all del: chunk_path_of_eq)
  then show ?thesis using inv by (simp add: x' del: chunk_path_of_eq)
next
  case (FinishStore b k inp)
  obtain s w where sw: "cl_node x b = (s, w)" by fastforce
  obtain req h where w: "w (key_path k) = Some (req, h)" using run sw FinishStore by (auto simp: Option.bind_eq_Some_conv)
  have "node_inv md5 (s, w)" using inv [of b] sw by simp
  from finish_inv [OF this w] show ?thesis using run sw w inv FinishStore by (cases "store_finish md5 inp req h s") auto
qed (use run inv in \<open>auto simp: at_controller_def split: if_splits sum.splits\<close>)

lemma cluster_run_node_inv:
  "cluster_run md5 es x = Some x' \<Longrightarrow> (\<And>a. node_inv md5 (cl_node x a)) \<Longrightarrow> node_inv md5 (cl_node x' a)"
proof (induction es arbitrary: x)
  case (Cons e es)
  then obtain y where "cluster_exec md5 e x = Some y" "cluster_run md5 es y = Some x'" by (auto simp: Option.bind_eq_Some_conv)
  with Cons cluster_exec_node_inv show ?case by blast
qed simp

text \<open>Orders stay in flight until they arrive or are lost.\<close>

lemma cluster_exec_orders:
  assumes run: "cluster_exec md5 e x = Some x'" and "\<not> takes_order e"
  shows "\<exists>os. cl_orders x' = cl_orders x @ os"
proof (cases e)
  case (FinishStore b k inp)
  obtain s w where sw: "cl_node x b = (s, w)" by fastforce
  moreover from this run FinishStore obtain req h where "w (key_path k) = Some (req, h)" by (auto simp: Option.bind_eq_Some_conv)
  ultimately show ?thesis using run FinishStore by (cases "store_finish md5 inp req h s") auto
qed (use assms in \<open>auto simp: at_controller_def Option.bind_eq_Some_conv split: if_splits sum.splits prod.splits\<close>)

lemma cluster_run_orders:
  "cluster_run md5 es x = Some x' \<Longrightarrow> \<forall>e \<in> set es. \<not> takes_order e \<Longrightarrow> \<exists>os. cl_orders x' = cl_orders x @ os"
proof (induction es arbitrary: x)
  case (Cons e es)
  then obtain y where y: "cluster_exec md5 e x = Some y" "cluster_run md5 es y = Some x'" by (auto simp: Option.bind_eq_Some_conv)
  obtain o1 where "cl_orders y = cl_orders x @ o1" using cluster_exec_orders [OF y(1)] Cons.prems(2) by auto
  moreover obtain o2 where "cl_orders x' = cl_orders y @ o2" using Cons.IH [OF y(2)] Cons.prems(2) by auto
  ultimately show ?case by simp
qed simp

section \<open>The delete\<close>

text \<open>The controller answers a DELETE request and sends an order to every node that it lists for the file.\<close>

lemma delete_orders:
  assumes run: "at_controller env (Recv (SendDeleteFileRequest n)) x = Some x'"
    and stored: "files (cl_ctrl x) n = Some m" and copy: "copy_in m cid a"
  shows "(a, SendDeleteFileRequest n) \<in> set (cl_orders x') \<and> files (cl_ctrl x') n = None"
proof -
  let ?outs = "delete_messages n m @ [Reply (SendResponse True ''File deleted successfully'')]"
  obtain c where c: "appendWalRecord (env_io env 0) ''DELETE'' n None (cl_ctrl x\<lparr>files := (files (cl_ctrl x))(n := None)\<rparr>) = Inr c"
    and x': "x' = x\<lparr>cl_ctrl := c, cl_orders := cl_orders x @ orders_of ?outs\<rparr>"
    using run stored by (auto simp: at_controller_def SendDeleteFileRequest_def handleDeleteFile_def and_then_eq_Inr zero_FileInfo_def
        split: sum.splits)
  have "a \<in> set (file_nodes m)" using copy by (auto simp: set_file_nodes copy_in_def)
  then have "ToNode a (SendDeleteFileRequest n) \<in> set ?outs" by (simp add: delete_messages_def)
  then have "(a, SendDeleteFileRequest n) \<in> set (orders_of ?outs)" by (force simp: orders_of_def map_filter_def)
  moreover have "files c n = None" using c by (auto simp: ctrl_simps)
  ultimately show ?thesis by (simp add: x')
qed

text \<open>A node that carries it out has no chunk of the file left to give.\<close>

lemma deleted_not_served:
  assumes inv: "node_inv md5 (s, w)" and run: "node_handleDeleteFile None (Some fi) s = Inr (s', outs)"
    and name: "path_base (fi_name fi) = path_base fileName"
  shows "chunk_from md5 (fetch_session md5 fileName cid s') = Inr None"
proof -
  have s': "s' = s\<lparr>disk := remove_dir (path_base (fi_name fi)) (disk s)\<rparr>" using run by (simp add: node_handleDeleteFile_def)
  let ?md = "zero_ChunkInfo\<lparr>ci_id := cid, ci_file_name := path_base fileName\<rparr>"
  have "content_at (disk s') (chunk_path_of ?md) = None" by (simp add: s' name zero_ChunkInfo_def)
  then show ?thesis using retrieve_answer [OF delete_inv [OF inv run], of ?md]
    by (auto simp: fetch_session_def SendRetrieveChunkRequest_def session_with_def chunk_from_def SendRetrieveChunkResponse_def
        GetRetrieveChunkResp_def List.map_filter_def simp del: chunk_path_of_eq)
qed

text \<open>C35: a delete can destroy a file that was uploaded after it. A DELETE request frees the name at once; the orders to the
  nodes follow. If the name is uploaded again while the order to a node is in flight, and the node has reported a chunk
  of the new file, then the late order removes that chunk with all others of the name: the node has nothing
  to give to a client, and the controller goes on listing it, for no message tells it.\<close>

theorem late_delete_destroys_upload:
  assumes start: "start_controller None = Inr c0" and before: "cluster_run md5 es0 (new_cluster c0) = Some x0"
    and old: "files (cl_ctrl x0) (path_base fileName) = Some m" "copy_in m cid0 a"
    and deleted: "cluster_exec md5 (ControllerEvent env (Recv (SendDeleteFileRequest (path_base fileName)))) x0 = Some x1"
    and after: "cluster_run md5 es x1 = Some x2" "\<forall>e \<in> set es. \<not> takes_order e"
    and listed: "lists_copy (cl_ctrl x2) (path_base fileName) cid a"
  shows "\<exists>i x3. cluster_exec md5 (OrderArrives i None) x2 = Some x3 \<and>
    lists_copy (cl_ctrl x3) (path_base fileName) cid a \<and> cl_reports x3 = cl_reports x2 \<and>
    chunk_from md5 (fetch_session md5 fileName cid (fst (cl_node x3 a))) = Inr None"
proof -
  let ?n = "path_base fileName"
  have fresh: "node_inv md5 (cl_node (new_cluster c0) b)" for b by (simp add: new_cluster_def fresh_node_inv)
  have inv: "node_inv md5 (cl_node x2 b)" for b
    using cluster_run_node_inv [OF after(1) cluster_exec_node_inv [OF deleted cluster_run_node_inv [OF before fresh]]] .
  have "(a, SendDeleteFileRequest ?n) \<in> set (cl_orders x1)" using delete_orders [OF _ old] deleted by simp
  then have "(a, SendDeleteFileRequest ?n) \<in> set (cl_orders x2)" using cluster_run_orders [OF after] by auto
  then obtain i where i: "i < length (cl_orders x2)" "cl_orders x2 ! i = (a, SendDeleteFileRequest ?n)"
    by (auto simp: in_set_conv_nth)
  obtain s w where sw: "cl_node x2 a = (s, w)" by fastforce
  let ?fi = "zero_FileInfo\<lparr>fi_name := ?n\<rparr>"
  obtain s' outs where del: "node_handleDeleteFile None (Some ?fi) s = Inr (s', outs)" by (simp add: node_handleDeleteFile_def)
  let ?x3 = "x2\<lparr>cl_orders := drop_at i (cl_orders x2), cl_node := (cl_node x2)(a := (s', w))\<rparr>"
  have "cluster_exec md5 (OrderArrives i None) x2 = Some ?x3" using i sw del by (simp add: order_at_def SendDeleteFileRequest_def)
  moreover have "chunk_from md5 (fetch_session md5 fileName cid s') = Inr None"
    by (rule deleted_not_served [OF _ del]) (use inv [of a] sw in \<open>simp_all add: zero_FileInfo_def\<close>)
  ultimately show ?thesis using listed by (intro exI [of _ i] exI [of _ ?x3]) simp
qed

text \<open>The file of the run above is deleted and uploaded again; one of its old holders reports its chunk, and then the order arrives.\<close>

lemma demo_delete:
  "\<exists>c. ctrl_exec ControllerDemo.demo_env (Recv (SendDeleteFileRequest ''f'')) (demo_stored (demo_meta demo_full)) =
      Inr (c, delete_messages ''f'' (demo_meta demo_full) @ [Reply (SendResponse True ''File deleted successfully'')]) \<and>
    nodes c = nodes demo_ready \<and> files c = Map.empty \<and> pendingFiles c = Map.empty \<and> pendingChunks c = Map.empty"
  by (simp add: SendDeleteFileRequest_def zero_FileInfo_def handleDeleteFile_def appendWalRecord_def ControllerDemo.demo_env_def
      demo_stored_def demo_ready_def newController_def Let_def)

lemma demo_put_again:
  assumes "nodes c = nodes demo_ready" "files c = Map.empty" "pendingFiles c = Map.empty" "pendingChunks c = Map.empty"
  shows "ctrl_exec ControllerDemo.demo_env (Recv (Wrapper_PutFileReq demo_put)) c =
    Inr (c\<lparr>pendingFiles := [''f'' \<mapsto> demo_meta demo_empty], pendingChunks := [''f'' \<mapsto> 2]\<rparr>,
      [Reply (SendPutFileResponse True ''Allocation successful'' demo_allocation)])"
proof -
  have "length demo_allocation = 2" by (simp add: demo_allocation_def)
  then show ?thesis using demo_allocate [OF assms(1)] assms(2-)
    by (simp add: handlePutFile_def demo_put_def demo_num_chunks zero_ChunkInfo_def Let_def ControllerDemo.demo_env_def demo_meta_def)
qed

lemma demo_report_again:
  assumes "files c = Map.empty"
  shows "ctrl_exec ControllerDemo.demo_env (Recv (SendChunkStatusReport ''f'' 0 True ''a''))
      (c\<lparr>pendingFiles := [''f'' \<mapsto> demo_meta demo_empty], pendingChunks := [''f'' \<mapsto> 2]\<rparr>) =
    Inr (c\<lparr>pendingFiles := [''f'' \<mapsto> demo_meta demo_half], pendingChunks := [''f'' \<mapsto> 1]\<rparr>, [])"
  by (rule exec_report)
    (simp add: assms report_success_def count_first_copy_def is_chunk_def map_chunk_def add_node_def demo_chunk_def Let_def demo_meta_def)

theorem late_delete_destroys_upload_witness:
  "\<exists>es x. cluster_run rev es (new_cluster demo_boot) = Some x \<and> lists_copy (cl_ctrl x) ''f'' 0 ''a'' \<and>
     chunk_from rev (fetch_session rev ''f'' 0 (fst (cl_node x ''a''))) = Inr None"
proof -
  let ?env = ControllerDemo.demo_env
  have base: "path_base ''f'' = ''f''" by (simp add: path_base_def)
  obtain es0 s t where run0: "cluster_run rev es0 (new_cluster demo_boot) = Some \<lparr>cl_ctrl = demo_stored (demo_meta demo_full),
        cl_node = (\<lambda>a. (fresh_node a, Map.empty))(''a'' := (s, Map.empty), ''b'' := (t, Map.empty)), cl_reports = [], cl_orders = []\<rparr>"
      (is "_ = Some ?x") and careful: "careful_run rev es0 (new_cluster demo_boot)"
    using demo_cluster by (auto simp: Let_def)
  have "cluster_inv rev ?x" using careful_run_inv [OF run0 careful] new_cluster_inv [OF demo_start] by blast
  then have ok: "node_ok rev ''a'' (s, Map.empty)" by (auto simp: cluster_inv_def split: if_splits)
  obtain c where del: "ctrl_exec ?env (Recv (SendDeleteFileRequest ''f'')) (demo_stored (demo_meta demo_full)) =
      Inr (c, delete_messages ''f'' (demo_meta demo_full) @ [Reply (SendResponse True ''File deleted successfully'')])"
    and c: "nodes c = nodes demo_ready" "files c = Map.empty" "pendingFiles c = Map.empty" "pendingChunks c = Map.empty"
    using demo_delete by blast
  let ?outs = "delete_messages ''f'' (demo_meta demo_full) @ [Reply (SendResponse True ''File deleted successfully'')]"
  let ?deleted = "?x\<lparr>cl_ctrl := c, cl_orders := orders_of ?outs\<rparr>"
  have deleted: "cluster_exec rev (ControllerEvent ?env (Recv (SendDeleteFileRequest (path_base ''f'')))) ?x = Some ?deleted"
    using del by (simp add: base at_controller_def del: ctrl_exec.simps)
  let ?open = "?deleted\<lparr>cl_ctrl := c\<lparr>pendingFiles := [''f'' \<mapsto> demo_meta demo_empty], pendingChunks := [''f'' \<mapsto> 2]\<rparr>\<rparr>"
  have put: "cluster_exec rev (ControllerEvent ?env (Recv (Wrapper_PutFileReq demo_put))) ?deleted = Some ?open"
    using demo_put_again [OF c] by (simp add: at_controller_def orders_of_def List.map_filter_def del: ctrl_exec.simps)
  obtain s' where store: "\<And>es. cluster_run rev (demo_store_events ''a'' 0 ''ab'' @ es) ?open =
      cluster_run rev es (?open\<lparr>cl_reports := [SendChunkStatusReport ''f'' 0 True ''a''], cl_node := (cl_node ?open)(''a'' := (s', Map.empty))\<rparr>)"
    using demo_store_run [of ?open "''a''" s "''ab''" 0] ok by (auto simp: Let_def)
  let ?reported = "?open\<lparr>cl_ctrl := c\<lparr>pendingFiles := [''f'' \<mapsto> demo_meta demo_half], pendingChunks := [''f'' \<mapsto> 1]\<rparr>,
      cl_node := (cl_node ?open)(''a'' := (s', Map.empty)), cl_reports := []\<rparr>"
  let ?es = "ControllerEvent ?env (Recv (Wrapper_PutFileReq demo_put)) # demo_store_events ''a'' 0 ''ab'' @ [ReportArrives ?env 0]"
  have again: "cluster_run rev ?es ?deleted = Some ?reported"
    using put store [of "[ReportArrives ?env 0]"] demo_report_again [OF c(2)]
    by (simp add: at_controller_def orders_of_def List.map_filter_def drop_at_def del: ctrl_exec.simps)
  have old: "files (cl_ctrl ?x) (path_base ''f'') = Some (demo_meta demo_full)" "copy_in (demo_meta demo_full) 0 ''a''"
    by (simp_all add: base demo_stored_def copy_in_def demo_meta_def demo_chunk_def)
  have listed: "lists_copy (cl_ctrl ?reported) (path_base ''f'') 0 ''a''"
    by (simp add: base lists_copy_def copy_in_def demo_meta_def demo_chunk_def)
  obtain i x3 where x3: "cluster_exec rev (OrderArrives i None) ?reported = Some x3" "lists_copy (cl_ctrl x3) (path_base ''f'') 0 ''a''"
    "chunk_from rev (fetch_session rev ''f'' 0 (fst (cl_node x3 ''a''))) = Inr None"
    using late_delete_destroys_upload [OF demo_start run0 old deleted again _ listed] by (auto simp: demo_store_events_def)
  have append: "cluster_run rev (es1 @ es2) x = Option.bind (cluster_run rev es1 x) (cluster_run rev es2)" for es1 es2 x
    by (induction es1 arbitrary: x) (auto simp: Option.bind_assoc cong: Option.bind_cong)
  have "cluster_run rev (es0 @ ControllerEvent ?env (Recv (SendDeleteFileRequest (path_base ''f''))) # ?es @ [OrderArrives i None])
      (new_cluster demo_boot) = Some x3"
    using run0 deleted again x3(1) by (simp only: append cluster_run.simps bind.bind_lunit)
  with x3 base show ?thesis by metis
qed

end
