(* ===== verification/TopTool.thy ===== *)
theory TopTool
  imports JobClientProps JobProps
begin

text \<open>
  From a job to what its user reads: the result files of the \<open>unique_ips\<close> job, downloaded into a directory, and the tool that
  prints the most frequent addresses.
\<close>

section \<open>The lines of a result file\<close>

text \<open>A pair of a key as the tool reads it, with the colon, and its count.\<close>

definition enc_count :: "string \<times> u64 \<Rightarrow> string" where
  "enc_count x = fst x @ CHR '' '' # dec_str (unat (snd x))"

definition count_ok :: "string \<times> u64 \<Rightarrow> bool" where
  "count_ok x \<longleftrightarrow> plain (fst x) \<and> length (fst x) < 65500 \<and> unat (snd x) < 2 ^ 63"

lemma dec_str_length: "n < 10 ^ Suc k \<Longrightarrow> length (dec_str n) \<le> Suc k"
proof (induction k arbitrary: n)
  case (Suc k)
  then have "n div 10 < 10 ^ Suc k" by auto
  from Suc.IH [OF this] show ?case by (subst dec_str.simps) simp
qed (simp add: dec_str.simps)

lemma dec_str_short: "n < 2 ^ 63 \<Longrightarrow> length (dec_str n) \<le> 20"
  using dec_str_length [of n 19] by simp

lemma atoi_dec_str: "n < 2 ^ 63 \<Longrightarrow> atoi (dec_str n) = Some (word_of_nat n)"
proof -
  assume n: "n < 2 ^ 63"
  obtain c t where ct: "dec_str n = c # t" by (cases "dec_str n") auto
  have "is_digit c" using dec_str_digits [of n] ct by simp
  then have "c \<noteq> CHR ''-''" "c \<noteq> CHR ''+''" by (auto simp: is_digit_def)
  then show ?thesis using n digits_val_dec_str [of n] dec_str_digits [of n] by (simp add: atoi_def ct Let_def list_all_iff)
qed

lemma itoa_word: "n < 2 ^ 63 \<Longrightarrow> sint (word_of_nat n :: u64) = int n \<and> itoa (word_of_nat n) = dec_str n"
proof -
  assume "n < 2 ^ 63"
  then have "sint (word_of_nat n :: u64) = int n" by (simp add: signed_of_nat signed_take_bit_int_eq_self)
  then show ?thesis by (simp add: itoa_def)
qed

interpretation count_lines: line_format enc_count counted_line count_ok scan_default
proof unfold_locales
  fix x :: "string \<times> u64"
  assume ok: "count_ok x"
  then have p: "plain (fst x)" "plain (dec_str (unat (snd x)))" by (simp_all add: count_ok_def plain_dec_str)
  show "counted_line (enc_count x) = Some x"
    using ok trim_space_two [OF p] fields_of_two [OF p] by (simp add: counted_line_def enc_count_def count_ok_def atoi_dec_str)
  have "nl \<notin> set s" if "plain s" for s using that by (fastforce simp: plain_def list_all_iff byte_of_def)
  with p show "nl \<notin> set (enc_count x)" by (simp add: enc_count_def)
  have "last (dec_str n) \<noteq> cr" for n
  proof -
    have "is_digit (last (dec_str n))" using dec_str_digits [of n] last_in_set [OF dec_str_not_Nil] by blast
    then show ?thesis by (auto simp: is_digit_def)
  qed
  then show "last (enc_count x) \<noteq> cr" by (simp add: enc_count_def)
  show "length (enc_count x) < scan_default"
    using ok dec_str_short [of "unat (snd x)"] by (simp add: enc_count_def count_ok_def scan_default_def)
qed

section \<open>Counting the files\<close>

lemma fold_add_count:
  "distinct (map fst kns) \<Longrightarrow> dom m \<inter> fst ` set kns = {} \<Longrightarrow> fold add_count kns m = m ++ map_of kns"
proof (induction kns arbitrary: m)
  case (Cons kn kns)
  have fresh: "m (fst kn) = None" using Cons.prems(2) by auto
  have "fold add_count kns (m(fst kn \<mapsto> snd kn)) = m(fst kn \<mapsto> snd kn) ++ map_of kns"
  proof (rule Cons.IH)
    have "fst kn \<notin> fst ` set kns" using Cons.prems(1) by simp
    then show "dom (m(fst kn \<mapsto> snd kn)) \<inter> fst ` set kns = {}" using Cons.prems(2) by auto
  qed (use Cons.prems in simp)
  also have "\<dots> = m ++ map_of (kn # kns)"
  proof -
    have "map_of kns (fst kn) = None" using Cons.prems(1) by (simp add: map_of_eq_None_iff)
    then show ?thesis by (auto simp: map_add_def fun_eq_iff split: option.splits)
  qed
  finally have rest: "fold add_count kns (m(fst kn \<mapsto> snd kn)) = m ++ map_of (kn # kns)" .
  have step: "add_count kn m = m(fst kn \<mapsto> snd kn)" using fresh by (simp add: add_count_def)
  show ?case unfolding fold_simps step by (rule rest)
qed simp

lemma count_files:
  assumes ok: "\<forall>kns \<in> set files. list_all count_ok kns" and once: "distinct (map fst (concat files))"
  shows "count_entries (map (\<lambda>kns. Some (write_lines enc_count kns)) files) = map_of (concat files)"
proof -
  have "concat (map (\<lambda>kns. scan_lines scan_default (write_lines enc_count kns)) files) = map enc_count (concat files)"
    using ok by (induction files) (simp_all add: count_lines.scan_write)
  moreover have "List.map_filter counted_line (map enc_count (concat files)) = concat files"
    by (rule count_lines.map_filter_enc) (use ok in \<open>auto simp: list_all_iff\<close>)
  ultimately show ?thesis using fold_add_count [OF once, of Map.empty] by (simp add: count_entries_def comp_def)
qed

text \<open>Every key goes to one reducer.\<close>

lemma reducer_keys_partition:
  assumes R: "R \<noteq> 0"
  shows "distinct (concat (map (\<lambda>r. reducer_keys R r kvs) [0..<unat R])) \<and>
    set (concat (map (\<lambda>r. reducer_keys R r kvs) [0..<unat R])) = kv_key ` set kvs"
proof
  have set: "set (reducer_keys R r kvs) = {k \<in> kv_key ` set kvs. ihash k mod R = word_of_nat r}" for r
    by (simp add: reducer_keys_def)
  have apart: "r = r'" if "k \<in> set (reducer_keys R r kvs)" "k \<in> set (reducer_keys R r' kvs)" "r < unat R" "r' < unat R" for k r r'
  proof -
    have eq: "(word_of_nat r :: u32) = word_of_nat r'" using that(1,2) by (simp add: set)
    have small: "unat (word_of_nat i :: u32) = i" if "i < unat R" for i
      using that unsigned_less [of R, where ?'a = nat] by (simp add: unat_of_nat)
    show ?thesis using small [OF that(3)] small [OF that(4)] eq by metis
  qed
  have "distinct (concat (map (\<lambda>r. reducer_keys R r kvs) is))" if "distinct is" "set is \<subseteq> {0..<unat R}" for "is"
    using that
  proof (induction "is")
    case (Cons r rs)
    have "distinct (reducer_keys R r kvs)" by (simp add: reducer_keys_def)
    moreover have "set (reducer_keys R r kvs) \<inter> set (reducer_keys R r' kvs) = {}" if "r' \<in> set rs" for r'
    proof -
      have "r \<noteq> r'" "r < unat R" "r' < unat R" using Cons.prems that by auto
      with apart [of _ r r'] show ?thesis by blast
    qed
    ultimately show ?case using Cons by auto
  qed simp
  then show "distinct (concat (map (\<lambda>r. reducer_keys R r kvs) [0..<unat R]))" by simp
  have "\<exists>r \<in> set [0..<unat R]. ihash k mod R = word_of_nat r" for k
  proof -
    have "0 < unat R" using R by (simp add: unat_gt_0)
    then have "unat (ihash k mod R) < unat R" by (simp add: unat_mod)
    moreover have "ihash k mod R = word_of_nat (unat (ihash k mod R))" by simp
    ultimately show ?thesis by (intro bexI [of _ "unat (ihash k mod R)"]) simp_all
  qed
  then show "set (concat (map (\<lambda>r. reducer_keys R r kvs) [0..<unat R])) = kv_key ` set kvs"
    by (simp only: set_concat set_map image_image set) blast
qed

section \<open>The most frequent addresses\<close>

text \<open>What \<open>sort.Slice\<close> gives with the comparison of the tools: the items, greatest count first.\<close>

definition sorts_items :: "(item list \<Rightarrow> item list) \<Rightarrow> bool" where
  "sorts_items desc \<longleftrightarrow> (\<forall>xs. mset (desc xs) = mset xs \<and> sorted_wrt (\<lambda>a b. sint (snd b) \<le> sint (snd a)) (desc xs))"

definition result_entry :: "string option \<Rightarrow> dir_entry" where
  "result_entry content = \<lparr>de_isDir = False, de_content = content\<rparr>"

lemma top_list:
  assumes desc: "sorts_items desc" and keys: "distinct ks" "\<forall>k \<in> set ks. f k < 2 ^ 63"
    and counts: "count_entries entries = map_of (map (\<lambda>k. (k @ '':'', word_of_nat (f k))) ks)"
    and ord: "(\<lambda>k. k @ '':'') ` set ks \<subseteq> set ord"
  shows "\<exists>best. mset best = mset ks \<and> sorted_wrt (\<lambda>a b. f b \<le> f a) best \<and>
    top_lines desc limit (counted_items ord entries) = map (\<lambda>k. k @ '':: '' @ dec_str (f k)) (take limit best)"
proof -
  let ?item = "\<lambda>k. (k @ '':'', word_of_nat (f k) :: u64)"
  let ?items = "counted_items ord entries" and ?counts = "count_entries entries"
  have inj: "inj_on (\<lambda>k. k @ '':'') (set ks)" by (auto simp: inj_on_def)
  then have dist: "distinct (map fst (map ?item ks))" using keys(1) by (simp add: comp_def distinct_map)
  have dom: "dom ?counts = (\<lambda>k. k @ '':'') ` set ks" by (simp add: counts dom_map_of_conv_image_fst image_image)
  then have cov: "covers ord ?counts" using ord by (simp add: covers_def)
  have at: "?counts (k @ '':'') = Some (word_of_nat (f k))" if "k \<in> set ks" for k
    using map_of_is_SomeI [OF dist, of "k @ '':''"] that unfolding counts by force
  have "set ?items = (\<lambda>k. (k, the (?counts k))) ` (\<lambda>k. k @ '':'') ` set ks"
    by (simp only: counted_items_def Let_def set_map set_range_keys_covers [OF cov] dom)
  also have "\<dots> = set (map ?item ks)" unfolding set_map image_image by (rule image_cong [OF refl]) (simp add: at)
  finally have set: "set ?items = set (map ?item ks)" .
  have once: "distinct ?items" by (auto simp: counted_items_def Let_def distinct_map inj_on_def)
  have "distinct (map ?item ks)" using keys(1) by (simp add: distinct_map inj_on_def)
  from set_eq_iff_mset_eq_distinct [OF once this] set have
    "mset ?items = mset (map ?item ks)" by blast
  then have desc': "mset (desc ?items) = mset (map ?item ks)" using desc by (simp add: sorts_items_def)
  let ?best = "map (\<lambda>x. butlast (fst x)) (desc ?items)"
  have made: "set (desc ?items) = ?item ` set ks" using mset_eq_setD [OF desc'] by simp
  have items: "desc ?items = map ?item ?best"
    unfolding map_map by (rule map_idI [symmetric]) (use made in fastforce)
  have "mset ?best = mset ks" unfolding mset_map desc' by (simp add: multiset.map_comp comp_def)
  from this items obtain best where best: "mset best = mset ks" "desc ?items = map ?item best" by (rule that)
  have small: "f k < 2 ^ 63" if "k \<in> set best" for k using keys(2) that mset_eq_setD [OF best(1)] by simp
  have "sorted_wrt (\<lambda>a b. sint (snd b) \<le> sint (snd a)) (map ?item best)" using desc unfolding sorts_items_def best(2) [symmetric] by blast
  then have "sorted_wrt (\<lambda>a b. f b \<le> f a) best"
    unfolding sorted_wrt_map by (rule sorted_wrt_mono_rel [rotated]) (use small in \<open>simp add: itoa_word\<close>)
  moreover have "top_lines desc limit ?items = map (\<lambda>k. k @ '':: '' @ dec_str (f k)) (take limit best)"
    unfolding top_lines_def best(2) take_map map_map
    by (intro map_cong [OF refl]) (use small in \<open>auto simp: itoa_word dest: in_set_takeD\<close>)
  ultimately show ?thesis using best(1) by blast
qed



end
