(* ===== verification/Spec2Isabelle.thy ===== *)
theory Spec2Isabelle
  imports ControllerProps ClusterProps LogProps StorageProps ClientProps SchedulingProps WorkerProps JobClientProps Framing SysStats
    RaceProps NodeLife StoreSpec WholeJob LeaseLife WorkerLife LateDelete TopTool
begin

text \<open>
  A verification library of a distributed file system (\<open>src/dfs\<close>) and the MapReduce engine on top of it
  (\<open>src/mapreduce\<close>), both written in Go.

  \<^bold>\<open>The program.\<close> A DFS controller keeps the table of files and their chunks, in memory and in a write-ahead log, and
  the registry of storage nodes. A client cuts a file into chunks, asks the controller for nodes, and stores each
  chunk on one of them; that node reports to the controller and copies the chunk to further nodes. A download asks the
  controller for the locations and the nodes for the chunks. A MapReduce master gets the chunk locations of a job's input
  files from the controller, sends map tasks to workers near the chunks and reduce tasks to workers near the
  intermediate data; a worker reads chunks from the storage directory of its host, runs the functions of the job's plugin
  and uploads results with the DFS client. All parts talk through length-prefixed protobuf messages on TCP.

  \<^bold>\<open>Theories and sources.\<close>
  \<^item> \<open>Prelude\<close>, \<open>GoLib\<close>: integers at their width, the result type of code that may panic or exit, iteration over Go maps,
    and the parts of Go's library the source uses (numbers, splitting, paths, white space, line scanning). The
    locale \<open>line_format\<close> of \<open>GoLib\<close> states once what files with one record on each line have in common.
  \<^item> \<open>DfsMessages\<close>, \<open>MrMessages\<close>: the messages of the two \<open>.proto\<close> files and the constructors of the two
    \<open>message_handler.go\<close>; \<open>Framing\<close>: their \<open>ReadN\<close>, \<open>WriteN\<close>, \<open>Send\<close> and \<open>Receive\<close>.
  \<^item> \<open>WalCodec\<close>, \<open>Wal\<close>: the JSON text of log records, recovery, append and compaction (\<open>wal.go\<close>). The locale \<open>durable_log\<close>
    is what the controller needs of its log.
  \<^item> \<open>Controller\<close>: state, handlers, background rounds and dispatch of \<open>controller.go\<close>. \<open>Placement\<close>, \<open>Uploads\<close>, \<open>Rounds\<close>, \<open>ControllerInv\<close>
    and \<open>Lifecycle\<close> hold the lemmas on node selection, uploads, the background rounds, the invariant with its agreement
    with the log, and the automaton of a file name; \<open>ControllerDemo\<close> a concrete cluster; \<open>ControllerProps\<close>, \<open>ClusterProps\<close>
    and \<open>LogProps\<close> the properties. \<open>Sections\<close> cuts the handlers that lock several times at their locks and interleaves
    them as threads; \<open>RaceProps\<close> has what then holds and what does not.
  \<^item> \<open>ChunkStore\<close>, \<open>Replication\<close>: the storage node (\<open>server.go\<close>): disk, marks of running writes, handlers; replication,
    repair, scrubber, registration. \<open>StoreInv\<close> has the step relation of a node with interleaved stores and its invariant,
    \<open>StorageProps\<close> the properties. \<open>StoreSpec\<close> has the abstract machine a node implements; \<open>NodeLife\<close> runs the registration
    and heartbeat loops against the controller, \<open>LeaseLife\<close> the goroutine of the client that renews the lease of an upload.
  \<^item> \<open>Chunking\<close>, \<open>Retrieval\<close>: the DFS client (\<open>client.go\<close>): chunk sizes, upload, download, merging, the command line.
    \<open>ChunkProps\<close> and \<open>ClientProps\<close> have the properties; the locale \<open>chunk_service\<close> is what the client needs of storage
    nodes, interpreted on the model of the node.
  \<^item> \<open>Listing\<close>, \<open>Cluster\<close>: the controller and all its nodes as one machine, with the status reports and the orders that are in flight
    between them. \<open>ClusterRun\<close> is what a client can download from it, \<open>LateDelete\<close> what a delete that arrives late does.
  \<^item> \<open>KvHeap\<close>, \<open>KvSort\<close>: the external sort (\<open>sort.go\<close>, \<open>kv.go\<close>); the locales \<open>priority_queue\<close> and \<open>merging\<close> are interpreted on the heap
    of the code. \<open>MapTask\<close>, \<open>ReduceTask\<close>, \<open>Plugins\<close>: map and reduce proper and the plugins; \<open>JobProps\<close>: whole jobs.
  \<^item> \<open>WorkerTask\<close>: the rest of \<open>worker.go\<close>, from an assignment to its report; \<open>WorkerProps\<close>. \<open>SysStats\<close>: the load of
    \<open>sys_stats.go\<close> over the \<open>float64\<close> arithmetic of \<open>GoFloat\<close>; \<open>WorkerLife\<close>: the heartbeats of a worker and what the master
    makes of the load.
  \<^item> \<open>Scheduling\<close>: the master (\<open>master.go\<close>); \<open>SchedulingProps\<close>. \<open>JobClient\<close>: the MapReduce client and the tools of
    \<open>mapreduce/client\<close>; \<open>JobClientProps\<close>; \<open>TopTool\<close> reads the results of a job with them. \<open>WholeJob\<close> composes the master, any number of workers and their fetches.

  \<^bold>\<open>What is shown.\<close>
  \<^item> Controller: an invariant of every reachable state, recovery after a crash at any point between two events, the life
    cycle of a file, completion of uploads, allocation, deletion, heartbeats, maintenance, compaction; the invariant also
    under interleaved critical sections, as long as no two PUT requests for one name meet.
  \<^item> Storage node: stores are all or nothing, chunks are never served torn through any interleaving of operations on
    different chunks, a node is a refinement of a map from chunks to bytes, replication and repair achieve what they say, a node
    that was dropped comes back.
  \<^item> Load and leases: percentages stay within a thousandth of the exact ones through every float rounding and decide which
    workers get tasks; an upload that is renewed is not swept.
  \<^item> End to end: a file that was uploaded is downloaded byte for byte, over chunk calculation, upload, node steps, node
    order, download and merge; in any run of controller and nodes in which no copy is taken away, what is stored can be downloaded;
    messages survive every segmentation of a connection; a job computes for every key exactly the
    values emitted for it, and over the chunks of a file what it computes over the file. From the submission of a job over
    attempts of tasks that fail and are repeated on any worker to the result files, every reduction is right,
    and what the tools print of the results are the numbers of the input.
  \<^item> Scheduling: which worker is selected, how often a task is tried, that the master's books are right in whatever order tasks
    end, that every task ends with a well-formed report.
  \<^item> Behaviour that falls short of its purpose, each as a theorem: files stored with a chunk missing, locations forgotten,
    log damage, two uploads of one name, uploads destroyed by an earlier delete, failure reports lost between two locks, nodes that hide each other, overlapping stores, self-replication, map tasks on remote chunks, host names with a common prefix, lost keys,
    endless chunk calculation, crashes on malformed messages and vanished workers, jobs that always succeed.

  \<^bold>\<open>How it is modelled.\<close>
  \<^item> State is a record and is passed explicitly; a handler returns the new state and what it sends, or \<open>Panic\<close> (nil
    dereference, index, division) or \<open>Fatal\<close> (exit). A handler of the controller, the master or a node is one step; a
    store on a node is two, because its data arrive between them, so that stores overlap. In \<open>Sections\<close> a handler of the
    controller is a thread with one step for each time it holds a lock; alone it does what the one step does. The end of a task in \<open>runJob\<close> is one step.
  \<^item> Loops are structural recursions or have a measure. The chunk calculation of text files may not end and is a
    \<open>partial_function\<close> into \<open>option\<close>. Loops that wait for the world (replication rounds, attempts of a task, messages on
    a connection) recurse over the list of what the world brings; no fuel is used anywhere.
  \<^item> Counters, sizes and offsets in protocol and state keep their width and wrap; byte offsets inside files (\<open>int64\<close>) are natural
    numbers. Strings and byte slices are byte lists. Nil and empty slices are one value, as they are after protobuf. Times are
    nanoseconds.
  \<^item> Inputs of the operations: outcomes of the network, of the operating system and of log writes, the iteration order of Go maps, the
    order \<open>sort.Slice\<close> gives equal elements, the clock. \<open>slices.SortFunc\<close> and \<open>sort.SliceStable\<close> are stable
    insertions; the order the former gives equal elements of more than twelve is Go's, not specified, and not relied on.
  \<^item> Parameters: MD5, the protobuf encoding, \<open>net/url\<close>, \<open>plugin.Open\<close>, what a conversion of a float that does not fit \<open>uint8\<close> gives, what
    \<open>ParseFloat\<close> makes of other text than digits. Where a property
    needs a fact about one (that protobuf reads back what it wrote), it is a hypothesis.
  \<^item> Files of a node are names that lead to contents shared with open handles, so that removing a file that is being written is
    visible. Directories named \<open>.\<close> and \<open>..\<close> are not told apart from others. A worker's own intermediate files
    can be written. \<open>to_lower\<close> changes ASCII letters and the two runes that become one; the JSON text does not escape U+2028.

  \<^bold>\<open>Not modelled.\<close> Listeners, sleeps, logging and console output; read and write deadlines, except as outcomes of a read; \<open>GetDirSize\<close> and \<open>GetFreeSpace\<close>, which only ask the
    operating system; what the controller reads of a file's record after it has released the lock (it is read with the section that looked it up);
    locks of the master and the nodes beyond the steps above; shell scripts and build files.
\<close>

end
